(* ===== verification/Prelude.thy ===== *)
theory Prelude
  imports Main "HOL-Library.Word" "HOL-Library.Monad_Syntax" "HOL-Library.AList"
begin

text \<open>
  Shared vocabulary of the development.

  A Go function that can panic is a function into \<^typ>\<open>'a option\<close>: \<^const>\<open>None\<close> is a
  run-time panic (index or slice out of range, nil dereference), a call of
  \<^verbatim>\<open>log.Fatal\<close> or a goroutine that never continues. Go errors, which a function
  returns as ordinary values, are never \<^const>\<open>None\<close>: they are part of the result. Slices are
  lists read through \<open>at\<close>, \<open>slice_from\<close> and \<open>slice_to\<close>, which carry the bounds checks of
  the language. A pointer that may be nil is an \<open>option\<close> too and is read with
  \<open>deref\<close>. A Go map whose size the code uses is an association list with
  distinct keys (\<open>gm_get\<close>, \<open>gm_put\<close>, \<open>gm_len\<close>); the other maps are HOL maps.
\<close>

named_theorems go_defs \<open>definitions of the Go primitives\<close>

type_synonym byte = "8 word"
type_synonym bytes = "byte list"
type_synonym ('k, 'v) gomap = "('k \<times> 'v) list"

section \<open>Go primitives\<close>

definition at :: "'a list \<Rightarrow> int \<Rightarrow> 'a option" where
  "at xs i = (if 0 \<le> i \<and> i < int (length xs) then Some (xs ! nat i) else None)"

definition slice_from :: "'a list \<Rightarrow> int \<Rightarrow> 'a list option" where
  "slice_from xs i = (if 0 \<le> i \<and> i \<le> int (length xs) then Some (drop (nat i) xs) else None)"

definition slice_to :: "'a list \<Rightarrow> int \<Rightarrow> 'a list option" where
  "slice_to xs i = (if 0 \<le> i \<and> i \<le> int (length xs) then Some (take (nat i) xs) else None)"

definition deref :: "'a option \<Rightarrow> 'a option" where
  "deref p = p"

definition go_len :: "'a list \<Rightarrow> int" where
  "go_len xs = int (length xs)"

text \<open>Go's integer division truncates towards zero.\<close>

definition go_div :: "int \<Rightarrow> int \<Rightarrow> int" where
  "go_div a b = sgn a * sgn b * (\<bar>a\<bar> div \<bar>b\<bar>)"

definition gm_get :: "'v \<Rightarrow> ('k, 'v) gomap \<Rightarrow> 'k \<Rightarrow> 'v" where
  "gm_get z m k = (case map_of m k of None \<Rightarrow> z | Some v \<Rightarrow> v)"

definition gm_put :: "'k \<Rightarrow> 'v \<Rightarrow> ('k, 'v) gomap \<Rightarrow> ('k, 'v) gomap" where
  "gm_put k v m = AList.update k v m"

definition gm_len :: "('k, 'v) gomap \<Rightarrow> int" where
  "gm_len m = int (length m)"

text \<open>The bytes of a string literal.\<close>

definition ascii :: "string \<Rightarrow> bytes" where
  "ascii s = map of_char s"

lemmas go_prim_defs [go_defs] =
  at_def slice_from_def slice_to_def deref_def go_len_def

section \<open>Facts about the primitives\<close>

lemma at_Some_iff:
  "at xs i = Some x \<longleftrightarrow> 0 \<le> i \<and> i < int (length xs) \<and> xs ! nat i = x"
  by (auto simp: at_def)

lemma at_of_nat [simp]: "at xs (int n) = (if n < length xs then Some (xs ! n) else None)"
  by (simp add: at_def)

lemma at_neg [simp]: "i < 0 \<Longrightarrow> at xs i = None"
  by (simp add: at_def)

lemma at_last: "xs \<noteq> [] \<Longrightarrow> at xs (int (length xs) - 1) = Some (last xs)"
  by (auto simp: at_def last_conv_nth nat_diff_distrib' Suc_le_eq)

lemma at_drop: "0 \<le> j \<Longrightarrow> at (drop (nat k) xs) j = at xs (j + int (nat k))"
  by (auto simp: at_def nat_add_distrib add.commute)

lemma at_append_left: "0 \<le> i \<Longrightarrow> i < int (length xs) \<Longrightarrow> at (xs @ ys) i = at xs i"
  by (auto simp: at_def nth_append)

lemma gm_get_put: "gm_get z (gm_put k v m) k' = (if k' = k then v else gm_get z m k')"
  by (simp add: gm_get_def gm_put_def update_conv)

lemma gm_len_nonneg [simp]: "0 \<le> gm_len m"
  by (simp add: gm_len_def)

text \<open>From a computed result to the facts about it.\<close>

lemma returns_pair:
  assumes "case x of None \<Rightarrow> False | Some (a, b) \<Rightarrow> P a b"
  obtains a b where "x = Some (a, b)" and "P a b"
  using assms by (auto split: option.splits)

lemma returns_value:
  assumes "case x of None \<Rightarrow> False | Some a \<Rightarrow> P a"
  obtains a where "x = Some a" and "P a"
  using assms by (auto split: option.splits)

end
