(* ===== verification/Common.thy ===== *)
theory Common
  imports Prelude
begin

text \<open>
  The error names of \<^verbatim>\<open>src/common/common.go\<close> and the two tables that translate them to
  and from the numeric codes put on the wire.
\<close>

section \<open>Error names and codes\<close>

definition OK :: string where "OK = ''OK''"
definition ErrNoKey :: string where "ErrNoKey = ''ErrNoKey''"
definition ErrWrongLeader :: string where "ErrWrongLeader = ''ErrWrongLeader''"
definition ErrLeaderChanged :: string where "ErrLeaderChanged = ''ErrLeaderChanged''"
definition ErrHandleTimeout :: string where "ErrHandleTimeout = ''ErrHandleTimeout''"
definition ErrChanClosed :: string where "ErrChanClosed = ''ErrChanClosed''"

lemmas err_name_defs =
  OK_def ErrNoKey_def ErrWrongLeader_def ErrLeaderChanged_def ErrHandleTimeout_def
  ErrChanClosed_def

definition ErrMap :: "string \<rightharpoonup> 32 word" where
  "ErrMap = map_of
     [(OK, 200), (ErrNoKey, 100), (ErrWrongLeader, 101), (ErrLeaderChanged, 102),
      (ErrHandleTimeout, 103), (ErrChanClosed, 104)]"

definition ErrIdMap :: "32 word \<rightharpoonup> string" where
  "ErrIdMap = map_of
     [(200, OK), (100, ErrNoKey), (101, ErrWrongLeader), (102, ErrLeaderChanged),
      (103, ErrHandleTimeout), (104, ErrChanClosed)]"

text \<open>Indexing a Go map with an absent key gives the zero value.\<close>

definition errCode :: "string \<Rightarrow> 32 word" where
  "errCode s = (case ErrMap s of None \<Rightarrow> 0 | Some c \<Rightarrow> c)"

definition errName :: "32 word \<Rightarrow> string" where
  "errName c = (case ErrIdMap c of None \<Rightarrow> [] | Some s \<Rightarrow> s)"

section \<open>The codes the components compare with\<close>

lemma errCode_simps [simp]:
  "errCode OK = 200" "errCode ErrNoKey = 100" "errCode ErrWrongLeader = 101"
  "errCode ErrLeaderChanged = 102" "errCode ErrHandleTimeout = 103" "errCode ErrChanClosed = 104"
  by (simp_all add: errCode_def ErrMap_def err_name_defs)

text \<open>
  The two tables are inverse to each other: a name has code \<open>c\<close> exactly when the
  code \<open>c\<close> is printed as that name, so an error survives the trip over the wire.
\<close>

lemma ErrMap_inverse: "ErrMap s = Some c \<longleftrightarrow> ErrIdMap c = Some s"
  by (auto simp: ErrMap_def ErrIdMap_def err_name_defs split: if_splits)

end
