(* ===== verification/Codec.thy ===== *)
theory Codec
  imports Prelude
begin

text \<open>
  The part of Go's \<^verbatim>\<open>encoding/binary\<close> that the wire formats of \<^verbatim>\<open>src/proxy\<close> use:
  \<^verbatim>\<open>binary.Write\<close> and \<^verbatim>\<open>binary.Read\<close> of fixed-size little-endian integers and
  booleans, over a \<^verbatim>\<open>bytes.Reader\<close> modelled as the list of the bytes not read yet.
  The locale \<open>codec\<close> states what the packers rely on; it is interpreted once for each
  width in use.
\<close>

unbundle bit_operations_syntax

named_theorems codec_simps \<open>rewrite rules that evaluate a reader on an encoded prefix\<close>

section \<open>Errors and readers\<close>

datatype io_err = EOF | ErrUnexpectedEOF | TooLargeMsg | BadMsgType

fun ebind :: "'e + 'a \<Rightarrow> ('a \<Rightarrow> 'e + 'b) \<Rightarrow> 'e + 'b" where
  "ebind (Inl e) f = Inl e"
| "ebind (Inr x) f = f x"

text \<open>\<^verbatim>\<open>io.ReadFull\<close>: all of \<open>n\<close> bytes or an error; reading zero bytes succeeds.\<close>

definition readFull :: "nat \<Rightarrow> bytes \<Rightarrow> io_err + (bytes \<times> bytes)" where
  "readFull n r =
     (if n \<le> length r then Inr (take n r, drop n r)
      else if r = [] then Inl EOF else Inl ErrUnexpectedEOF)"

section \<open>Little-endian integers\<close>

definition le_encode :: "nat \<Rightarrow> 'a::len word \<Rightarrow> bytes" where
  "le_encode n w = map (\<lambda>i. ucast (drop_bit (8 * i) w)) [0..<n]"

fun le_decode :: "bytes \<Rightarrow> 'a::len word" where
  "le_decode [] = 0"
| "le_decode (b # bs) = ucast b OR push_bit 8 (le_decode bs)"

definition le_read :: "nat \<Rightarrow> bytes \<Rightarrow> io_err + ('a::len word \<times> bytes)" where
  "le_read n r = ebind (readFull n r) (\<lambda>(bs, r'). Inr (le_decode bs, r'))"

abbreviation write_u16 :: "16 word \<Rightarrow> bytes" where "write_u16 \<equiv> le_encode 2"
abbreviation write_u32 :: "32 word \<Rightarrow> bytes" where "write_u32 \<equiv> le_encode 4"
abbreviation write_u64 :: "64 word \<Rightarrow> bytes" where "write_u64 \<equiv> le_encode 8"
abbreviation read_u16 :: "bytes \<Rightarrow> io_err + (16 word \<times> bytes)" where "read_u16 \<equiv> le_read 2"
abbreviation read_u32 :: "bytes \<Rightarrow> io_err + (32 word \<times> bytes)" where "read_u32 \<equiv> le_read 4"
abbreviation read_u64 :: "bytes \<Rightarrow> io_err + (64 word \<times> bytes)" where "read_u64 \<equiv> le_read 8"

definition write_bool :: "bool \<Rightarrow> bytes" where
  "write_bool b = [if b then 1 else 0]"

definition read_bool :: "bytes \<Rightarrow> io_err + (bool \<times> bytes)" where
  "read_bool r = ebind (readFull 1 r) (\<lambda>(bs, r'). Inr (hd bs \<noteq> 0, r'))"

section \<open>The codec interface\<close>

locale codec =
  fixes enc :: "'a \<Rightarrow> bytes"
    and dec :: "bytes \<Rightarrow> io_err + ('a \<times> bytes)"
    and width :: nat
  assumes enc_length: "length (enc x) = width"
    and dec_enc: "dec (enc x @ r) = Inr (x, r)"
    and dec_short: "length r < width \<Longrightarrow> dec r = Inl (if r = [] then EOF else ErrUnexpectedEOF)"
    and dec_rest: "width \<le> length r \<Longrightarrow> \<exists>x. dec r = Inr (x, drop width r)"
begin

lemma dec_enc_nil: "dec (enc x) = Inr (x, [])"
  using dec_enc [of x "[]"] by simp

lemma enc_prefix_free:
  assumes "enc x @ r = enc y @ s"
  shows "x = y \<and> r = s"
proof -
  have "dec (enc x @ r) = dec (enc y @ s)"
    by (rule arg_cong [OF assms])
  then show ?thesis by (simp add: dec_enc)
qed

lemma dec_ok_iff: "(\<exists>p. dec r = Inr p) \<longleftrightarrow> width \<le> length r"
proof (cases "width \<le> length r")
  case True
  then show ?thesis using dec_rest by blast
next
  case False
  then have "dec r = Inl (if r = [] then EOF else ErrUnexpectedEOF)"
    by (intro dec_short) simp
  with False show ?thesis by simp
qed

end

text \<open>A codec whose decoder accepts canonical encodings only.\<close>

locale exact_codec = codec +
  assumes dec_exact: "dec r = Inr (x, r') \<Longrightarrow> r = enc x @ r'"
begin

lemma dec_eq_iff: "dec r = Inr (x, r') \<longleftrightarrow> r = enc x @ r'"
  using dec_exact dec_enc by auto

end

section \<open>Correctness of the integer codec\<close>

lemma le_encode_length [simp]: "length (le_encode n w) = n"
  by (simp add: le_encode_def)

lemma bit_le_decode:
  "bit (le_decode bs :: 'a::len word) k \<longleftrightarrow>
     k < LENGTH('a) \<and> k div 8 < length bs \<and> bit (bs ! (k div 8)) (k mod 8)"
proof (induction bs arbitrary: k)
  case Nil
  then show ?case by simp
next
  case (Cons b bs)
  show ?case
  proof (cases "k < 8")
    case True
    then show ?thesis
      by (auto simp: bit_or_iff bit_ucast_iff bit_push_bit_iff)
  next
    case False
    then have "k div 8 = Suc ((k - 8) div 8)" "k mod 8 = (k - 8) mod 8"
      by (simp_all add: le_div_geq le_mod_geq)
    moreover have "\<not> bit b k"
      using False bit_imp_le_length [of b k] by auto
    ultimately show ?thesis
      using False Cons.IH [of "k - 8"]
      by (auto simp: bit_or_iff bit_ucast_iff bit_push_bit_iff)
  qed
qed

lemma le_decode_encode:
  assumes "LENGTH('a) \<le> 8 * n"
  shows "le_decode (le_encode n w) = (w :: 'a::len word)"
proof (rule bit_word_eqI)
  fix k
  assume k: "k < LENGTH('a)"
  then have "k div 8 < n" using assms by (simp add: less_mult_imp_div_less mult.commute)
  moreover have "8 * (k div 8) + k mod 8 = k" by simp
  ultimately show "bit (le_decode (le_encode n w) :: 'a word) k = bit w k"
    using k by (simp add: bit_le_decode le_encode_def bit_ucast_iff bit_drop_bit_eq)
qed

lemma le_encode_decode:
  assumes "length bs = n" and "8 * n \<le> LENGTH('a)"
  shows "le_encode n (le_decode bs :: 'a::len word) = bs"
proof (rule nth_equalityI)
  show "length (le_encode n (le_decode bs :: 'a word)) = length bs" using assms by simp
next
  fix i
  assume "i < length (le_encode n (le_decode bs :: 'a word))"
  then have i: "i < n" by simp
  show "le_encode n (le_decode bs :: 'a word) ! i = bs ! i"
  proof (rule bit_word_eqI)
    fix j
    assume "j < LENGTH(8)"
    then have j: "j < 8" by simp
    then have "8 * i + j < LENGTH('a)" using i assms(2) by linarith
    moreover have "(8 * i + j) div 8 = i" "(8 * i + j) mod 8 = j" using j by auto
    ultimately show "bit (le_encode n (le_decode bs :: 'a word) ! i) j = bit (bs ! i) j"
      using i j assms(1)
      by (simp add: le_encode_def bit_ucast_iff bit_drop_bit_eq bit_le_decode add.commute)
  qed
qed

lemma le_exact_codec:
  assumes "LENGTH('a::len) = 8 * n" and "0 < n"
  shows "exact_codec (le_encode n :: 'a word \<Rightarrow> bytes) (le_read n) n"
proof (unfold_locales, goal_cases)
  case (1 x) show ?case by simp
next
  case (2 x r) show ?case using assms by (simp add: le_read_def readFull_def le_decode_encode)
next
  case (3 r) then show ?case by (simp add: le_read_def readFull_def)
next
  case (4 r) then show ?case by (simp add: le_read_def readFull_def)
next
  case (5 r x r')
  then show ?case using assms
    by (auto simp: le_read_def readFull_def le_encode_decode split: if_splits)
qed

interpretation u16: exact_codec write_u16 read_u16 2
  by (rule le_exact_codec) simp_all

interpretation u32: exact_codec write_u32 read_u32 4
  by (rule le_exact_codec) simp_all

interpretation u64: exact_codec write_u64 read_u64 8
  by (rule le_exact_codec) simp_all

interpretation bool: codec write_bool read_bool 1
  by unfold_locales
     (auto simp: write_bool_def read_bool_def readFull_def neq_Nil_conv Suc_le_length_iff)

lemmas codec_reads [codec_simps] = u16.dec_enc u32.dec_enc u64.dec_enc bool.dec_enc

lemma write_bool_length [simp]: "length (write_bool b) = 1"
  by (simp add: write_bool_def)

end
