(* ===== verification/Wire.thy ===== *)
theory Wire
  imports Codec Common
begin

text \<open>
  The messages that travel between client, proxy, cluster manager and servers
  (\<^verbatim>\<open>src/proxy/body_pack.go\<close>, \<^verbatim>\<open>client_message.go\<close>, \<^verbatim>\<open>client_pack.go\<close>,
  \<^verbatim>\<open>response.go\<close>, \<^verbatim>\<open>syncmsg.go\<close>) and the conversions of
  \<^verbatim>\<open>src/server/message_proc.go\<close>. A Go string is its bytes; a signed integer is the
  word of its two's complement bits. The getters and setters of the Go types are the selectors
  and updates of the records. A \<^verbatim>\<open>bytes.Buffer\<close> write never fails, so a packer without a
  type assertion returns its bytes directly.

  The limit \<^verbatim>\<open>utils.GlobalObject.MaxPackageSize\<close> belongs to a package that is not part of
  the repository: it is the parameter \<open>maxPkg\<close> of the two unpackers.
\<close>

section \<open>Data\<close>

record Op =
  op_Optype :: "32 word"
  op_IncrId :: "64 word"
  op_ClerkId :: "32 word"
  op_Key :: bytes
  op_Value :: bytes

definition GET :: "32 word" where "GET = 0"
definition PUT :: "32 word" where "PUT = 1"
definition APPEND :: "32 word" where "APPEND = 2"

record Body =
  bd_KeyLen :: "32 word"
  bd_KeyValue :: bytes

record ClientMessage =
  cm_OpId :: "32 word"
  cm_DataLen :: "32 word"
  cm_IncrId :: "64 word"
  cm_ClerkId :: "32 word"
  cm_Data :: bytes

record ServerResponse =
  sr_OpId :: "32 word"
  sr_DataLen :: "32 word"
  sr_IncrId :: "64 word"
  sr_ClerkId :: "32 word"
  sr_ServerId :: "32 word"
  sr_Err :: "32 word"
  sr_Data :: bytes

record SyncMsg =
  sm_CommitIndex :: "64 word"
  sm_IsLeader :: bool
  sm_IpLen :: "16 word"
  sm_ServerId :: "32 word"
  sm_Port :: "32 word"
  sm_Ip :: bytes

text \<open>The zero value of a response.\<close>

definition empty_resp :: ServerResponse where
  "empty_resp = \<lparr>sr_OpId = 0, sr_DataLen = 0, sr_IncrId = 0, sr_ClerkId = 0, sr_ServerId = 0,
     sr_Err = 0, sr_Data = []\<rparr>"

text \<open>The dynamic types behind \<^verbatim>\<open>siface.IMessage\<close>.\<close>

datatype IMessage = IClient ClientMessage | IServer ServerResponse

section \<open>Packers\<close>

subsection \<open>Bodies\<close>

definition Body_GetKey :: "Body \<Rightarrow> bytes option" where
  "Body_GetKey b = slice_to (bd_KeyValue b) (uint (bd_KeyLen b))"

definition Body_GetValue :: "Body \<Rightarrow> bytes option" where
  "Body_GetValue b = slice_from (bd_KeyValue b) (uint (bd_KeyLen b))"

definition BodyPack_Pack :: "Body \<Rightarrow> bytes" where
  "BodyPack_Pack b = write_u32 (bd_KeyLen b) @ bd_KeyValue b"

definition BodyPack_Unpack :: "bytes \<Rightarrow> io_err + Body" where
  "BodyPack_Unpack data =
     ebind (read_u32 data) (\<lambda>(k, r). Inr \<lparr>bd_KeyLen = k, bd_KeyValue = drop 4 data\<rparr>)"

subsection \<open>Requests\<close>

definition requestLen :: nat where "requestLen = 20"

definition NewCliMsgPackage :: "32 word \<Rightarrow> 32 word \<Rightarrow> 64 word \<Rightarrow> bytes \<Rightarrow> ClientMessage" where
  "NewCliMsgPackage i clerkId incrId data =
     \<lparr>cm_OpId = i, cm_DataLen = of_nat (length data), cm_IncrId = incrId,
      cm_ClerkId = clerkId, cm_Data = data\<rparr>"

definition ClientDataPack_Pack :: "IMessage \<Rightarrow> io_err + bytes" where
  "ClientDataPack_Pack msg = (case msg of
       IServer r \<Rightarrow> Inl BadMsgType
     | IClient m \<Rightarrow> Inr (write_u32 (cm_OpId m) @ write_u32 (cm_DataLen m) @
                        write_u64 (cm_IncrId m) @ write_u32 (cm_ClerkId m) @ cm_Data m))"

definition ClientDataPack_Unpack :: "32 word \<Rightarrow> bytes \<Rightarrow> io_err + IMessage" where
  "ClientDataPack_Unpack maxPkg data =
     ebind (read_u32 data) (\<lambda>(opId, r1).
     ebind (read_u32 r1) (\<lambda>(dataLen, r2).
     ebind (read_u64 r2) (\<lambda>(incrId, r3).
     ebind (read_u32 r3) (\<lambda>(clerkId, r4).
       if 0 < maxPkg \<and> maxPkg < dataLen then Inl TooLargeMsg
       else Inr (IClient \<lparr>cm_OpId = opId, cm_DataLen = dataLen, cm_IncrId = incrId,
                         cm_ClerkId = clerkId, cm_Data = []\<rparr>)))))"

subsection \<open>Responses\<close>

definition respHeadLen :: nat where "respHeadLen = 28"

definition NewSerRespPackage ::
  "32 word \<Rightarrow> 32 word \<Rightarrow> 64 word \<Rightarrow> 32 word \<Rightarrow> 32 word \<Rightarrow> bytes \<Rightarrow> ServerResponse" where
  "NewSerRespPackage i clerkId incrId serverId err data =
     \<lparr>sr_OpId = i, sr_DataLen = of_nat (length data), sr_IncrId = incrId, sr_ClerkId = clerkId,
      sr_ServerId = serverId, sr_Err = err, sr_Data = data\<rparr>"

definition SerRespPack_Pack :: "IMessage \<Rightarrow> io_err + bytes" where
  "SerRespPack_Pack msg = (case msg of
       IClient m \<Rightarrow> Inl BadMsgType
     | IServer r \<Rightarrow> Inr (write_u32 (sr_OpId r) @ write_u32 (sr_DataLen r) @
                        write_u64 (sr_IncrId r) @ write_u32 (sr_ClerkId r) @
                        write_u32 (sr_ServerId r) @ write_u32 (sr_Err r) @ sr_Data r))"

definition SerRespPack_Unpack :: "32 word \<Rightarrow> bytes \<Rightarrow> io_err + IMessage" where
  "SerRespPack_Unpack maxPkg data =
     ebind (read_u32 data) (\<lambda>(opId, r1).
     ebind (read_u32 r1) (\<lambda>(dataLen, r2).
     ebind (read_u64 r2) (\<lambda>(incrId, r3).
     ebind (read_u32 r3) (\<lambda>(clerkId, r4).
     ebind (read_u32 r4) (\<lambda>(serverId, r5).
     ebind (read_u32 r5) (\<lambda>(err, r6).
       if 0 < maxPkg \<and> maxPkg < dataLen then Inl TooLargeMsg
       else Inr (IServer \<lparr>sr_OpId = opId, sr_DataLen = dataLen, sr_IncrId = incrId,
                         sr_ClerkId = clerkId, sr_ServerId = serverId, sr_Err = err,
                         sr_Data = []\<rparr>)))))))"

subsection \<open>Status messages\<close>

definition syncHeadLen :: nat where "syncHeadLen = 15"

definition SyncMsgPack_Pack :: "SyncMsg \<Rightarrow> bytes" where
  "SyncMsgPack_Pack m =
     write_u64 (sm_CommitIndex m) @ write_bool (sm_IsLeader m) @ write_u16 (sm_IpLen m) @
     write_u32 (sm_ServerId m)"

definition SyncMsgPack_PackAddr :: "SyncMsg \<Rightarrow> bytes" where
  "SyncMsgPack_PackAddr m =
     write_u64 (sm_CommitIndex m) @ write_bool (sm_IsLeader m) @ write_u16 (sm_IpLen m) @
     write_u32 (sm_ServerId m) @ write_u32 (sm_Port m) @ sm_Ip m"

definition SyncMsgPack_UnpackHead :: "bytes \<Rightarrow> io_err + SyncMsg" where
  "SyncMsgPack_UnpackHead data =
     ebind (read_u64 data) (\<lambda>(ci, r1).
     ebind (read_bool r1) (\<lambda>(il, r2).
     ebind (read_u16 r2) (\<lambda>(ipLen, r3).
     ebind (read_u32 r3) (\<lambda>(sid, r4).
       Inr \<lparr>sm_CommitIndex = ci, sm_IsLeader = il, sm_IpLen = ipLen, sm_ServerId = sid,
            sm_Port = 0, sm_Ip = []\<rparr>))))"

definition SyncMsgPack_UnpackBody :: "bytes \<Rightarrow> SyncMsg \<Rightarrow> (io_err + SyncMsg) option" where
  "SyncMsgPack_UnpackBody data m = do {
     hd4 \<leftarrow> slice_to data 4;
     ip \<leftarrow> slice_from data 4;
     Some (ebind (read_u32 hd4) (\<lambda>(port, _). Inr (m\<lparr>sm_Port := port, sm_Ip := ip\<rparr>)))
   }"

section \<open>Conversions of the message processor\<close>

definition ClientMsgToOp :: "IMessage \<Rightarrow> (io_err + Op) option" where
  "ClientMsgToOp msg = (case msg of
       IServer r \<Rightarrow> Some (Inl BadMsgType)
     | IClient m \<Rightarrow> (case BodyPack_Unpack (cm_Data m) of
           Inl e \<Rightarrow> Some (Inl e)
         | Inr body \<Rightarrow> do {
             key \<leftarrow> Body_GetKey body;
             val \<leftarrow> Body_GetValue body;
             Some (Inr \<lparr>op_Optype = cm_OpId m, op_IncrId = cm_IncrId m,
                        op_ClerkId = cm_ClerkId m, op_Key = key, op_Value = val\<rparr>)
           }))"

definition op_body :: "Op \<Rightarrow> Body" where
  "op_body op = \<lparr>bd_KeyLen = of_nat (length (op_Key op)), bd_KeyValue = op_Key op @ op_Value op\<rparr>"

definition OpToBinary :: "Op \<Rightarrow> io_err + bytes" where
  "OpToBinary op =
     (let binaryData = BodyPack_Pack (op_body op) in
      ClientDataPack_Pack (IClient
        \<lparr>cm_OpId = op_Optype op, cm_DataLen = of_nat (length binaryData),
         cm_IncrId = op_IncrId op, cm_ClerkId = op_ClerkId op, cm_Data = binaryData\<rparr>))"

definition OpToResp :: "Op \<Rightarrow> 32 word \<Rightarrow> ServerResponse" where
  "OpToResp op errId =
     (let binaryData = BodyPack_Pack (op_body op) in
      \<lparr>sr_OpId = op_Optype op, sr_DataLen = of_nat (length binaryData), sr_IncrId = op_IncrId op,
       sr_ClerkId = op_ClerkId op, sr_ServerId = 0, sr_Err = errId, sr_Data = binaryData\<rparr>)"

definition RespToReq :: "ServerResponse \<Rightarrow> ClientMessage" where
  "RespToReq resp =
     \<lparr>cm_OpId = sr_OpId resp, cm_DataLen = sr_DataLen resp, cm_IncrId = sr_IncrId resp,
      cm_ClerkId = sr_ClerkId resp, cm_Data = sr_Data resp\<rparr>"

definition RespToBinary :: "ServerResponse \<Rightarrow> io_err + bytes" where
  "RespToBinary resp = SerRespPack_Pack (IServer resp)"

section \<open>Reading one framed message from a stream\<close>

text \<open>
  The step shared by the readers of requests (\<^verbatim>\<open>handleClientConnection\<close>, the cluster
  manager's \<^verbatim>\<open>serve\<close>): a header of fixed length, then as many bytes as it announces.
\<close>

definition readClientMessage :: "32 word \<Rightarrow> bytes \<Rightarrow> io_err + (ClientMessage \<times> bytes)" where
  "readClientMessage maxPkg stream =
     ebind (readFull requestLen stream) (\<lambda>(headBuffer, s1).
     ebind (ClientDataPack_Unpack maxPkg headBuffer) (\<lambda>msg. (case msg of
         IServer r \<Rightarrow> Inl BadMsgType
       | IClient m \<Rightarrow>
           ebind (readFull (unat (cm_DataLen m)) s1) (\<lambda>(body, s2).
             Inr (m\<lparr>cm_Data := body\<rparr>, s2)))))"

text \<open>The same for responses (\<^verbatim>\<open>serveServ\<close>).\<close>

definition readServerResponse :: "32 word \<Rightarrow> bytes \<Rightarrow> io_err + (ServerResponse \<times> bytes)" where
  "readServerResponse maxPkg stream =
     ebind (readFull respHeadLen stream) (\<lambda>(headBuffer, s1).
     ebind (SerRespPack_Unpack maxPkg headBuffer) (\<lambda>msg. (case msg of
         IClient m \<Rightarrow> Inl BadMsgType
       | IServer r \<Rightarrow>
           ebind (readFull (unat (sr_DataLen r)) s1) (\<lambda>(body, s2).
             Inr (r\<lparr>sr_Data := body\<rparr>, s2)))))"

section \<open>Round trips\<close>

lemma readFull_append: "length xs = n \<Longrightarrow> readFull n (xs @ ys) = Inr (xs, ys)"
  by (simp add: readFull_def)

lemma unat_of_nat32: "n < 2 ^ 32 \<Longrightarrow> unat (of_nat n :: 32 word) = n"
  by (simp add: unat_of_nat take_bit_nat_eq_self)

lemma op_body_length: "length (BodyPack_Pack (op_body op)) = 4 + length (op_Key op) + length (op_Value op)"
  by (simp add: BodyPack_Pack_def op_body_def)

lemma BodyPack_roundtrip: "BodyPack_Unpack (BodyPack_Pack b) = Inr b"
  by (simp add: BodyPack_Unpack_def BodyPack_Pack_def codec_simps)

lemma Body_split:
  assumes "length (op_Key op) < 2 ^ 32"
  shows "Body_GetKey (op_body op) = Some (op_Key op)"
    and "Body_GetValue (op_body op) = Some (op_Value op)"
  using assms
  by (simp_all add: Body_GetKey_def Body_GetValue_def op_body_def slice_to_def slice_from_def
        uint_nat unat_of_nat32)

definition within_limit :: "32 word \<Rightarrow> 32 word \<Rightarrow> bool" where
  "within_limit maxPkg n \<longleftrightarrow> maxPkg = 0 \<or> n \<le> maxPkg"

lemma readClientMessage_Pack:
  assumes "ClientDataPack_Pack (IClient m) = Inr bs"
    and "unat (cm_DataLen m) = length (cm_Data m)"
    and "within_limit maxPkg (cm_DataLen m)"
  shows "readClientMessage maxPkg (bs @ rest) = Inr (m, rest)"
proof -
  let ?h = "write_u32 (cm_OpId m) @ write_u32 (cm_DataLen m) @ write_u64 (cm_IncrId m) @
            write_u32 (cm_ClerkId m)"
  have bs: "bs @ rest = ?h @ cm_Data m @ rest"
    using assms(1) by (simp add: ClientDataPack_Pack_def)
  have "ClientDataPack_Unpack maxPkg ?h = Inr (IClient (m\<lparr>cm_Data := []\<rparr>))"
    using assms(3) u32.dec_enc_nil
    by (auto simp: ClientDataPack_Unpack_def within_limit_def codec_simps)
  then show ?thesis
    unfolding readClientMessage_def bs
    by (simp add: readFull_append requestLen_def assms(2) del: append_assoc)
qed

lemma readServerResponse_Pack:
  assumes "SerRespPack_Pack (IServer r) = Inr bs"
    and "unat (sr_DataLen r) = length (sr_Data r)"
    and "within_limit maxPkg (sr_DataLen r)"
  shows "readServerResponse maxPkg (bs @ rest) = Inr (r, rest)"
proof -
  let ?h = "write_u32 (sr_OpId r) @ write_u32 (sr_DataLen r) @ write_u64 (sr_IncrId r) @
            write_u32 (sr_ClerkId r) @ write_u32 (sr_ServerId r) @ write_u32 (sr_Err r)"
  have bs: "bs @ rest = ?h @ sr_Data r @ rest"
    using assms(1) by (simp add: SerRespPack_Pack_def)
  have "SerRespPack_Unpack maxPkg ?h = Inr (IServer (r\<lparr>sr_Data := []\<rparr>))"
    using assms(3) u32.dec_enc_nil
    by (auto simp: SerRespPack_Unpack_def within_limit_def codec_simps)
  then show ?thesis
    unfolding readServerResponse_def bs
    by (simp add: readFull_append respHeadLen_def assms(2) del: append_assoc)
qed

text \<open>
  An operation that the client side packs with \<^const>\<open>OpToBinary\<close> is read back unchanged
  by the server: the framed reader consumes exactly its bytes, whatever follows them in the
  stream, and the conversion of the message gives the operation itself.
\<close>

lemma op_wire_roundtrip:
  assumes "4 + length (op_Key op) + length (op_Value op) < 2 ^ 32"
    and "within_limit maxPkg (of_nat (4 + length (op_Key op) + length (op_Value op)))"
    and "OpToBinary op = Inr bs"
  shows "\<exists>m. readClientMessage maxPkg (bs @ rest) = Inr (m, rest) \<and>
             ClientMsgToOp (IClient m) = Some (Inr op)"
proof -
  let ?d = "BodyPack_Pack (op_body op)"
  let ?m = "\<lparr>cm_OpId = op_Optype op, cm_DataLen = of_nat (length ?d), cm_IncrId = op_IncrId op,
             cm_ClerkId = op_ClerkId op, cm_Data = ?d\<rparr>"
  have len: "unat (of_nat (length ?d) :: 32 word) = length ?d"
    using assms(1) by (intro unat_of_nat32) (simp add: op_body_length)
  have "readClientMessage maxPkg (bs @ rest) = Inr (?m, rest)"
    using assms(2,3) len
    by (intro readClientMessage_Pack)
       (simp_all add: OpToBinary_def Let_def op_body_length)
  moreover have "ClientMsgToOp (IClient ?m) = Some (Inr op)"
    using assms(1) by (simp add: ClientMsgToOp_def BodyPack_roundtrip Body_split)
  ultimately show ?thesis by blast
qed

text \<open>A put of one key and value.\<close>

definition sample_op :: Op where
  "sample_op = \<lparr>op_Optype = PUT, op_IncrId = 7, op_ClerkId = 3, op_Key = [107], op_Value = [118, 119]\<rparr>"

end
