(* ===== verification/RaftTypes.thy ===== *)
theory RaftTypes
  imports Wire
begin

text \<open>
  The data of the Raft layer: log entries, RPC arguments and replies (\<^verbatim>\<open>src/rpc\<close>), the
  message to the service, the state of a peer (\<^verbatim>\<open>Raftserver\<close> in \<^verbatim>\<open>src/raft/raft.go\<close>)
  and the part of it that is persisted.

  Terms, indexes and node ids are \<^typ>\<open>int\<close>: they start at 0 and grow by one, so the width of
  their Go types is never reached. A log is a list of pointers: an element that is
  \<^const>\<open>None\<close> is a nil pointer. Times are in milliseconds. The mutex of a peer is not part of the
  state: every definition below is one critical section. \<open>rf_peers\<close> lists the keys of the
  map \<^verbatim>\<open>peers\<close>, in the order an iteration visits them. \<open>rf_applyCh\<close> is the sequence of the
  messages sent to the service, and \<open>rf_HeartbeatTimer\<close> the duration the timer was last reset
  to.
\<close>

section \<open>Log entries and messages\<close>

record Entry =
  e_Term :: int
  e_Command :: "Op option"

type_synonym rlog = "Entry option list"

record ApplyMsg =
  am_CommandValid :: bool
  am_Command :: "Op option"
  am_CommandIndex :: int
  am_SnapshotValid :: bool
  am_Snapshot :: bytes
  am_SnapshotTerm :: int
  am_SnapshotIndex :: int

record RequestVoteArgs =
  rva_Term :: int
  rva_CandidateId :: int
  rva_LastLogIndex :: int
  rva_LastLogTerm :: int

record RequestVoteReply =
  rvr_Term :: int
  rvr_VoteGranted :: bool

record AppendEntriesArgs =
  aea_Term :: int
  aea_LeaderId :: int
  aea_PrevLogIndex :: int
  aea_PrevLogTerm :: int
  aea_LeaderCommit :: int
  aea_Entries :: rlog

record AppendEntriesReply =
  aer_Term :: int
  aer_Success :: bool
  aer_XTerm :: int
  aer_XIndex :: int
  aer_XLen :: int

record InstallSnapshotArgs =
  isa_Term :: int
  isa_LeaderId :: int
  isa_LastIncludedIndex :: int
  isa_LastIncludedTerm :: int
  isa_LastIncludedCommand :: "Op option"
  isa_Data :: bytes

record InstallSnapshotReply =
  isr_Term :: int

record GetCommitIndexReply =
  gcr_Term :: int
  gcr_CommitIndex :: int

definition empty_reply :: AppendEntriesReply where
  "empty_reply = \<lparr>aer_Term = 0, aer_Success = False, aer_XTerm = 0, aer_XIndex = 0, aer_XLen = 0\<rparr>"

definition empty_op :: Op where
  "empty_op = \<lparr>op_Optype = 0, op_IncrId = 0, op_ClerkId = 0, op_Key = [], op_Value = []\<rparr>"

section \<open>The state of a peer\<close>

datatype Role = Leader | Follower | Candidate

record State =
  st_VotedFor :: int
  st_CurrentTerm :: int

record 'ps Raftserver =
  rf_me :: int
  rf_peers :: "int list"
  rf_dead :: bool
  rf_leaderIdx :: int
  rf_log :: rlog
  rf_currentTerm :: int
  rf_votedFor :: int
  rf_commitIndex :: int
  rf_lastApplied :: int
  rf_nextIndex :: "(int, int) gomap"
  rf_matchIndex :: "(int, int) gomap"
  rf_heartbeatTimeStamp :: int
  rf_HeartbeatTimer :: int
  rf_electionTimeStamp :: int
  rf_electionTimeout :: int
  rf_role :: Role
  rf_voteCount :: int
  rf_snapShot :: bytes
  rf_lastIncludedIndex :: int
  rf_lastIncludedTerm :: int
  rf_applyCh :: "ApplyMsg list"
  rf_persister :: 'ps

text \<open>
  \<^verbatim>\<open>Persister.Save\<close> as the Raft layer calls it: snapshot, vote and term, entries,
  last included index and term, commit index. The result is \<^const>\<open>None\<close> when the call does
  not return.
\<close>

type_synonym 'ps save_fn =
  "bytes \<Rightarrow> State \<Rightarrow> Entry list \<Rightarrow> int \<Rightarrow> int \<Rightarrow> int \<Rightarrow> 'ps \<Rightarrow> 'ps option"

text \<open>
  What the Raft layer relies on: after a call of \<open>save\<close> that returns, the vote and term it
  was given are the ones a restart will find (\<open>stored\<close>).
\<close>

locale stable_store =
  fixes save :: "'ps save_fn"
    and stored :: "'ps \<Rightarrow> State"
  assumes stored_save: "save snap st es li lt ci ps = Some ps' \<Longrightarrow> stored ps' = st"

end
