(* ===== verification/Raft.thy ===== *)
theory Raft
  imports RaftTypes
begin

text \<open>
  The operations of \<^verbatim>\<open>src/raft/raft.go\<close>. Each definition is the code between a
  \<^verbatim>\<open>Lock\<close> and the matching \<^verbatim>\<open>Unlock\<close> of the peer's mutex; a function with several
  critical sections is split at its \<^verbatim>\<open>Unlock\<close>s, so that other operations can run in
  between. The clock (\<open>now\<close>), random timeouts and replies of other peers are arguments.
  \<open>save\<close> is the persister's \<^verbatim>\<open>Save\<close>. Arguments of log messages are evaluated where
  they can panic.
\<close>

section \<open>Constants and index arithmetic\<close>

definition ImmidiateTime :: int where "ImmidiateTime = 3"
definition HeartbeatTime :: int where "HeartbeatTime = 80"
definition ElectionTimeoutRangeBottom :: int where "ElectionTimeoutRangeBottom = 100"
definition ElectionTimeoutRangeTop :: int where "ElectionTimeoutRangeTop = 300"

text \<open>\<open>r\<close> is the value of \<^verbatim>\<open>rand.Intn\<close>, between 0 and its argument, exclusive.\<close>

definition RandomElectionTimeout :: "int \<Rightarrow> int" where
  "RandomElectionTimeout r = ElectionTimeoutRangeBottom + r"

definition HeartbeatTimeThreshold :: "int \<Rightarrow> int" where
  "HeartbeatTimeThreshold r = HeartbeatTime * 5 + r"

definition GlobalToLocal :: "'ps Raftserver \<Rightarrow> int \<Rightarrow> int" where
  "GlobalToLocal rf globalIndex = globalIndex - rf_lastIncludedIndex rf"

definition LocalToGlobal :: "'ps Raftserver \<Rightarrow> int \<Rightarrow> int" where
  "LocalToGlobal rf localIndex = localIndex + rf_lastIncludedIndex rf"

definition ResetHeartTimer :: "int \<Rightarrow> 'ps Raftserver \<Rightarrow> 'ps Raftserver" where
  "ResetHeartTimer timeGap rf = rf\<lparr>rf_HeartbeatTimer := timeGap\<rparr>"

text \<open>\<^verbatim>\<open>rf.log[i].Term\<close> and \<^verbatim>\<open>rf.log[i].Command\<close>, with their two possible panics.\<close>

definition entry_at :: "rlog \<Rightarrow> int \<Rightarrow> Entry option" where
  "entry_at lg i = do { p \<leftarrow> at lg i; deref p }"

definition term_at :: "rlog \<Rightarrow> int \<Rightarrow> int option" where
  "term_at lg i = do { e \<leftarrow> entry_at lg i; Some (e_Term e) }"

abbreviation lastLocal :: "'ps Raftserver \<Rightarrow> int" where
  "lastLocal rf \<equiv> go_len (rf_log rf) - 1"

section \<open>Persistence\<close>

definition persist_entry :: "Entry option \<Rightarrow> Entry option" where
  "persist_entry p = do {
     cur \<leftarrow> deref p;
     Some (case e_Command cur of
         Some c \<Rightarrow> \<lparr>e_Term = e_Term cur, e_Command = Some c\<rparr>
       | None \<Rightarrow> \<lparr>e_Term = e_Term cur, e_Command = Some empty_op\<rparr>)
   }"

definition persist :: "'ps save_fn \<Rightarrow> 'ps Raftserver \<Rightarrow> 'ps Raftserver option" where
  "persist save rf =
     (if 0 < length (rf_log rf) then do {
        logs \<leftarrow> those (map persist_entry (tl (rf_log rf)));
        ps \<leftarrow> save (rf_snapShot rf)
                \<lparr>st_VotedFor = rf_votedFor rf, st_CurrentTerm = rf_currentTerm rf\<rparr> logs
                (rf_lastIncludedIndex rf) (rf_lastIncludedTerm rf) (rf_commitIndex rf)
                (rf_persister rf);
        Some (rf\<lparr>rf_persister := ps\<rparr>)
      } else Some rf)"

definition readPersist :: "rlog \<Rightarrow> int \<Rightarrow> int \<Rightarrow> int \<Rightarrow> 'ps Raftserver \<Rightarrow> 'ps Raftserver" where
  "readPersist logs voteFor currentTerm commitIndex rf =
     (let rf1 = rf\<lparr>rf_votedFor := voteFor, rf_currentTerm := currentTerm,
                   rf_commitIndex := commitIndex\<rparr>
      in if length logs < 1 then rf1 else rf1\<lparr>rf_log := logs\<rparr>)"

definition gm_fill :: "int \<Rightarrow> int \<Rightarrow> (int, int) gomap \<Rightarrow> (int, int) gomap" where
  "gm_fill me v m = map (\<lambda>(i, x). if i = me then (i, x) else (i, v)) m"

definition readSnapshot :: "bytes \<Rightarrow> int \<Rightarrow> int \<Rightarrow> 'ps Raftserver \<Rightarrow> 'ps Raftserver" where
  "readSnapshot data lastIndex lastTerm rf =
     (if length data < 1 then rf
      else rf\<lparr>rf_snapShot := data, rf_lastIncludedIndex := lastIndex,
              rf_lastIncludedTerm := lastTerm,
              rf_nextIndex := gm_fill (rf_me rf) (lastIndex + 1) (rf_nextIndex rf),
              rf_matchIndex := gm_fill (rf_me rf) lastIndex (rf_matchIndex rf),
              rf_lastApplied := lastIndex\<rparr>)"

section \<open>Requests from the service\<close>

text \<open>\<^verbatim>\<open>GetState\<close> returns the commit index, not the term.\<close>

definition GetState :: "'ps Raftserver \<Rightarrow> int \<times> bool" where
  "GetState rf = (rf_commitIndex rf, rf_role rf = Leader)"

definition Start :: "'ps save_fn \<Rightarrow> 'ps Raftserver \<Rightarrow> Op option \<Rightarrow>
    ((int \<times> int \<times> bool) \<times> 'ps Raftserver) option" where
  "Start save rf command =
     (if rf_role rf \<noteq> Leader
      then Some ((-1, -1, False), ResetHeartTimer ImmidiateTime rf)
      else do {
        let rf1 = rf\<lparr>rf_log := rf_log rf @
                       [Some \<lparr>e_Term = rf_currentTerm rf, e_Command = command\<rparr>]\<rparr>;
        rf2 \<leftarrow> persist save rf1;
        Some ((LocalToGlobal rf2 (lastLocal rf2), rf_currentTerm rf2, True),
              ResetHeartTimer ImmidiateTime rf2)
      })"

definition Snapshot :: "'ps save_fn \<Rightarrow> 'ps Raftserver \<Rightarrow> int \<Rightarrow> bytes \<Rightarrow> 'ps Raftserver option" where
  "Snapshot save rf index snapshot =
     (if rf_commitIndex rf < index \<or> index \<le> rf_lastIncludedIndex rf then Some rf
      else do {
        t \<leftarrow> term_at (rf_log rf) (GlobalToLocal rf index);
        lg \<leftarrow> slice_from (rf_log rf) (GlobalToLocal rf index);
        let rf1 = rf\<lparr>rf_snapShot := snapshot, rf_lastIncludedTerm := t, rf_log := lg,
                     rf_lastIncludedIndex := index,
                     rf_lastApplied := (if rf_lastApplied rf < index then index
                                        else rf_lastApplied rf)\<rparr>;
        persist save rf1
      })"

definition Kill :: "'ps Raftserver \<Rightarrow> 'ps Raftserver" where
  "Kill rf = rf\<lparr>rf_dead := True\<rparr>"

section \<open>RPC handlers\<close>

subsection \<open>RequestVote\<close>

text \<open>The candidate's log is at least as up to date as the receiver's.\<close>

definition upToDate :: "'ps Raftserver \<Rightarrow> RequestVoteArgs \<Rightarrow> bool option" where
  "upToDate rf args = do {
     t \<leftarrow> term_at (rf_log rf) (lastLocal rf);
     Some (rva_LastLogTerm args > t \<or>
           (rva_LastLogIndex args \<ge> LocalToGlobal rf (lastLocal rf) \<and> rva_LastLogTerm args = t))
   }"

definition RequestVote :: "'ps save_fn \<Rightarrow> int \<Rightarrow> 'ps Raftserver \<Rightarrow> RequestVoteArgs \<Rightarrow>
    (RequestVoteReply \<times> 'ps Raftserver) option" where
  "RequestVote save now rf args =
     (if rva_Term args < rf_currentTerm rf
      then Some (\<lparr>rvr_Term = rf_currentTerm rf, rvr_VoteGranted = False\<rparr>, rf)
      else do {
        rf1 \<leftarrow> (if rva_Term args > rf_currentTerm rf
                then persist save (rf\<lparr>rf_votedFor := -1, rf_currentTerm := rva_Term args,
                                      rf_role := Follower\<rparr>)
                else Some rf);
        grant \<leftarrow> (if rf_votedFor rf1 = -1 \<or> rf_votedFor rf1 = rva_CandidateId args
                  then upToDate rf1 args else Some False);
        if grant then do {
          rf2 \<leftarrow> persist save (rf1\<lparr>rf_currentTerm := rva_Term args,
                                    rf_votedFor := rva_CandidateId args\<rparr>);
          Some (\<lparr>rvr_Term = rf_currentTerm rf2, rvr_VoteGranted = True\<rparr>,
                rf2\<lparr>rf_role := Follower, rf_heartbeatTimeStamp := now\<rparr>)
        } else Some (\<lparr>rvr_Term = rf_currentTerm rf1, rvr_VoteGranted = False\<rparr>, rf1)
      })"

subsection \<open>GetCommitIndex and its caller\<close>

definition GetCommitIndex :: "'ps Raftserver \<Rightarrow> GetCommitIndexReply" where
  "GetCommitIndex rf = \<lparr>gcr_Term = rf_currentTerm rf, gcr_CommitIndex = rf_commitIndex rf\<rparr>"

text \<open>
  The call goes to \<^verbatim>\<open>rf.peers[rf.leaderIdx]\<close>; a peer that is not in the map is a nil
  client, whose method call panics.
\<close>

definition SendCommitIndex_target :: "'ps Raftserver \<Rightarrow> int option" where
  "SendCommitIndex_target rf =
     (if rf_leaderIdx rf \<in> set (rf_peers rf) then Some (rf_leaderIdx rf) else None)"

datatype commit_result = CommitIs int | WrongLeader | CallFailed

text \<open>
  \<^verbatim>\<open>SendCommitIndex\<close>: what the follower does with the reply of the leader; the value
  put on the channel is the index, or -1 with an error. \<open>None\<close> as a reply is a failed or
  timed-out call.
\<close>

definition SendCommitIndex :: "'ps Raftserver \<Rightarrow> GetCommitIndexReply option \<Rightarrow>
    int \<times> commit_result \<times> 'ps Raftserver" where
  "SendCommitIndex rf reply = (case reply of
       None \<Rightarrow> (-1, CallFailed, rf)
     | Some r \<Rightarrow>
         if gcr_Term r < rf_commitIndex rf \<or> gcr_CommitIndex r < rf_commitIndex rf
         then (-1, WrongLeader, rf)
         else (let rf1 = (if gcr_Term r > rf_currentTerm rf
                          then rf\<lparr>rf_currentTerm := gcr_Term r\<rparr> else rf)
               in (gcr_CommitIndex r, CommitIs (gcr_CommitIndex r), rf1)))"

subsection \<open>AppendEntries\<close>

text \<open>The first index of the run of entries with term \<open>xterm\<close> that ends at \<open>i\<close>.\<close>

function xindex_loop :: "'ps Raftserver \<Rightarrow> int \<Rightarrow> int \<Rightarrow> int option" where
  "xindex_loop rf xterm i =
     (if i > rf_lastIncludedIndex rf then do {
        t \<leftarrow> term_at (rf_log rf) (GlobalToLocal rf i);
        if t = xterm then xindex_loop rf xterm (i - 1) else Some i
      } else Some i)"
  by pat_completeness auto
termination
  by (relation "measure (\<lambda>(rf, xterm, i). nat (i - rf_lastIncludedIndex rf))") auto

declare xindex_loop.simps [simp del]

text \<open>The consistency check: \<^const>\<open>None\<close> inside means no conflict.\<close>

definition checkPrev :: "'ps Raftserver \<Rightarrow> AppendEntriesArgs \<Rightarrow> AppendEntriesReply \<Rightarrow>
    AppendEntriesReply option option" where
  "checkPrev rf args reply =
     (if aea_PrevLogIndex args \<ge> LocalToGlobal rf (go_len (rf_log rf))
      then Some (Some (reply\<lparr>aer_XTerm := -1,
                             aer_XLen := LocalToGlobal rf (go_len (rf_log rf))\<rparr>))
      else if aea_PrevLogIndex args < rf_lastIncludedIndex rf
      then Some (Some (reply\<lparr>aer_XTerm := -1, aer_XLen := rf_lastIncludedIndex rf + 1\<rparr>))
      else if rf_commitIndex rf = aea_PrevLogIndex args then Some None
      else do {
        t \<leftarrow> term_at (rf_log rf) (GlobalToLocal rf (aea_PrevLogIndex args));
        if t \<noteq> aea_PrevLogTerm args then do {
          i \<leftarrow> xindex_loop rf t (aea_PrevLogIndex args);
          Some (Some (reply\<lparr>aer_XTerm := t, aer_XIndex := i + 1,
                            aer_XLen := LocalToGlobal rf (go_len (rf_log rf))\<rparr>))
        } else Some None
      })"

text \<open>
  The loop that appends the new entries; \<open>ridx\<close> is the local index the next one belongs at.
  A conflicting suffix is cut and replaced by all remaining entries.
\<close>

fun appendLoop :: "rlog \<Rightarrow> int \<Rightarrow> rlog \<Rightarrow> rlog option" where
  "appendLoop lg ridx [] = Some lg"
| "appendLoop lg ridx (p # ps) =
     (if ridx < go_len lg then do {
        t \<leftarrow> term_at lg ridx;
        e \<leftarrow> deref p;
        if t \<noteq> e_Term e then do {
          pre \<leftarrow> slice_to lg ridx;
          Some (pre @ p # ps)
        } else appendLoop lg (ridx + 1) ps
      } else if ridx = go_len lg then do {
        e \<leftarrow> deref p;
        l \<leftarrow> deref (last (p # ps));
        Some (lg @ p # ps)
      } else appendLoop lg (ridx + 1) ps)"

text \<open>The handler up to the consistency check, for a request of the current or a newer term.\<close>

definition appendEntries_enter :: "'ps save_fn \<Rightarrow> int \<Rightarrow> 'ps Raftserver \<Rightarrow> AppendEntriesArgs \<Rightarrow>
    'ps Raftserver option" where
  "appendEntries_enter save now rf args =
     (let rf0 = rf\<lparr>rf_heartbeatTimeStamp := now\<rparr> in
      if aea_Term args > rf_currentTerm rf0 then do {
        rf' \<leftarrow> persist save (rf0\<lparr>rf_currentTerm := aea_Term args, rf_votedFor := -1\<rparr>);
        Some (rf'\<lparr>rf_role := Follower\<rparr>)
      } else Some rf0)"

text \<open>The handler after the check has passed.\<close>

definition appendEntries_accept :: "'ps save_fn \<Rightarrow> 'ps Raftserver \<Rightarrow> AppendEntriesArgs \<Rightarrow>
    (AppendEntriesReply \<times> 'ps Raftserver) option" where
  "appendEntries_accept save rf args = do {
     lg \<leftarrow> (if rf_role rf \<noteq> Leader
            then appendLoop (rf_log rf) (GlobalToLocal rf (aea_PrevLogIndex args) + 1)
                   (aea_Entries args)
            else Some (rf_log rf));
     rf2 \<leftarrow> persist save (rf\<lparr>rf_log := lg\<rparr>);
     Some (empty_reply\<lparr>aer_Success := True, aer_Term := rf_currentTerm rf2,
                       aer_XIndex := rf_lastIncludedIndex rf2\<rparr>,
           rf2\<lparr>rf_leaderIdx := aea_LeaderId args,
               rf_commitIndex :=
                 (if aea_LeaderCommit args > rf_commitIndex rf2
                  then max (aea_LeaderCommit args) (LocalToGlobal rf2 (lastLocal rf2))
                  else rf_commitIndex rf2)\<rparr>)
   }"

definition AppendEntries :: "'ps save_fn \<Rightarrow> int \<Rightarrow> 'ps Raftserver \<Rightarrow> AppendEntriesArgs \<Rightarrow>
    (AppendEntriesReply \<times> 'ps Raftserver) option" where
  "AppendEntries save now rf args =
     (if aea_Term args < rf_currentTerm rf then do {
        t \<leftarrow> term_at (rf_log rf) (lastLocal rf);
        Some (empty_reply\<lparr>aer_Term := rf_currentTerm rf\<rparr>, rf)
      } else do {
        rf1 \<leftarrow> appendEntries_enter save now rf args;
        conflict \<leftarrow> checkPrev rf1 args (empty_reply\<lparr>aer_Term := rf_currentTerm rf1\<rparr>);
        (case conflict of
           Some r \<Rightarrow> Some (r\<lparr>aer_Term := rf_currentTerm rf1, aer_Success := False\<rparr>, rf1)
         | None \<Rightarrow> appendEntries_accept save rf1 args)
      })"

subsection \<open>InstallSnapshot\<close>

text \<open>The search for a local entry that the snapshot ends with.\<close>

fun findIncluded :: "'ps Raftserver \<Rightarrow> InstallSnapshotArgs \<Rightarrow> rlog \<Rightarrow> int \<Rightarrow> int option option" where
  "findIncluded rf args [] rIdx = Some None"
| "findIncluded rf args (p # ps) rIdx =
     (if LocalToGlobal rf rIdx = isa_LastIncludedIndex args then do {
        e \<leftarrow> deref p;
        if e_Term e = isa_LastIncludedTerm args then Some (Some rIdx)
        else findIncluded rf args ps (rIdx + 1)
      } else findIncluded rf args ps (rIdx + 1))"

datatype 'ps snap_section =
    SnapDone InstallSnapshotReply "'ps Raftserver"
  | SnapPending InstallSnapshotReply ApplyMsg "'ps Raftserver"

text \<open>
  First critical section: either the handler is finished, or the service has to be sent a
  message before the second section runs.
\<close>

definition InstallSnapshot_begin :: "int \<Rightarrow> 'ps Raftserver \<Rightarrow> InstallSnapshotArgs \<Rightarrow>
    'ps snap_section option" where
  "InstallSnapshot_begin now rf args =
     (if isa_Term args < rf_currentTerm rf
      then Some (SnapDone \<lparr>isr_Term = rf_currentTerm rf\<rparr> (rf\<lparr>rf_heartbeatTimeStamp := now\<rparr>))
      else (let rf1 = (if isa_Term args > rf_currentTerm rf
                       then rf\<lparr>rf_currentTerm := isa_Term args, rf_votedFor := -1\<rparr> else rf);
                rf2 = rf1\<lparr>rf_role := Follower\<rparr>
            in
            if isa_LastIncludedIndex args < rf_lastIncludedIndex rf2 \<or>
               isa_LastIncludedIndex args < rf_commitIndex rf2
            then Some (SnapDone \<lparr>isr_Term = rf_currentTerm rf2\<rparr>
                                (rf2\<lparr>rf_heartbeatTimeStamp := now\<rparr>))
            else do {
              found \<leftarrow> findIncluded rf2 args (rf_log rf2) 0;
              lg \<leftarrow> (case found of
                       Some rIdx \<Rightarrow> slice_from (rf_log rf2) rIdx
                     | None \<Rightarrow> Some [None, Some \<lparr>e_Term = isa_LastIncludedTerm args,
                                                e_Command = isa_LastIncludedCommand args\<rparr>]);
              Some (SnapPending \<lparr>isr_Term = rf_currentTerm rf2\<rparr>
                      \<lparr>am_CommandValid = False, am_Command = None, am_CommandIndex = 0,
                       am_SnapshotValid = True, am_Snapshot = isa_Data args,
                       am_SnapshotTerm = isa_LastIncludedTerm args,
                       am_SnapshotIndex = isa_LastIncludedIndex args\<rparr>
                      (rf2\<lparr>rf_log := lg, rf_snapShot := isa_Data args,
                           rf_lastIncludedIndex := isa_LastIncludedIndex args,
                           rf_lastIncludedTerm := isa_LastIncludedTerm args,
                           rf_commitIndex := (if rf_commitIndex rf2 < isa_LastIncludedIndex args
                                              then isa_LastIncludedIndex args
                                              else rf_commitIndex rf2),
                           rf_lastApplied := max (rf_lastApplied rf2)
                                                 (isa_LastIncludedIndex args)\<rparr>))
            }))"

definition applyCh_send :: "ApplyMsg \<Rightarrow> 'ps Raftserver \<Rightarrow> 'ps Raftserver" where
  "applyCh_send msg rf = rf\<lparr>rf_applyCh := rf_applyCh rf @ [msg]\<rparr>"

text \<open>Second critical section, after the message was taken by the service.\<close>

definition InstallSnapshot_end :: "'ps save_fn \<Rightarrow> int \<Rightarrow> 'ps Raftserver \<Rightarrow> 'ps Raftserver option" where
  "InstallSnapshot_end save now rf = do {
     rf1 \<leftarrow> persist save rf;
     Some (rf1\<lparr>rf_heartbeatTimeStamp := now\<rparr>)
   }"

text \<open>The whole handler when nothing runs between its two sections.\<close>

definition InstallSnapshot :: "'ps save_fn \<Rightarrow> int \<Rightarrow> 'ps Raftserver \<Rightarrow> InstallSnapshotArgs \<Rightarrow>
    (InstallSnapshotReply \<times> 'ps Raftserver) option" where
  "InstallSnapshot save now rf args = do {
     s \<leftarrow> InstallSnapshot_begin now rf args;
     (case s of
        SnapDone reply rf1 \<Rightarrow> Some (reply, rf1)
      | SnapPending reply msg rf1 \<Rightarrow> do {
          rf2 \<leftarrow> InstallSnapshot_end save now (applyCh_send msg rf1);
          Some (reply, rf2)
        })
   }"

section \<open>Elections\<close>

definition StartElection :: "'ps save_fn \<Rightarrow> int \<Rightarrow> int \<Rightarrow> 'ps Raftserver \<Rightarrow>
    (RequestVoteArgs \<times> 'ps Raftserver) option" where
  "StartElection save now r rf = do {
     rf1 \<leftarrow> persist save (rf\<lparr>rf_currentTerm := rf_currentTerm rf + 1, rf_role := Candidate,
                              rf_votedFor := rf_me rf\<rparr>);
     let rf2 = rf1\<lparr>rf_voteCount := 1, rf_electionTimeout := RandomElectionTimeout r,
                   rf_electionTimeStamp := now, rf_heartbeatTimeStamp := now\<rparr>;
     t \<leftarrow> term_at (rf_log rf2) (lastLocal rf2);
     Some (\<lparr>rva_Term = rf_currentTerm rf2, rva_CandidateId = rf_me rf2,
            rva_LastLogIndex = LocalToGlobal rf2 (lastLocal rf2), rva_LastLogTerm = t\<rparr>, rf2)
   }"

text \<open>
  The ticker's test: an election starts when a peer that is not the leader has not heard from
  one for longer than the threshold (\<open>r\<close> is the random part).
\<close>

definition ticker_fires :: "int \<Rightarrow> int \<Rightarrow> 'ps Raftserver \<Rightarrow> bool" where
  "ticker_fires now r rf \<longleftrightarrow>
     rf_role rf \<noteq> Leader \<and> now - rf_heartbeatTimeStamp rf > HeartbeatTimeThreshold r"

text \<open>The answer to a vote request; \<^const>\<open>None\<close> is a failed call.\<close>

definition procVoteAnswer :: "'ps save_fn \<Rightarrow> 'ps Raftserver \<Rightarrow> RequestVoteArgs \<Rightarrow>
    RequestVoteReply option \<Rightarrow> (bool \<times> 'ps Raftserver) option" where
  "procVoteAnswer save rf args reply = (case reply of
       None \<Rightarrow> Some (False, rf)
     | Some r \<Rightarrow>
         if rf_role rf \<noteq> Candidate \<or> rva_Term args \<noteq> rf_currentTerm rf then Some (False, rf)
         else do {
           rf1 \<leftarrow> (if rvr_Term r > rf_currentTerm rf then do {
                     rf' \<leftarrow> persist save (rf\<lparr>rf_currentTerm := rvr_Term r, rf_votedFor := -1\<rparr>);
                     Some (rf'\<lparr>rf_role := Follower\<rparr>)
                   } else Some rf);
           Some (rvr_VoteGranted r, rf1)
         })"

text \<open>
  The loop \<^verbatim>\<open>for i = 0; i < len(rf.nextIndex); i++\<close> of a new leader. It tests the size of
  the map it is extending, so it is a partial function: \<^const>\<open>None\<close> if it does not end.
\<close>

partial_function (option) resetLoop :: "int \<Rightarrow> int \<Rightarrow> int \<Rightarrow> (int, int) gomap \<Rightarrow>
    (int, int) gomap \<Rightarrow> ((int, int) gomap \<times> (int, int) gomap) option" where
  "resetLoop nxt mtc i next match =
     (if i < gm_len next
      then resetLoop nxt mtc (i + 1) (gm_put i nxt next) (gm_put i mtc match)
      else Some (next, match))"

text \<open>
  The second section of \<^verbatim>\<open>collectVote\<close>, entered after a granted vote. The flag tells
  whether the peer became leader and started its sender.
\<close>

definition collectVote_count :: "int \<Rightarrow> 'ps Raftserver \<Rightarrow> (bool \<times> 'ps Raftserver) option" where
  "collectVote_count now rf =
     (if rf_voteCount rf > go_len (rf_peers rf) div 2 then Some (False, rf)
      else (let rf1 = rf\<lparr>rf_voteCount := rf_voteCount rf + 1\<rparr>;
                outTime = (\<not> now - rf_electionTimeStamp rf1 \<le> rf_electionTimeout rf1)
            in
            if rf_voteCount rf1 > go_len (rf_peers rf1) div 2 \<and> rf_role rf1 = Candidate \<and>
               \<not> outTime
            then do {
              (next, match) \<leftarrow> resetLoop (LocalToGlobal rf1 (go_len (rf_log rf1)))
                 (rf_lastIncludedIndex rf1) 0 (rf_nextIndex rf1) (rf_matchIndex rf1);
              e \<leftarrow> entry_at (rf_log rf1) (lastLocal rf1);
              Some (True, ResetHeartTimer ImmidiateTime
                     (rf1\<lparr>rf_role := Leader, rf_leaderIdx := rf_me rf1,
                          rf_nextIndex := next, rf_matchIndex := match\<rparr>))
            }
            else Some (False, rf1)))"

text \<open>The whole of \<^verbatim>\<open>collectVote\<close> when nothing runs between its two sections.\<close>

definition collectVote :: "'ps save_fn \<Rightarrow> int \<Rightarrow> 'ps Raftserver \<Rightarrow> RequestVoteArgs \<Rightarrow>
    RequestVoteReply option \<Rightarrow> (bool \<times> 'ps Raftserver) option" where
  "collectVote save now rf args reply = do {
     (ok, rf1) \<leftarrow> procVoteAnswer save rf args reply;
     if ok then collectVote_count now rf1 else Some (False, rf1)
   }"

section \<open>The leader's side of replication\<close>

subsection \<open>Sending\<close>

datatype task = SendSnapshot int | SendAppend int AppendEntriesArgs

abbreviation nextOf :: "'ps Raftserver \<Rightarrow> int \<Rightarrow> int" where
  "nextOf rf i \<equiv> gm_get 0 (rf_nextIndex rf) i"

abbreviation matchOf :: "'ps Raftserver \<Rightarrow> int \<Rightarrow> int" where
  "matchOf rf i \<equiv> gm_get 0 (rf_matchIndex rf) i"

definition appendTask :: "'ps Raftserver \<Rightarrow> int \<Rightarrow> task option" where
  "appendTask rf i =
     (let prev = nextOf rf i - 1 in
      if prev < rf_lastIncludedIndex rf then Some (SendSnapshot i)
      else do {
        es \<leftarrow> (if LocalToGlobal rf (lastLocal rf) > prev
               then slice_from (rf_log rf) (GlobalToLocal rf (nextOf rf i)) else Some []);
        t \<leftarrow> term_at (rf_log rf) (GlobalToLocal rf (nextOf rf i - 1));
        Some (SendAppend i
          \<lparr>aea_Term = rf_currentTerm rf, aea_LeaderId = rf_me rf, aea_PrevLogIndex = prev,
           aea_PrevLogTerm = t, aea_LeaderCommit = rf_commitIndex rf, aea_Entries = es\<rparr>)
      })"

text \<open>
  One round of \<^verbatim>\<open>StartSendAppendEntries\<close>: the tasks started for the peers, or
  \<^const>\<open>None\<close> inside when the sender ends because the peer is no longer leader.
\<close>

definition StartSendAppendEntries :: "'ps Raftserver \<Rightarrow> (task list option \<times> 'ps Raftserver) option" where
  "StartSendAppendEntries rf =
     (if rf_role rf \<noteq> Leader then Some (None, rf)
      else do {
        ts \<leftarrow> those (map (appendTask rf) (rf_peers rf));
        Some (Some ts, ResetHeartTimer HeartbeatTime rf)
      })"

definition heartbeatArgs :: "'ps Raftserver \<Rightarrow> int \<Rightarrow> AppendEntriesArgs option" where
  "heartbeatArgs rf i = do {
     t \<leftarrow> term_at (rf_log rf) (GlobalToLocal rf (nextOf rf i - 1));
     Some \<lparr>aea_Term = rf_currentTerm rf, aea_LeaderId = rf_me rf,
           aea_PrevLogIndex = nextOf rf i - 1, aea_PrevLogTerm = t,
           aea_LeaderCommit = rf_commitIndex rf, aea_Entries = []\<rparr>
   }"

text \<open>\<^verbatim>\<open>SingleHeartBeat\<close>: the requests it sends, and the verdict on their replies.\<close>

definition SingleHeartBeat_send :: "'ps Raftserver \<Rightarrow>
    ((int \<times> AppendEntriesArgs) list option \<times> 'ps Raftserver) option" where
  "SingleHeartBeat_send rf =
     (if rf_role rf \<noteq> Leader then Some (None, rf)
      else do {
        as \<leftarrow> those (map (\<lambda>i. do { a \<leftarrow> heartbeatArgs rf i; Some (i, a) }) (rf_peers rf));
        Some (Some as, ResetHeartTimer HeartbeatTime rf)
      })"

definition SingleHeartBeat_confirm :: "'ps Raftserver \<Rightarrow> (int \<Rightarrow> bool) \<Rightarrow> bool" where
  "SingleHeartBeat_confirm rf ok \<longleftrightarrow>
     1 + int (length (filter ok (rf_peers rf))) > go_len (rf_peers rf) div 2"

subsection \<open>Replies to AppendEntries\<close>

text \<open>How many peers hold the entry at \<open>n\<close>, counting only an entry of the current term.\<close>

fun countAcks :: "'ps Raftserver \<Rightarrow> int \<Rightarrow> int list \<Rightarrow> int option" where
  "countAcks rf n [] = Some 0"
| "countAcks rf n (i # is) =
     (if matchOf rf i \<ge> n then do {
        t \<leftarrow> term_at (rf_log rf) (GlobalToLocal rf n);
        c \<leftarrow> countAcks rf n is;
        Some (if t = rf_currentTerm rf then c + 1 else c)
      } else countAcks rf n is)"

function commitLoop :: "'ps Raftserver \<Rightarrow> int \<Rightarrow> int option" where
  "commitLoop rf commitLastLog =
     (if commitLastLog > rf_commitIndex rf then do {
        c \<leftarrow> countAcks rf commitLastLog (rf_peers rf);
        if 1 + c > go_len (rf_peers rf) div 2 then do {
          t \<leftarrow> term_at (rf_log rf) (GlobalToLocal rf commitLastLog);
          Some commitLastLog
        } else commitLoop rf (commitLastLog - 1)
      } else Some commitLastLog)"
  by pat_completeness auto
termination
  by (relation "measure (\<lambda>(rf, n). nat (n - rf_commitIndex rf))") auto

declare commitLoop.simps [simp del]

text \<open>The search for the last entry whose term is not above the one in the reply.\<close>

function backLoop :: "'ps Raftserver \<Rightarrow> int \<Rightarrow> int \<Rightarrow> int option" where
  "backLoop rf term i =
     (if i > rf_lastIncludedIndex rf then do {
        t \<leftarrow> term_at (rf_log rf) (GlobalToLocal rf i);
        if t > term then backLoop rf term (i - 1) else Some i
      } else Some i)"
  by pat_completeness auto
termination
  by (relation "measure (\<lambda>(rf, term, i). nat (i - rf_lastIncludedIndex rf))") auto

declare backLoop.simps [simp del]

definition setNext :: "int \<Rightarrow> int \<Rightarrow> 'ps Raftserver \<Rightarrow> 'ps Raftserver" where
  "setNext server v rf = rf\<lparr>rf_nextIndex := gm_put server v (rf_nextIndex rf)\<rparr>"

text \<open>
  The section of \<^verbatim>\<open>sendAppendEntriesToServer\<close> that handles the reply. The flag tells
  whether a snapshot is sent to the server next.
\<close>

definition onAppendSuccess :: "'ps Raftserver \<Rightarrow> int \<Rightarrow> AppendEntriesArgs \<Rightarrow> AppendEntriesReply \<Rightarrow>
    (bool \<times> 'ps Raftserver) option" where
  "onAppendSuccess rf server args reply = (
     let mtc = max (matchOf rf server) (aea_PrevLogIndex args + go_len (aea_Entries args));
         rf1 = setNext server (mtc + 1)
                 (rf\<lparr>rf_matchIndex := gm_put server mtc (rf_matchIndex rf)\<rparr>)
     in do {
       n \<leftarrow> commitLoop rf1 (LocalToGlobal rf1 (lastLocal rf1));
       Some (rf_lastIncludedIndex rf1 > aer_XIndex reply, rf1\<lparr>rf_commitIndex := n\<rparr>)
     })"

definition onAppendConflict :: "'ps Raftserver \<Rightarrow> int \<Rightarrow> AppendEntriesReply \<Rightarrow>
    'ps Raftserver option" where
  "onAppendConflict rf server reply =
     (if aer_XTerm reply = -1
      then Some (setNext server (if rf_lastIncludedTerm rf \<ge> aer_XLen reply
                                 then rf_lastIncludedIndex rf else aer_XLen reply) rf)
      else do {
        let i0 = (if nextOf rf server - 1 < rf_lastIncludedIndex rf
                  then rf_lastIncludedIndex rf else nextOf rf server - 1);
        i \<leftarrow> backLoop rf (aer_Term reply) i0;
        t \<leftarrow> term_at (rf_log rf) (GlobalToLocal rf i);
        Some (setNext server
          (if i = rf_lastIncludedIndex rf \<and> t > aer_Term reply then rf_lastIncludedIndex rf
           else if t = aer_Term reply then i + 1
           else if aer_XIndex reply \<le> rf_lastIncludedIndex rf then rf_lastIncludedIndex rf
           else aer_XIndex reply) rf)
      })"

definition handleAppendReply :: "'ps save_fn \<Rightarrow> int \<Rightarrow> 'ps Raftserver \<Rightarrow> int \<Rightarrow>
    AppendEntriesArgs \<Rightarrow> AppendEntriesReply \<Rightarrow> (bool \<times> 'ps Raftserver) option" where
  "handleAppendReply save now rf server args reply =
     (if aea_Term args \<noteq> rf_currentTerm rf then Some (False, rf)
      else if aer_Success reply then onAppendSuccess rf server args reply
      else if aer_Term reply > rf_currentTerm rf then do {
        l \<leftarrow> term_at (rf_log rf) (lastLocal rf);
        rf1 \<leftarrow> persist save (rf\<lparr>rf_currentTerm := aer_Term reply, rf_votedFor := -1\<rparr>);
        Some (False, rf1\<lparr>rf_role := Follower, rf_heartbeatTimeStamp := now\<rparr>)
      }
      else if aer_Term reply = rf_currentTerm rf \<and> rf_role rf = Leader then do {
        rf1 \<leftarrow> onAppendConflict rf server reply;
        Some (False, rf1)
      }
      else Some (False, rf))"

text \<open>
  \<^verbatim>\<open>sendAppendEntriesToServer\<close> as a whole, when nothing runs while the call is under way;
  \<^const>\<open>None\<close> as a reply is a failed call.
\<close>

definition sendAppendEntriesToServer :: "'ps save_fn \<Rightarrow> int \<Rightarrow> 'ps Raftserver \<Rightarrow> int \<Rightarrow>
    AppendEntriesArgs \<Rightarrow> AppendEntriesReply option \<Rightarrow> (bool \<times> 'ps Raftserver) option" where
  "sendAppendEntriesToServer save now rf server args reply =
     (if rf_role rf \<noteq> Leader then Some (False, rf)
      else (case reply of
          None \<Rightarrow> Some (False, rf)
        | Some r \<Rightarrow> handleAppendReply save now rf server args r))"

subsection \<open>Snapshots to followers\<close>

definition snapshotArgs :: "'ps Raftserver \<Rightarrow> InstallSnapshotArgs option option" where
  "snapshotArgs rf =
     (if rf_role rf \<noteq> Leader then Some None
      else do {
        e \<leftarrow> entry_at (rf_log rf) 0;
        Some (Some \<lparr>isa_Term = rf_currentTerm rf, isa_LeaderId = rf_me rf,
                    isa_LastIncludedIndex = rf_lastIncludedIndex rf,
                    isa_LastIncludedTerm = rf_lastIncludedTerm rf,
                    isa_LastIncludedCommand = e_Command e, isa_Data = rf_snapShot rf\<rparr>)
      })"

definition handleSnapshotReply :: "'ps save_fn \<Rightarrow> int \<Rightarrow> 'ps Raftserver \<Rightarrow> int \<Rightarrow>
    InstallSnapshotReply \<Rightarrow> 'ps Raftserver option" where
  "handleSnapshotReply save now rf server reply =
     (if isr_Term reply > rf_currentTerm rf
      then persist save (rf\<lparr>rf_currentTerm := isr_Term reply, rf_role := Follower,
                            rf_votedFor := -1, rf_heartbeatTimeStamp := now\<rparr>)
      else Some (setNext server (max (LocalToGlobal rf 1) (nextOf rf server)) rf))"

definition sendInstallSnapshotToServer :: "'ps save_fn \<Rightarrow> int \<Rightarrow> 'ps Raftserver \<Rightarrow> int \<Rightarrow>
    (InstallSnapshotArgs \<Rightarrow> InstallSnapshotReply option) \<Rightarrow> 'ps Raftserver option" where
  "sendInstallSnapshotToServer save now rf server call = do {
     a \<leftarrow> snapshotArgs rf;
     (case a of
        None \<Rightarrow> Some rf
      | Some args \<Rightarrow> (case call args of
            None \<Rightarrow> Some rf
          | Some reply \<Rightarrow> handleSnapshotReply save now rf server reply))
   }"

section \<open>Handing committed entries to the service\<close>

definition applyMsgAt :: "'ps Raftserver \<Rightarrow> int \<Rightarrow> ApplyMsg option" where
  "applyMsgAt rf i = do {
     e \<leftarrow> entry_at (rf_log rf) (GlobalToLocal rf i);
     Some \<lparr>am_CommandValid = (rf_lastIncludedIndex rf < i \<and> e_Command e \<noteq> None),
           am_Command = e_Command e, am_CommandIndex = i, am_SnapshotValid = False,
           am_Snapshot = [], am_SnapshotTerm = e_Term e, am_SnapshotIndex = 0\<rparr>
   }"

text \<open>\<^verbatim>\<open>QuickApply\<close>, run once at start-up.\<close>

function QuickApply :: "'ps Raftserver \<Rightarrow> 'ps Raftserver option" where
  "QuickApply rf =
     (if rf_lastApplied rf < rf_commitIndex rf then do {
        m \<leftarrow> applyMsgAt rf (rf_lastApplied rf + 1);
        QuickApply (applyCh_send m (rf\<lparr>rf_lastApplied := rf_lastApplied rf + 1\<rparr>))
      } else Some rf)"
  by pat_completeness auto
termination
  by (relation "measure (\<lambda>rf. nat (rf_commitIndex rf - rf_lastApplied rf))")
     (auto simp: applyCh_send_def)

declare QuickApply.simps [simp del]

text \<open>
  \<^verbatim>\<open>CommitCheck\<close>: a round collects the messages of all committed entries in one section,
  then handles each with a section before and a section after it is sent.
\<close>

definition CommitCheck_collect :: "'ps Raftserver \<Rightarrow> ApplyMsg list option" where
  "CommitCheck_collect rf =
     those (map (applyMsgAt rf) [rf_lastApplied rf + 1 .. rf_commitIndex rf])"

definition CommitCheck_before :: "'ps Raftserver \<Rightarrow> ApplyMsg \<Rightarrow> int option" where
  "CommitCheck_before rf msg =
     (if am_CommandIndex msg \<noteq> rf_lastApplied rf + 1 then None else Some (rf_lastApplied rf))"

definition CommitCheck_after :: "'ps Raftserver \<Rightarrow> ApplyMsg \<Rightarrow> int \<Rightarrow> 'ps Raftserver" where
  "CommitCheck_after rf msg currentLastApplied =
     (if am_CommandIndex msg \<noteq> currentLastApplied + 1 then rf
      else rf\<lparr>rf_lastApplied := max (rf_lastApplied rf) (am_CommandIndex msg)\<rparr>)"

fun CommitCheck_deliver :: "ApplyMsg list \<Rightarrow> 'ps Raftserver \<Rightarrow> 'ps Raftserver" where
  "CommitCheck_deliver [] rf = rf"
| "CommitCheck_deliver (msg # msgs) rf = (case CommitCheck_before rf msg of
       None \<Rightarrow> CommitCheck_deliver msgs rf
     | Some cur \<Rightarrow> CommitCheck_deliver msgs (CommitCheck_after (applyCh_send msg rf) msg cur))"

text \<open>A whole round when nothing else runs during it.\<close>

definition CommitCheck_round :: "'ps Raftserver \<Rightarrow> 'ps Raftserver option" where
  "CommitCheck_round rf = do {
     buffer \<leftarrow> CommitCheck_collect rf;
     Some (CommitCheck_deliver buffer rf)
   }"

section \<open>Start-up\<close>

partial_function (option) resetNext :: "int \<Rightarrow> int \<Rightarrow> (int, int) gomap \<Rightarrow> (int, int) gomap option" where
  "resetNext nxt i next =
     (if i < gm_len next then resetNext nxt (i + 1) (gm_put i nxt next) else Some next)"

definition startWork :: "rlog \<times> int \<times> int \<times> int \<Rightarrow> bytes \<times> int \<times> int \<Rightarrow> 'ps Raftserver \<Rightarrow>
    'ps Raftserver option" where
  "startWork raftState snap rf = (
     let (logs, voteFor, currentTerm, commitIndex) = raftState;
         (data, lastIndex, lastTerm) = snap;
         rf1 = readSnapshot data lastIndex lastTerm
                 (readPersist logs voteFor currentTerm commitIndex rf)
     in do {
       next \<leftarrow> resetNext (LocalToGlobal rf1 (go_len (rf_log rf1))) 0 (rf_nextIndex rf1);
       QuickApply (rf1\<lparr>rf_nextIndex := next\<rparr>)
     })"

text \<open>
  The peer that \<^verbatim>\<open>Make\<close> creates, once it is connected to the others: \<open>peerIds\<close> are the ids of
  the configured nodes, its own included.
\<close>

definition Make :: "int list \<Rightarrow> int \<Rightarrow> 'ps \<Rightarrow> int \<Rightarrow> 'ps Raftserver" where
  "Make peerIds me ps now =
     \<lparr>rf_me = me, rf_peers = filter (\<lambda>i. i \<noteq> me) peerIds, rf_dead = False, rf_leaderIdx = 0,
      rf_log = [], rf_currentTerm = 0, rf_votedFor = -1, rf_commitIndex = 0, rf_lastApplied = 0,
      rf_nextIndex = [], rf_matchIndex = [], rf_heartbeatTimeStamp = 0, rf_HeartbeatTimer = 0,
      rf_electionTimeStamp = now, rf_electionTimeout = 0, rf_role = Follower, rf_voteCount = 0,
      rf_snapShot = [], rf_lastIncludedIndex = 0, rf_lastIncludedTerm = 0, rf_applyCh = [],
      rf_persister = ps\<rparr>"

section \<open>Sample states\<close>

text \<open>A store that keeps only the vote and the term, and peers of a cluster of three on top of it.\<close>

definition keep_state :: "State save_fn" where
  "keep_state snap st es li lt ci ps = Some st"

definition entry :: "int \<Rightarrow> Entry option" where
  "entry t = Some \<lparr>e_Term = t, e_Command = Some (empty_op\<lparr>op_IncrId := of_int t\<rparr>)\<rparr>"

definition sample_peer :: "Role \<Rightarrow> int \<Rightarrow> int list \<Rightarrow> State Raftserver" where
  "sample_peer role t terms =
     (Make [0, 1, 2] 0 \<lparr>st_VotedFor = -1, st_CurrentTerm = 0\<rparr> 0)
       \<lparr>rf_role := role, rf_currentTerm := t, rf_votedFor := 0, rf_log := map entry terms\<rparr>"

definition sample_append :: "int \<Rightarrow> int \<Rightarrow> int \<Rightarrow> int \<Rightarrow> int list \<Rightarrow> AppendEntriesArgs" where
  "sample_append t prev prevTerm ci terms =
     \<lparr>aea_Term = t, aea_LeaderId = 1, aea_PrevLogIndex = prev, aea_PrevLogTerm = prevTerm,
      aea_LeaderCommit = ci, aea_Entries = map entry terms\<rparr>"

end
