(* ===== verification/RaftVote.thy ===== *)
theory RaftVote
  imports Raft
begin

text \<open>
  Terms and votes of one peer. Every critical section of a peer that is running, and its
  restart after a crash, is a step; a step is labelled with the vote it grants, if any. The
  goroutines of the store run beside the peer (\<open>disk\<close>), and a restart may find a store in another
  state, as long as the vote and term on disk stay. The results hold for every store that keeps
  the promise of \<open>stable_store\<close>.
\<close>

section \<open>Steps of a peer\<close>

datatype label = Silent | Granted (gterm: int) (gcand: int)

definition voteLabel :: "RequestVoteArgs \<Rightarrow> RequestVoteReply \<Rightarrow> label" where
  "voteLabel args reply =
     (if rvr_VoteGranted reply then Granted (rvr_Term reply) (rva_CandidateId args) else Silent)"

text \<open>Everything that does not take part in an election.\<close>

inductive local_step :: "'ps save_fn \<Rightarrow> ('ps \<Rightarrow> State) \<Rightarrow> int list \<Rightarrow> 'ps Raftserver \<Rightarrow>
    'ps Raftserver \<Rightarrow> bool" for save stored ids where
  append: "AppendEntries save now rf aargs = Some (areply, rf') \<Longrightarrow> local_step save stored ids rf rf'"
| snapDone: "InstallSnapshot_begin now rf sargs = Some (SnapDone sreply rf') \<Longrightarrow>
    local_step save stored ids rf rf'"
| snapPending: "InstallSnapshot_begin now rf sargs = Some (SnapPending sreply msg rf') \<Longrightarrow>
    local_step save stored ids rf rf'"
| send: "local_step save stored ids rf (applyCh_send msg rf)"
| snapEnd: "InstallSnapshot_end save now rf = Some rf' \<Longrightarrow> local_step save stored ids rf rf'"
| start: "Start save rf cmd = Some (res, rf') \<Longrightarrow> local_step save stored ids rf rf'"
| snapshot: "Snapshot save rf index data = Some rf' \<Longrightarrow> local_step save stored ids rf rf'"
| appendReply: "handleAppendReply save now rf server aargs areply = Some (again, rf') \<Longrightarrow>
    local_step save stored ids rf rf'"
| snapReply: "handleSnapshotReply save now rf server sreply = Some rf' \<Longrightarrow>
    local_step save stored ids rf rf'"
| commitReply: "SendCommitIndex rf creply = (idx, cres, rf') \<Longrightarrow> local_step save stored ids rf rf'"
| round: "StartSendAppendEntries rf = Some (tasks, rf') \<Longrightarrow> local_step save stored ids rf rf'"
| beat: "SingleHeartBeat_send rf = Some (beats, rf') \<Longrightarrow> local_step save stored ids rf rf'"
| applied: "local_step save stored ids rf (CommitCheck_after rf msg cur)"
| kill: "local_step save stored ids rf (Kill rf)"
| disk: "stored ps = stored (rf_persister rf) \<Longrightarrow> local_step save stored ids rf (rf\<lparr>rf_persister := ps\<rparr>)"
| restart: "stored ps = stored (rf_persister rf) \<Longrightarrow>
    startWork (logs, st_VotedFor (stored ps), st_CurrentTerm (stored ps), ci) snap
       (Make ids (rf_me rf) ps now) = Some rf' \<Longrightarrow> local_step save stored ids rf rf'"

inductive node_step :: "'ps save_fn \<Rightarrow> ('ps \<Rightarrow> State) \<Rightarrow> int list \<Rightarrow> 'ps Raftserver \<Rightarrow> label \<Rightarrow>
    'ps Raftserver \<Rightarrow> bool" for save stored ids where
  local: "local_step save stored ids rf rf' \<Longrightarrow> node_step save stored ids rf Silent rf'"
| vote: "RequestVote save now rf args = Some (reply, rf') \<Longrightarrow>
    node_step save stored ids rf (voteLabel args reply) rf'"
| elect: "StartElection save now r rf = Some (vargs, rf') \<Longrightarrow>
    node_step save stored ids rf (Granted (rva_Term vargs) (rva_CandidateId vargs)) rf'"
| answer: "procVoteAnswer save rf vargs vreply = Some (ok, rf') \<Longrightarrow>
    node_step save stored ids rf Silent rf'"
| count: "collectVote_count now rf = Some (won, rf') \<Longrightarrow> node_step save stored ids rf Silent rf'"

text \<open>A run and the votes granted in it, the latest first.\<close>

inductive node_run :: "'ps save_fn \<Rightarrow> ('ps \<Rightarrow> State) \<Rightarrow> int list \<Rightarrow> 'ps Raftserver \<Rightarrow>
    (int \<times> int) list \<Rightarrow> 'ps Raftserver \<Rightarrow> bool" for save stored ids rf0 where
  init: "node_run save stored ids rf0 [] rf0"
| quiet: "node_run save stored ids rf0 vs rf \<Longrightarrow> node_step save stored ids rf Silent rf' \<Longrightarrow>
    node_run save stored ids rf0 vs rf'"
| grant: "node_run save stored ids rf0 vs rf \<Longrightarrow> node_step save stored ids rf (Granted t c) rf' \<Longrightarrow>
    node_run save stored ids rf0 ((t, c) # vs) rf'"

section \<open>What the operations do to term and vote\<close>

lemma persist_cases:
  assumes "persist save rf = Some rf'"
  shows "\<exists>ps. rf' = rf\<lparr>rf_persister := ps\<rparr> \<and>
           (rf_log rf = [] \<longrightarrow> ps = rf_persister rf) \<and>
           (rf_log rf \<noteq> [] \<longrightarrow> (\<exists>logs. save (rf_snapShot rf)
                \<lparr>st_VotedFor = rf_votedFor rf, st_CurrentTerm = rf_currentTerm rf\<rparr> logs
                (rf_lastIncludedIndex rf) (rf_lastIncludedTerm rf) (rf_commitIndex rf)
                (rf_persister rf) = Some ps))"
proof (cases "rf_log rf = []")
  case True
  then have "rf' = rf\<lparr>rf_persister := rf_persister rf\<rparr>"
    using assms by (simp add: persist_def)
  with True show ?thesis by blast
next
  case False
  then show ?thesis
    using assms by (simp add: persist_def bind_eq_Some_conv) blast
qed

lemma persistE:
  assumes "persist save rf = Some rf'"
  obtains ps where "rf' = rf\<lparr>rf_persister := ps\<rparr>"
  using persist_cases [OF assms] by blast

lemma persist_frame:
  assumes "persist save rf = Some rf'"
  shows "rf_currentTerm rf' = rf_currentTerm rf" "rf_votedFor rf' = rf_votedFor rf"
    "rf_log rf' = rf_log rf" "rf_lastIncludedIndex rf' = rf_lastIncludedIndex rf"
    "rf_commitIndex rf' = rf_commitIndex rf" "rf_me rf' = rf_me rf" "rf_peers rf' = rf_peers rf"
    "rf_role rf' = rf_role rf"
  using persist_cases [OF assms] by auto

definition volatile :: "'ps Raftserver \<Rightarrow> State" where
  "volatile rf = \<lparr>st_VotedFor = rf_votedFor rf, st_CurrentTerm = rf_currentTerm rf\<rparr>"

text \<open>A step that grants no vote: the vote changes only with the term, and grows with it.\<close>

definition quiet_step :: "('ps \<Rightarrow> State) \<Rightarrow> 'ps Raftserver \<Rightarrow> 'ps Raftserver \<Rightarrow> bool" where
  "quiet_step stored rf rf' \<longleftrightarrow>
     (rf_currentTerm rf < rf_currentTerm rf' \<or> volatile rf' = volatile rf) \<and>
     (stored (rf_persister rf') = stored (rf_persister rf) \<or>
      stored (rf_persister rf') = volatile rf')"

text \<open>A step that grants a vote: it is the peer's first vote of that term, or the same again.\<close>

definition grant_step :: "('ps \<Rightarrow> State) \<Rightarrow> int \<Rightarrow> int \<Rightarrow> 'ps Raftserver \<Rightarrow> 'ps Raftserver \<Rightarrow> bool" where
  "grant_step stored t c rf rf' \<longleftrightarrow>
     (rf_currentTerm rf < t \<or> rf_currentTerm rf = t \<and> rf_votedFor rf \<in> {-1, c}) \<and>
     volatile rf' = \<lparr>st_VotedFor = c, st_CurrentTerm = t\<rparr> \<and>
     stored (rf_persister rf') = volatile rf'"

lemma quiet_same:
  "rf_currentTerm rf' = rf_currentTerm rf \<Longrightarrow> rf_votedFor rf' = rf_votedFor rf \<Longrightarrow>
   rf_persister rf' = rf_persister rf \<Longrightarrow> quiet_step stored rf rf'"
  by (simp add: quiet_step_def volatile_def)

lemma term_at_nonempty: "term_at lg i = Some t \<Longrightarrow> lg \<noteq> []"
  by (auto simp: term_at_def entry_at_def at_def bind_eq_Some_conv split: if_splits)

lemma QuickApply_frame:
  "QuickApply rf = Some rf' \<Longrightarrow> volatile rf' = volatile rf \<and> rf_persister rf' = rf_persister rf"
proof (induction rf rule: QuickApply.induct)
  case (1 rf)
  show ?case
  proof (cases "rf_lastApplied rf < rf_commitIndex rf")
    case True
    with "1.prems" obtain m where m: "applyMsgAt rf (rf_lastApplied rf + 1) = Some m"
      and run: "QuickApply (applyCh_send m (rf\<lparr>rf_lastApplied := rf_lastApplied rf + 1\<rparr>)) = Some rf'"
      by (auto simp: QuickApply.simps [of rf] bind_eq_Some_conv)
    from "1.IH" [OF True m run] show ?thesis by (simp add: applyCh_send_def volatile_def)
  next
    case False
    with "1.prems" show ?thesis by (simp add: QuickApply.simps [of rf])
  qed
qed

lemma startWork_frame:
  assumes "startWork (logs, v, t, ci) snap (Make ids me ps now) = Some rf'"
  shows "volatile rf' = \<lparr>st_VotedFor = v, st_CurrentTerm = t\<rparr> \<and> rf_persister rf' = ps"
proof -
  obtain data li lt where snap: "snap = (data, li, lt)" by (cases snap)
  let ?rf1 = "readSnapshot data li lt (readPersist logs v t ci (Make ids me ps now))"
  from assms obtain nx where "QuickApply (?rf1\<lparr>rf_nextIndex := nx\<rparr>) = Some rf'"
    by (auto simp: startWork_def snap Let_def bind_eq_Some_conv)
  from QuickApply_frame [OF this] show ?thesis
    by (auto simp: volatile_def readSnapshot_def readPersist_def Make_def Let_def split: if_splits)
qed

text \<open>Every vote granted so far is of an older term, or is the one on record.\<close>

definition covers :: "(int \<times> int) list \<Rightarrow> State \<Rightarrow> bool" where
  "covers vs st \<longleftrightarrow> (\<forall>(t, c) \<in> set vs.
     t < st_CurrentTerm st \<or> t = st_CurrentTerm st \<and> c = st_VotedFor st)"

lemma covers_newer: "covers vs st \<Longrightarrow> st_CurrentTerm st < st_CurrentTerm st' \<Longrightarrow> covers vs st'"
  by (force simp: covers_def)

lemma covers_agree:
  "covers vs st \<Longrightarrow> (st_CurrentTerm st, c) \<in> set vs \<Longrightarrow> c = st_VotedFor st"
  by (auto simp: covers_def)

lemma covers_grant:
  assumes "covers vs (volatile rf)" and "-1 \<notin> snd ` set vs" and "grant_step stored t c rf rf'"
  shows "covers ((t, c) # vs) (volatile rf')"
proof -
  have v: "volatile rf' = \<lparr>st_VotedFor = c, st_CurrentTerm = t\<rparr>"
    and old: "rf_currentTerm rf < t \<or> rf_currentTerm rf = t \<and> (rf_votedFor rf = -1 \<or> rf_votedFor rf = c)"
    using assms(3) by (auto simp: grant_step_def)
  have "t' < t \<or> t' = t \<and> c' = c" if "(t', c') \<in> set vs" for t' c'
  proof -
    have "c' \<noteq> -1" using assms(2) that by force
    moreover have "t' < rf_currentTerm rf \<or> t' = rf_currentTerm rf \<and> c' = rf_votedFor rf"
      using assms(1) that by (auto simp: covers_def volatile_def)
    ultimately show ?thesis using old by auto
  qed
  then show ?thesis by (auto simp: covers_def v)
qed

lemma covers_quiet:
  assumes "covers vs (volatile rf)" and "covers vs (stored (rf_persister rf))"
    and "quiet_step stored rf rf'"
  shows "covers vs (volatile rf') \<and> covers vs (stored (rf_persister rf'))"
proof -
  from assms(1,3) have "covers vs (volatile rf')"
    unfolding quiet_step_def
    by (elim conjE disjE) (auto intro: covers_newer simp: volatile_def)
  with assms(2,3) show ?thesis unfolding quiet_step_def by metis
qed

context stable_store
begin

lemma persist_stored:
  assumes "persist save rf = Some rf'"
  shows "\<exists>ps. rf' = rf\<lparr>rf_persister := ps\<rparr> \<and>
           (if rf_log rf = [] then ps = rf_persister rf else stored ps = volatile rf)"
  using persist_cases [OF assms] stored_save unfolding volatile_def by (cases "rf_log rf = []") metis+

lemma persist_quiet:
  assumes "persist save rf1 = Some rf'" and "rf_persister rf1 = rf_persister rf"
    and "rf_currentTerm rf < rf_currentTerm rf1 \<or> volatile rf1 = volatile rf"
  shows "quiet_step stored rf rf'"
proof -
  from persist_stored [OF assms(1)] obtain ps where rf': "rf' = rf1\<lparr>rf_persister := ps\<rparr>"
    and ps: "if rf_log rf1 = [] then ps = rf_persister rf1 else stored ps = volatile rf1"
    by blast
  show ?thesis
    using assms(2,3) ps by (auto simp: rf' quiet_step_def volatile_def split: if_splits)
qed

lemma quiet_update:
  assumes "quiet_step stored rf rf1"
    and "rf_currentTerm rf' = rf_currentTerm rf1" "rf_votedFor rf' = rf_votedFor rf1"
    and "rf_persister rf' = rf_persister rf1"
  shows "quiet_step stored rf rf'"
  using assms by (simp add: quiet_step_def volatile_def)

lemma quiet_persist_again:
  assumes "quiet_step stored rf rf1" and "persist save rf2 = Some rf'"
    and "rf_currentTerm rf2 = rf_currentTerm rf1" "rf_votedFor rf2 = rf_votedFor rf1"
    and "rf_persister rf2 = rf_persister rf1"
  shows "quiet_step stored rf rf'"
proof -
  from persist_stored [OF assms(2)] obtain ps where rf': "rf' = rf2\<lparr>rf_persister := ps\<rparr>"
    and ps: "if rf_log rf2 = [] then ps = rf_persister rf2 else stored ps = volatile rf2"
    by blast
  show ?thesis
    using assms(1,3-5) ps by (auto simp: rf' quiet_step_def volatile_def split: if_splits)
qed

lemma RequestVote_quiet:
  assumes "RequestVote save now rf args = Some (reply, rf')" and "\<not> rvr_VoteGranted reply"
  shows "quiet_step stored rf rf'"
  using assms
  by (auto simp: RequestVote_def bind_eq_Some_conv intro: quiet_same split: if_splits
      elim!: persist_quiet)

lemma RequestVote_grant:
  assumes "RequestVote save now rf args = Some (reply, rf')" and "rvr_VoteGranted reply"
  shows "grant_step stored (rvr_Term reply) (rva_CandidateId args) rf rf'"
proof -
  from assms obtain rf1 rf2 where
    le: "rf_currentTerm rf \<le> rva_Term args"
    and rf1: "(if rva_Term args > rf_currentTerm rf
          then persist save (rf\<lparr>rf_votedFor := -1, rf_currentTerm := rva_Term args,
                                rf_role := Follower\<rparr>) else Some rf) = Some rf1"
    and cand: "rf_votedFor rf1 = -1 \<or> rf_votedFor rf1 = rva_CandidateId args"
    and up: "upToDate rf1 args = Some True"
    and rf2: "persist save (rf1\<lparr>rf_currentTerm := rva_Term args,
                                rf_votedFor := rva_CandidateId args\<rparr>) = Some rf2"
    and rf': "rf' = rf2\<lparr>rf_role := Follower, rf_heartbeatTimeStamp := now\<rparr>"
    and reply: "reply = \<lparr>rvr_Term = rf_currentTerm rf2, rvr_VoteGranted = True\<rparr>"
    by (fastforce simp: RequestVote_def bind_eq_Some_conv split: if_splits)
  have "rf_log rf1 \<noteq> []"
    using up by (auto simp: upToDate_def bind_eq_Some_conv dest: term_at_nonempty)
  then obtain ps where ps: "rf2 = rf1\<lparr>rf_currentTerm := rva_Term args,
         rf_votedFor := rva_CandidateId args, rf_persister := ps\<rparr>"
    and st: "stored ps = \<lparr>st_VotedFor = rva_CandidateId args, st_CurrentTerm = rva_Term args\<rparr>"
    using persist_stored [OF rf2] by (auto simp: volatile_def)
  have "rf_currentTerm rf < rva_Term args \<or>
        rf_currentTerm rf = rva_Term args \<and> rf_votedFor rf \<in> {-1, rva_CandidateId args}"
    using le rf1 cand by (auto split: if_splits)
  then show ?thesis
    by (simp add: grant_step_def rf' ps reply volatile_def st)
qed

lemma appendEntries_enter_quiet:
  "appendEntries_enter save now rf args = Some rf1 \<Longrightarrow> quiet_step stored rf rf1"
  by (auto simp: appendEntries_enter_def Let_def bind_eq_Some_conv split: if_splits
      intro: quiet_same quiet_update [OF persist_quiet])

lemma appendEntries_accept_quiet:
  assumes "quiet_step stored rf rf1" and "appendEntries_accept save rf1 args = Some (reply, rf')"
  shows "quiet_step stored rf rf'"
proof -
  from assms(2) obtain lg rf2 where *: "persist save (rf1\<lparr>rf_log := lg\<rparr>) = Some rf2"
      "rf_currentTerm rf' = rf_currentTerm rf2" "rf_votedFor rf' = rf_votedFor rf2"
      "rf_persister rf' = rf_persister rf2"
    by (auto simp: appendEntries_accept_def bind_eq_Some_conv)
  show ?thesis
    by (rule quiet_update [OF quiet_persist_again [OF assms(1) *(1)] *(2-4)]) simp_all
qed

lemma AppendEntries_quiet:
  assumes "AppendEntries save now rf args = Some (reply, rf')"
  shows "quiet_step stored rf rf'"
  using assms
  by (auto simp: AppendEntries_def bind_eq_Some_conv quiet_same split: if_splits option.splits
      dest: appendEntries_enter_quiet appendEntries_accept_quiet)

lemma InstallSnapshot_begin_quiet:
  "InstallSnapshot_begin now rf args = Some (SnapDone reply rf') \<Longrightarrow> quiet_step stored rf rf'"
  "InstallSnapshot_begin now rf args = Some (SnapPending reply msg rf') \<Longrightarrow> quiet_step stored rf rf'"
  by (auto simp: InstallSnapshot_begin_def quiet_step_def volatile_def Let_def bind_eq_Some_conv
      split: if_splits)

lemma InstallSnapshot_end_quiet:
  "InstallSnapshot_end save now rf = Some rf' \<Longrightarrow> quiet_step stored rf rf'"
  by (auto simp: InstallSnapshot_end_def bind_eq_Some_conv intro: quiet_update [OF persist_quiet])

lemma Start_quiet:
  "Start save rf cmd = Some (res, rf') \<Longrightarrow> quiet_step stored rf rf'"
  by (auto simp: Start_def ResetHeartTimer_def bind_eq_Some_conv Let_def volatile_def
      intro: quiet_same quiet_update [OF persist_quiet] split: if_splits)

lemma Snapshot_quiet:
  "Snapshot save rf index data = Some rf' \<Longrightarrow> quiet_step stored rf rf'"
  by (auto simp: Snapshot_def bind_eq_Some_conv Let_def volatile_def
      intro: quiet_same elim!: persist_quiet split: if_splits)

lemma StartElection_grant:
  assumes "StartElection save now r rf = Some (args, rf')"
  shows "grant_step stored (rva_Term args) (rva_CandidateId args) rf rf'"
proof -
  from assms obtain rf1 t where
    rf1: "persist save (rf\<lparr>rf_currentTerm := rf_currentTerm rf + 1, rf_role := Candidate,
                           rf_votedFor := rf_me rf\<rparr>) = Some rf1"
    and t: "term_at (rf_log rf1) (lastLocal rf1) = Some t"
    and args: "rva_Term args = rf_currentTerm rf1" "rva_CandidateId args = rf_me rf1"
    and rf': "rf' = rf1\<lparr>rf_voteCount := 1, rf_electionTimeout := RandomElectionTimeout r,
                   rf_electionTimeStamp := now, rf_heartbeatTimeStamp := now\<rparr>"
    by (auto simp: StartElection_def bind_eq_Some_conv Let_def)
  have "rf_log rf \<noteq> []"
    using term_at_nonempty [OF t] persist_frame(3) [OF rf1] by simp
  with persist_stored [OF rf1] args rf' show ?thesis
    by (auto simp: grant_step_def volatile_def)
qed

lemma procVoteAnswer_quiet:
  "procVoteAnswer save rf args reply = Some (ok, rf') \<Longrightarrow> quiet_step stored rf rf'"
  by (auto simp: procVoteAnswer_def bind_eq_Some_conv
      intro: quiet_same quiet_update [OF persist_quiet] split: option.splits if_splits)

lemma collectVote_count_quiet:
  "collectVote_count now rf = Some (won, rf') \<Longrightarrow> quiet_step stored rf rf'"
  by (auto simp: collectVote_count_def ResetHeartTimer_def bind_eq_Some_conv Let_def
      intro: quiet_same split: if_splits)

lemma handleAppendReply_quiet:
  "handleAppendReply save now rf server args reply = Some (again, rf') \<Longrightarrow> quiet_step stored rf rf'"
  by (auto simp: handleAppendReply_def onAppendSuccess_def onAppendConflict_def setNext_def
      bind_eq_Some_conv Let_def intro: quiet_same quiet_update [OF persist_quiet] split: if_splits)

lemma handleSnapshotReply_quiet:
  "handleSnapshotReply save now rf server reply = Some rf' \<Longrightarrow> quiet_step stored rf rf'"
  by (auto simp: handleSnapshotReply_def setNext_def intro: quiet_same elim!: persist_quiet
      split: if_splits)

lemma SendCommitIndex_quiet:
  "SendCommitIndex rf reply = (idx, res, rf') \<Longrightarrow> quiet_step stored rf rf'"
  by (auto simp: SendCommitIndex_def Let_def quiet_step_def volatile_def
      split: option.splits if_splits)

lemma send_round_quiet:
  "StartSendAppendEntries rf = Some (tasks, rf') \<Longrightarrow> quiet_step stored rf rf'"
  "SingleHeartBeat_send rf = Some (beats, rf') \<Longrightarrow> quiet_step stored rf rf'"
  by (auto simp: StartSendAppendEntries_def SingleHeartBeat_send_def ResetHeartTimer_def
      bind_eq_Some_conv intro: quiet_same split: if_splits)

lemmas quiet_ops =
  AppendEntries_quiet InstallSnapshot_begin_quiet InstallSnapshot_end_quiet
  Start_quiet Snapshot_quiet procVoteAnswer_quiet collectVote_count_quiet
  handleAppendReply_quiet handleSnapshotReply_quiet SendCommitIndex_quiet send_round_quiet

lemma local_step_quiet:
  assumes "local_step save stored ids rf rf'"
  shows "quiet_step stored rf rf' \<or>
         volatile rf' = stored (rf_persister rf) \<and> stored (rf_persister rf') = stored (rf_persister rf)"
  using assms
proof cases
  case (restart ps logs ci snap now)
  then show ?thesis using startWork_frame [OF restart(2)] by (cases "stored (rf_persister rf)") simp
next
  case (disk ps)
  then show ?thesis by (simp add: quiet_step_def volatile_def)
next
  case (send msg)
  then show ?thesis by (simp add: applyCh_send_def quiet_same)
next
  case (applied msg cur)
  then show ?thesis by (simp add: CommitCheck_after_def quiet_same)
next
  case kill
  then show ?thesis by (simp add: Kill_def quiet_same)
qed (rule disjI1, erule quiet_ops)+

lemma silent_step:
  assumes "node_step save stored ids rf Silent rf'"
  shows "quiet_step stored rf rf' \<or>
         volatile rf' = stored (rf_persister rf) \<and> stored (rf_persister rf') = stored (rf_persister rf)"
  using assms
proof cases
  case local
  then show ?thesis by (rule local_step_quiet)
next
  case (vote now args reply)
  then have "\<not> rvr_VoteGranted reply" by (simp add: voteLabel_def split: if_splits)
  with vote show ?thesis by (intro disjI1 RequestVote_quiet)
qed (rule disjI1, erule quiet_ops)+

lemma granted_step:
  assumes "node_step save stored ids rf (Granted t c) rf'"
  shows "grant_step stored t c rf rf'"
  using assms
proof cases
  case (vote now args reply)
  then show ?thesis using RequestVote_grant by (auto simp: voteLabel_def split: if_splits)
next
  case (elect now r vargs)
  then show ?thesis using StartElection_grant by simp
qed

lemma run_covers:
  assumes "node_run save stored ids rf0 vs rf" and "-1 \<notin> snd ` set vs"
  shows "covers vs (volatile rf) \<and> covers vs (stored (rf_persister rf))"
  using assms
proof induction
  case init
  then show ?case by (simp add: covers_def)
next
  case (quiet vs rf rf')
  then have *: "covers vs (volatile rf)" "covers vs (stored (rf_persister rf))" by blast+
  from silent_step [OF quiet.hyps(2)] show ?case
  proof
    assume "quiet_step stored rf rf'"
    with * show ?thesis by (rule covers_quiet)
  next
    assume "volatile rf' = stored (rf_persister rf) \<and> stored (rf_persister rf') = stored (rf_persister rf)"
    with * show ?thesis by simp
  qed
next
  case (grant vs rf t c rf')
  from grant.prems have ne: "-1 \<notin> snd ` set vs" by simp
  with grant.IH have *: "covers vs (volatile rf)" by blast
  from granted_step [OF grant.hyps(2)] have g: "grant_step stored t c rf rf'" .
  from covers_grant [OF * ne g] g show ?case unfolding grant_step_def by simp
qed

lemma votes_unique:
  assumes "node_run save stored ids rf0 vs rf" and "-1 \<notin> snd ` set vs"
    and "(t, c) \<in> set vs" and "(t, c') \<in> set vs"
  shows "c = c'"
  using assms
proof induction
  case init
  then show ?case by simp
next
  case (quiet vs rf rf')
  then show ?case by blast
next
  case (grant vs rf u d rf')
  have "node_run save stored ids rf0 ((u, d) # vs) rf'"
    using grant.hyps by (rule node_run.grant)
  from run_covers [OF this grant.prems(1)]
  have cov: "covers ((u, d) # vs) (volatile rf')" by simp
  from granted_step [OF grant.hyps(2)] have v: "volatile rf' = \<lparr>st_VotedFor = d, st_CurrentTerm = u\<rparr>"
    by (simp add: grant_step_def)
  show ?case
  proof (cases "t = u")
    case True
    then have "c = d" "c' = d"
      using covers_agree [OF cov] grant.prems(2,3) by (auto simp: v)
    then show ?thesis by simp
  next
    case False
    with grant show ?thesis by auto
  qed
qed

end

end
