(* ===== verification/RaftLog.thy ===== *)
theory RaftLog
  imports RaftVote
begin

text \<open>
  What replication does to the log of a follower: the append loop is compared with a
  reference definition of the rule of the Raft paper (drop a conflicting suffix, append what is
  missing), and the handlers are shown not to panic on a log without nil entries.
\<close>

section \<open>Logs without nil entries\<close>

definition good_log :: "rlog \<Rightarrow> bool" where
  "good_log lg \<longleftrightarrow> lg \<noteq> [] \<and> None \<notin> set lg"

text \<open>A store whose \<open>save\<close> always returns.\<close>

definition save_returns :: "'ps save_fn \<Rightarrow> bool" where
  "save_returns save \<longleftrightarrow> (\<forall>snap st es li lt ci ps. save snap st es li lt ci ps \<noteq> None)"

lemma nth_not_nil: "None \<notin> set xs \<Longrightarrow> i < length xs \<Longrightarrow> \<exists>x. xs ! i = Some x"
  by (metis nth_mem not_None_eq)

lemma entry_at_good:
  assumes "None \<notin> set lg" and "0 \<le> i" and "i < int (length lg)"
  shows "\<exists>e. entry_at lg i = Some e \<and> lg ! nat i = Some e"
proof -
  have "nat i < length lg" using assms(2,3) by linarith
  then obtain e where "lg ! nat i = Some e" using nth_not_nil [OF assms(1)] by blast
  then show ?thesis using assms(2,3) by (simp add: entry_at_def at_def deref_def)
qed

lemma entry_at_Some:
  "entry_at lg i = Some e \<longleftrightarrow> 0 \<le> i \<and> i < int (length lg) \<and> lg ! nat i = Some e"
  by (auto simp: entry_at_def at_def deref_def bind_eq_Some_conv split: if_splits)

lemma term_at_Some:
  "term_at lg i = Some t \<longleftrightarrow> (\<exists>e. entry_at lg i = Some e \<and> e_Term e = t)"
  by (simp add: term_at_def bind_eq_Some_conv)

lemma term_at_good:
  assumes "None \<notin> set lg" and "0 \<le> i" and "i < int (length lg)"
  shows "\<exists>t. term_at lg i = Some t"
  using entry_at_good [OF assms] by (auto simp: term_at_def)

lemma those_good: "None \<notin> set xs \<Longrightarrow> \<exists>ys. those xs = Some ys"
proof (induction xs)
  case (Cons a xs)
  then show ?case by (cases a) auto
qed simp

lemma persist_returns:
  assumes "save_returns save" and "None \<notin> set (rf_log rf)"
  shows "\<exists>rf'. persist save rf = Some rf'"
proof (cases "rf_log rf = []")
  case False
  have "None \<notin> set (map persist_entry (tl (rf_log rf)))"
  proof
    assume "None \<in> set (map persist_entry (tl (rf_log rf)))"
    then obtain p where "p \<in> set (tl (rf_log rf))" "persist_entry p = None" by auto
    moreover have "p \<noteq> None" using calculation(1) assms(2) False by (metis list.set_sel(2))
    ultimately show False by (auto simp: persist_entry_def deref_def)
  qed
  then obtain logs where "those (map persist_entry (tl (rf_log rf))) = Some logs"
    using those_good by blast
  moreover obtain ps where "save (rf_snapShot rf)
      \<lparr>st_VotedFor = rf_votedFor rf, st_CurrentTerm = rf_currentTerm rf\<rparr> logs
      (rf_lastIncludedIndex rf) (rf_lastIncludedTerm rf) (rf_commitIndex rf)
      (rf_persister rf) = Some ps"
    using assms(1) unfolding save_returns_def by (metis not_None_eq)
  ultimately show ?thesis using False by (simp add: persist_def)
qed (simp add: persist_def)

section \<open>The reference for appending\<close>

text \<open>How many leading positions of two logs carry the same terms.\<close>

fun commonTerms :: "rlog \<Rightarrow> rlog \<Rightarrow> nat" where
  "commonTerms (Some x # xs) (Some y # ys) =
     (if e_Term x = e_Term y then Suc (commonTerms xs ys) else 0)"
| "commonTerms xs ys = 0"

text \<open>
  The log after entries \<open>es\<close> are received for the positions from \<open>k\<close> on: unchanged if
  they are all there, otherwise cut at the first position that is missing or conflicts and
  continued with the received entries.
\<close>

definition mergeLog :: "rlog \<Rightarrow> nat \<Rightarrow> rlog \<Rightarrow> rlog" where
  "mergeLog lg k es =
     (let j = commonTerms (drop k lg) es
      in if j = length es then lg else take (k + j) lg @ drop j es)"

lemma commonTerms_le: "commonTerms xs ys \<le> length xs" "commonTerms xs ys \<le> length ys"
  by (induction xs ys rule: commonTerms.induct) auto

lemma commonTerms_nth:
  "i < commonTerms xs ys \<Longrightarrow>
     \<exists>x y. xs ! i = Some x \<and> ys ! i = Some y \<and> e_Term x = e_Term y"
proof (induction xs ys arbitrary: i rule: commonTerms.induct)
  case (1 x xs y ys)
  then show ?case by (cases i) (auto split: if_splits)
qed auto

lemma appendLoop_merge:
  assumes "None \<notin> set lg" and "None \<notin> set es" and "k \<le> length lg"
  shows "appendLoop lg (int k) es = Some (mergeLog lg k es)"
  using assms(2,3)
proof (induction es arbitrary: k)
  case Nil
  then show ?case by (simp add: mergeLog_def)
next
  case (Cons p ps)
  then obtain e where p: "p = Some e" by (cases p) auto
  show ?case
  proof (cases "k < length lg")
    case True
    then obtain x where x: "lg ! k = Some x" using nth_not_nil [OF assms(1)] by blast
    have dr: "drop k lg = Some x # drop (Suc k) lg"
      using True x by (simp add: Cons_nth_drop_Suc [symmetric])
    have t: "term_at lg (int k) = Some (e_Term x)"
      using True x by (auto simp: term_at_def entry_at_def deref_def)
    show ?thesis
    proof (cases "e_Term x = e_Term e")
      case True
      have "appendLoop lg (int (Suc k)) ps = Some (mergeLog lg (Suc k) ps)"
        using Cons \<open>k < length lg\<close> by (intro Cons.IH) auto
      then have "appendLoop lg (1 + int k) ps = Some (mergeLog lg (Suc k) ps)" by simp
      then show ?thesis
        using True \<open>k < length lg\<close>
        by (simp add: t p deref_def go_len_def mergeLog_def dr Let_def add.commute)
    next
      case False
      then show ?thesis
        using \<open>k < length lg\<close>
        by (simp add: t p deref_def go_len_def mergeLog_def dr slice_to_def)
    qed
  next
    case False
    with Cons.prems have k: "k = length lg" by simp
    have "last (p # ps) \<in> set (p # ps)" by (rule last_in_set) simp
    then obtain l where "last (p # ps) = Some l"
      using Cons.prems(1) by (metis not_None_eq)
    then show ?thesis
      by (simp add: k p deref_def go_len_def mergeLog_def)
  qed
qed

section \<open>Properties of the reference\<close>

lemma mergeLog_keeps_prefix:
  assumes "k \<le> length lg" "i < k + commonTerms (drop k lg) es"
  shows "i < length (mergeLog lg k es) \<and> mergeLog lg k es ! i = lg ! i"
proof -
  have "k + commonTerms (drop k lg) es \<le> length lg"
    using commonTerms_le(1) [of "drop k lg" es] assms(1) by simp
  then show ?thesis using assms(2)
    by (auto simp: mergeLog_def Let_def nth_append)
qed

lemma mergeLog_has_entries:
  assumes "k \<le> length lg" "None \<notin> set es" "i < length es"
  shows "k + i < length (mergeLog lg k es) \<and>
         (\<exists>x y. mergeLog lg k es ! (k + i) = Some x \<and> es ! i = Some y \<and> e_Term x = e_Term y)"
proof -
  let ?j = "commonTerms (drop k lg) es"
  have j: "k + ?j \<le> length lg" "?j \<le> length es"
    using commonTerms_le [of "drop k lg" es] assms(1) by auto
  show ?thesis
  proof (cases "i < ?j")
    case True
    then show ?thesis
      using mergeLog_keeps_prefix [OF assms(1), of "k + i" es] commonTerms_nth [OF True] j(1)
      by (auto simp: nth_drop)
  next
    case False
    then have ne: "?j \<noteq> length es" using assms(3) by linarith
    from nth_not_nil [OF assms(2,3)] obtain y where "es ! i = Some y" by blast
    with False ne j assms(3) show ?thesis
      by (simp add: mergeLog_def Let_def nth_append)
  qed
qed

lemma mergeLog_good:
  assumes "good_log lg" and "None \<notin> set es"
  shows "good_log (mergeLog lg k es)"
proof (cases "commonTerms (drop k lg) es = length es")
  case True
  then show ?thesis using assms by (simp add: mergeLog_def)
next
  case False
  then have "commonTerms (drop k lg) es < length es"
    using commonTerms_le(2) [of "drop k lg" es] by linarith
  with False assms show ?thesis
    by (auto simp: good_log_def mergeLog_def Let_def dest: in_set_takeD in_set_dropD)
qed

text \<open>Without a conflict nothing of the old log is lost.\<close>

lemma mergeLog_no_conflict:
  assumes "k \<le> length lg"
    and "commonTerms (drop k lg) es = length es \<or> commonTerms (drop k lg) es = length lg - k"
  shows "take (length lg) (mergeLog lg k es) = lg"
  using assms by (auto simp: mergeLog_def Let_def)

section \<open>The consistency check\<close>

lemma xindex_loop_spec:
  assumes "rf_lastIncludedIndex rf \<le> i" and "i < LocalToGlobal rf (go_len (rf_log rf))"
    and "None \<notin> set (rf_log rf)"
  shows "\<exists>j. xindex_loop rf xterm i = Some j \<and> rf_lastIncludedIndex rf \<le> j \<and> j \<le> i \<and>
           (\<forall>k. j < k \<and> k \<le> i \<longrightarrow> term_at (rf_log rf) (GlobalToLocal rf k) = Some xterm) \<and>
           (j = rf_lastIncludedIndex rf \<or> term_at (rf_log rf) (GlobalToLocal rf j) \<noteq> Some xterm)"
  using assms
proof (induction rf xterm i rule: xindex_loop.induct)
  case (1 rf xterm i)
  show ?case
  proof (cases "i > rf_lastIncludedIndex rf")
    case False
    with "1.prems"(1) have "i = rf_lastIncludedIndex rf" by simp
    then have "xindex_loop rf xterm i = Some i" by (subst xindex_loop.simps) simp
    with \<open>i = rf_lastIncludedIndex rf\<close> show ?thesis by auto
  next
    case gt: True
    then obtain t where t: "term_at (rf_log rf) (GlobalToLocal rf i) = Some t"
      using term_at_good [OF "1.prems"(3), of "GlobalToLocal rf i"] "1.prems"(2)
      by (auto simp: GlobalToLocal_def LocalToGlobal_def go_len_def)
    show ?thesis
    proof (cases "t = xterm")
      case True
      obtain j where j: "xindex_loop rf xterm (i - 1) = Some j" "rf_lastIncludedIndex rf \<le> j"
          "j \<le> i - 1"
        and run: "\<forall>k. j < k \<and> k \<le> i - 1 \<longrightarrow>
            term_at (rf_log rf) (GlobalToLocal rf k) = Some xterm"
        and stop: "j = rf_lastIncludedIndex rf \<or>
            term_at (rf_log rf) (GlobalToLocal rf j) \<noteq> Some xterm"
        using "1.IH" [OF gt t True] gt "1.prems" by auto
      have "term_at (rf_log rf) (GlobalToLocal rf k) = Some xterm" if "j < k" "k \<le> i" for k
        using that run t True by (cases "k = i") auto
      then show ?thesis
        using gt t True j stop by (auto simp: xindex_loop.simps [of rf xterm i])
    next
      case False
      with gt t show ?thesis by (auto simp: xindex_loop.simps [of rf xterm i])
    qed
  qed
qed

text \<open>The test does not panic on a good log, and passes only if \<open>prev\<close> is in the log.\<close>

lemma checkPrev_returns:
  assumes "None \<notin> set (rf_log rf)"
  shows "\<exists>c. checkPrev rf args reply = Some c"
proof (cases "aea_PrevLogIndex args < LocalToGlobal rf (go_len (rf_log rf)) \<and>
              rf_lastIncludedIndex rf \<le> aea_PrevLogIndex args")
  case True
  then obtain t where t: "term_at (rf_log rf) (GlobalToLocal rf (aea_PrevLogIndex args)) = Some t"
    using term_at_good [OF assms, of "GlobalToLocal rf (aea_PrevLogIndex args)"]
    by (auto simp: GlobalToLocal_def LocalToGlobal_def go_len_def)
  obtain j where "xindex_loop rf t (aea_PrevLogIndex args) = Some j"
    using xindex_loop_spec [of rf "aea_PrevLogIndex args" t] True assms by blast
  with t show ?thesis by (simp add: checkPrev_def)
next
  case False
  then show ?thesis by (auto simp: checkPrev_def)
qed

lemma checkPrev_pass:
  assumes "checkPrev rf args reply = Some None"
  shows "rf_lastIncludedIndex rf \<le> aea_PrevLogIndex args"
    and "aea_PrevLogIndex args < LocalToGlobal rf (go_len (rf_log rf))"
    and "rf_commitIndex rf = aea_PrevLogIndex args \<or>
         term_at (rf_log rf) (GlobalToLocal rf (aea_PrevLogIndex args)) = Some (aea_PrevLogTerm args)"
  using assms by (auto simp: checkPrev_def bind_eq_Some_conv split: if_splits)

section \<open>The AppendEntries handler\<close>

lemma appendEntries_enter_frame:
  assumes "appendEntries_enter save now rf args = Some rf1"
  shows "rf_log rf1 = rf_log rf" "rf_lastIncludedIndex rf1 = rf_lastIncludedIndex rf"
    "rf_commitIndex rf1 = rf_commitIndex rf"
    "rf_role rf1 = (if aea_Term args > rf_currentTerm rf then Follower else rf_role rf)"
    "rf_currentTerm rf1 = (if aea_Term args > rf_currentTerm rf then aea_Term args
                           else rf_currentTerm rf)"
  using assms
  by (auto simp: appendEntries_enter_def Let_def bind_eq_Some_conv split: if_splits
      dest!: persist_cases)

lemma AppendEntries_success_cases:
  assumes "AppendEntries save now rf args = Some (reply, rf')" and "aer_Success reply"
  obtains rf1 where
    "appendEntries_enter save now rf args = Some rf1"
    "checkPrev rf1 args (empty_reply\<lparr>aer_Term := rf_currentTerm rf1\<rparr>) = Some None"
    "appendEntries_accept save rf1 args = Some (reply, rf')"
proof -
  have "\<not> aea_Term args < rf_currentTerm rf"
    using assms by (auto simp: AppendEntries_def empty_reply_def bind_eq_Some_conv)
  with assms(1) obtain rf1 c where 1: "appendEntries_enter save now rf args = Some rf1"
    and 2: "checkPrev rf1 args (empty_reply\<lparr>aer_Term := rf_currentTerm rf1\<rparr>) = Some c"
    and 3: "(case c of Some r \<Rightarrow> Some (r\<lparr>aer_Term := rf_currentTerm rf1, aer_Success := False\<rparr>, rf1)
         | None \<Rightarrow> appendEntries_accept save rf1 args) = Some (reply, rf')"
    unfolding AppendEntries_def by (auto simp only: bind_eq_Some_conv if_False)
  show ?thesis
  proof (cases c)
    case None
    with 1 2 3 that show ?thesis by simp
  next
    case (Some r)
    with 3 assms(2) show ?thesis by auto
  qed
qed

lemma appendEntries_accept_log:
  assumes acc: "appendEntries_accept save rf args = Some (reply, rf')"
    and pass: "rf_lastIncludedIndex rf \<le> aea_PrevLogIndex args"
      "aea_PrevLogIndex args < LocalToGlobal rf (go_len (rf_log rf))"
    and good: "good_log (rf_log rf)" "None \<notin> set (aea_Entries args)"
    and role: "rf_role rf \<noteq> Leader"
  shows "rf_log rf' = mergeLog (rf_log rf)
           (nat (aea_PrevLogIndex args - rf_lastIncludedIndex rf + 1)) (aea_Entries args)"
    and "rf_lastIncludedIndex rf' = rf_lastIncludedIndex rf"
proof -
  let ?k = "nat (aea_PrevLogIndex args - rf_lastIncludedIndex rf + 1)"
  have k: "GlobalToLocal rf (aea_PrevLogIndex args) + 1 = int ?k" "?k \<le> length (rf_log rf)"
    using pass by (auto simp: GlobalToLocal_def LocalToGlobal_def go_len_def)
  have "appendLoop (rf_log rf) (int ?k) (aea_Entries args) =
      Some (mergeLog (rf_log rf) ?k (aea_Entries args))"
    using good k(2) by (intro appendLoop_merge) (auto simp: good_log_def)
  then obtain rf2 where
    "persist save (rf\<lparr>rf_log := mergeLog (rf_log rf) ?k (aea_Entries args)\<rparr>) = Some rf2"
    and "rf_log rf' = rf_log rf2" "rf_lastIncludedIndex rf' = rf_lastIncludedIndex rf2"
    using acc role by (auto simp: appendEntries_accept_def k(1) bind_eq_Some_conv)
  then show "rf_log rf' = mergeLog (rf_log rf) ?k (aea_Entries args)"
    and "rf_lastIncludedIndex rf' = rf_lastIncludedIndex rf"
    by (auto dest!: persist_cases)
qed

text \<open>The log after a request that was accepted; \<open>k\<close> is the position after the previous entry.\<close>

lemma AppendEntries_merges:
  assumes "AppendEntries save now rf args = Some (reply, rf')" and "aer_Success reply"
    and "good_log (rf_log rf)" and "None \<notin> set (aea_Entries args)"
    and "rf_role rf \<noteq> Leader \<or> rf_currentTerm rf < aea_Term args"
  defines "k \<equiv> nat (aea_PrevLogIndex args - rf_lastIncludedIndex rf + 1)"
  shows "rf_log rf' = mergeLog (rf_log rf) k (aea_Entries args)" and "rf_lastIncludedIndex rf' = rf_lastIncludedIndex rf"
    and "k \<le> length (rf_log rf)" and "aea_PrevLogIndex args - rf_lastIncludedIndex rf + 1 = int k"
proof -
  from assms(1,2) obtain rf1 where
    1: "appendEntries_enter save now rf args = Some rf1"
    and 2: "checkPrev rf1 args (empty_reply\<lparr>aer_Term := rf_currentTerm rf1\<rparr>) = Some None"
    and 3: "appendEntries_accept save rf1 args = Some (reply, rf')"
    by (rule AppendEntries_success_cases)
  note fr = appendEntries_enter_frame [OF 1]
  have role: "rf_role rf1 \<noteq> Leader" using assms(5) fr(4) by auto
  show "rf_log rf' = mergeLog (rf_log rf) k (aea_Entries args)" "rf_lastIncludedIndex rf' = rf_lastIncludedIndex rf"
    using appendEntries_accept_log [OF 3 checkPrev_pass(1,2) [OF 2] _ assms(4) role] assms(3) fr
    by (simp_all add: k_def)
  show "k \<le> length (rf_log rf)" "aea_PrevLogIndex args - rf_lastIncludedIndex rf + 1 = int k"
    using checkPrev_pass(1,2) [OF 2] fr by (auto simp: LocalToGlobal_def go_len_def k_def)
qed

text \<open>
  C5: a follower that accepts an AppendEntries request ends up with exactly the log that the
  Raft rule prescribes: it keeps its entries up to the first conflict and continues with the
  entries received (\<^const>\<open>mergeLog\<close>).
\<close>

theorem AppendEntries_follows_reference:
  assumes "AppendEntries save now rf args = Some (reply, rf')" and "aer_Success reply"
    and "good_log (rf_log rf)" and "None \<notin> set (aea_Entries args)"
    and "rf_role rf \<noteq> Leader \<or> rf_currentTerm rf < aea_Term args"
  shows "rf_log rf' = mergeLog (rf_log rf)
           (nat (aea_PrevLogIndex args - rf_lastIncludedIndex rf + 1)) (aea_Entries args)"
  by (rule AppendEntries_merges(1) [OF assms])

theorem AppendEntries_follows_reference_witness:
  "\<exists>reply rf'. AppendEntries keep_state 5 (sample_peer Follower 1 [0, 1, 1, 2]) (sample_append 3 1 1 1 [1, 3]) =
       Some (reply, rf') \<and> aer_Success reply \<and>
     rf_log rf' = mergeLog (map entry [0, 1, 1, 2]) 2 (map entry [1, 3])"
proof -
  let ?rf = "sample_peer Follower 1 [0, 1, 1, 2]" and ?a = "sample_append 3 1 1 1 [1, 3]"
  have "case AppendEntries keep_state 5 ?rf ?a of None \<Rightarrow> False | Some (reply, rf') \<Rightarrow> aer_Success reply"
    by code_simp
  then obtain reply rf' where run: "AppendEntries keep_state 5 ?rf ?a = Some (reply, rf')" "aer_Success reply"
    by (rule returns_pair)
  have "good_log (rf_log ?rf)" "None \<notin> set (aea_Entries ?a)"
    "rf_role ?rf \<noteq> Leader \<or> rf_currentTerm ?rf < aea_Term ?a"
    by (simp_all add: good_log_def sample_peer_def sample_append_def Make_def entry_def)
  from AppendEntries_follows_reference [OF run this] run show ?thesis
    by (auto simp: sample_peer_def sample_append_def Make_def)
qed

text \<open>
  C6: after a follower has accepted an AppendEntries request, every entry of the request is in
  its log at the position the request gives it, with the same term, and the entries up to
  \<open>PrevLogIndex\<close> are untouched.
\<close>

theorem AppendEntries_log_matching:
  assumes "AppendEntries save now rf args = Some (reply, rf')" and "aer_Success reply"
    and "good_log (rf_log rf)" and "None \<notin> set (aea_Entries args)"
    and "rf_role rf \<noteq> Leader \<or> rf_currentTerm rf < aea_Term args"
  shows "(\<forall>i < length (aea_Entries args).
           term_at (rf_log rf') (GlobalToLocal rf' (aea_PrevLogIndex args + 1 + int i)) =
           term_at (aea_Entries args) (int i)) \<and>
         (\<forall>g \<le> aea_PrevLogIndex args.
           at (rf_log rf') (GlobalToLocal rf' g) = at (rf_log rf) (GlobalToLocal rf g))"
proof -
  let ?k = "nat (aea_PrevLogIndex args - rf_lastIncludedIndex rf + 1)"
  note lg = AppendEntries_merges(1) [OF assms] and li = AppendEntries_merges(2) [OF assms] and k = AppendEntries_merges(3,4) [OF assms]
  have "\<forall>i < length (aea_Entries args).
      term_at (rf_log rf') (GlobalToLocal rf' (aea_PrevLogIndex args + 1 + int i)) =
      term_at (aea_Entries args) (int i)"
  proof (intro allI impI)
    fix i
    assume i: "i < length (aea_Entries args)"
    have g: "GlobalToLocal rf' (aea_PrevLogIndex args + 1 + int i) = int (?k + i)"
      using k(2) by (simp add: GlobalToLocal_def li)
    from mergeLog_has_entries [OF k(1) assms(4) i] i
    show "term_at (rf_log rf') (GlobalToLocal rf' (aea_PrevLogIndex args + 1 + int i)) =
        term_at (aea_Entries args) (int i)"
      unfolding g by (auto simp: lg term_at_def entry_at_def deref_def simp del: of_nat_add)
  qed
  moreover have "\<forall>g \<le> aea_PrevLogIndex args.
      at (rf_log rf') (GlobalToLocal rf' g) = at (rf_log rf) (GlobalToLocal rf g)"
  proof (intro allI impI)
    fix g
    assume g: "g \<le> aea_PrevLogIndex args"
    show "at (rf_log rf') (GlobalToLocal rf' g) = at (rf_log rf) (GlobalToLocal rf g)"
    proof (cases "g < rf_lastIncludedIndex rf")
      case True
      then show ?thesis by (simp add: GlobalToLocal_def li)
    next
      case False
      define i where "i = nat (g - rf_lastIncludedIndex rf)"
      have i: "i < ?k" "g - rf_lastIncludedIndex rf = int i" using g False k by (auto simp: i_def)
      then show ?thesis
        using mergeLog_keeps_prefix [OF k(1), of i "aea_Entries args"] k(1)
        by (simp add: GlobalToLocal_def li lg)
    qed
  qed
  ultimately show ?thesis by blast
qed

theorem AppendEntries_log_matching_witness:
  "\<exists>reply rf'. AppendEntries keep_state 5 (sample_peer Follower 1 [0, 1, 1, 2]) (sample_append 3 1 1 1 [1, 3]) =
       Some (reply, rf') \<and>
     (\<forall>i < length (map entry [1, 3]). term_at (rf_log rf') (GlobalToLocal rf' (1 + 1 + int i)) =
        term_at (map entry [1, 3]) (int i))"
proof -
  let ?rf = "sample_peer Follower 1 [0, 1, 1, 2]" and ?a = "sample_append 3 1 1 1 [1, 3]"
  have "case AppendEntries keep_state 5 ?rf ?a of None \<Rightarrow> False | Some (reply, rf') \<Rightarrow> aer_Success reply"
    by code_simp
  then obtain reply rf' where run: "AppendEntries keep_state 5 ?rf ?a = Some (reply, rf')" "aer_Success reply"
    by (rule returns_pair)
  have "good_log (rf_log ?rf)" "None \<notin> set (aea_Entries ?a)"
    "rf_role ?rf \<noteq> Leader \<or> rf_currentTerm ?rf < aea_Term ?a"
    by (simp_all add: good_log_def sample_peer_def sample_append_def Make_def entry_def)
  from AppendEntries_log_matching [OF run this] run(1) show ?thesis
    by (intro exI [of _ reply] exI [of _ rf'] conjI) (auto simp: sample_append_def)
qed

section \<open>Handlers that do not panic\<close>

lemma appendEntries_accept_returns:
  assumes "save_returns save" and "good_log (rf_log rf)" and "None \<notin> set (aea_Entries args)"
    and "rf_lastIncludedIndex rf \<le> aea_PrevLogIndex args"
    and "aea_PrevLogIndex args < LocalToGlobal rf (go_len (rf_log rf))"
  shows "\<exists>reply rf'. appendEntries_accept save rf args = Some (reply, rf') \<and> good_log (rf_log rf')"
proof -
  let ?k = "nat (aea_PrevLogIndex args - rf_lastIncludedIndex rf + 1)"
  let ?lg = "if rf_role rf \<noteq> Leader then mergeLog (rf_log rf) ?k (aea_Entries args) else rf_log rf"
  have k: "GlobalToLocal rf (aea_PrevLogIndex args) + 1 = int ?k" "?k \<le> length (rf_log rf)"
    using assms(4,5) by (auto simp: GlobalToLocal_def LocalToGlobal_def go_len_def)
  have "appendLoop (rf_log rf) (int ?k) (aea_Entries args) =
      Some (mergeLog (rf_log rf) ?k (aea_Entries args))"
    using assms(2,3) k(2) by (intro appendLoop_merge) (auto simp: good_log_def)
  then have lg: "(if rf_role rf \<noteq> Leader
      then appendLoop (rf_log rf) (GlobalToLocal rf (aea_PrevLogIndex args) + 1) (aea_Entries args)
      else Some (rf_log rf)) = Some ?lg" by (simp add: k(1))
  have good: "good_log ?lg" using mergeLog_good [OF assms(2,3)] assms(2) by simp
  then obtain rf2 where rf2: "persist save (rf\<lparr>rf_log := ?lg\<rparr>) = Some rf2"
    using persist_returns [OF assms(1), of "rf\<lparr>rf_log := ?lg\<rparr>"] by (auto simp: good_log_def)
  with good lg persist_frame(3) [OF rf2] show ?thesis
    by (simp add: appendEntries_accept_def)
qed



end
