(* ===== verification/RaftCommit.thy ===== *)
theory RaftCommit
  imports RaftLog
begin

text \<open>
  Commitment: when the leader advances its commit index, when a follower does, and how
  committed entries reach the service; snapshots of the log.
\<close>

section \<open>The leader's commit index\<close>

text \<open>The peers known to hold entry \<open>n\<close>, if it is an entry of the current term.\<close>

definition ackers :: "'ps Raftserver \<Rightarrow> int \<Rightarrow> int list" where
  "ackers rf n = filter (\<lambda>i. matchOf rf i \<ge> n \<and>
     term_at (rf_log rf) (GlobalToLocal rf n) = Some (rf_currentTerm rf)) (rf_peers rf)"

definition acked :: "'ps Raftserver \<Rightarrow> int \<Rightarrow> bool" where
  "acked rf n \<longleftrightarrow> 1 + go_len (ackers rf n) > go_len (rf_peers rf) div 2"

lemma countAcks_spec:
  assumes "term_at (rf_log rf) (GlobalToLocal rf n) = Some t"
  shows "countAcks rf n is = Some (go_len (filter (\<lambda>i. matchOf rf i \<ge> n \<and>
     term_at (rf_log rf) (GlobalToLocal rf n) = Some (rf_currentTerm rf)) is))"
  using assms by (induction "is") (auto simp: go_len_def)

lemma commitLoop_spec:
  assumes "None \<notin> set (rf_log rf)" and "rf_lastIncludedIndex rf \<le> rf_commitIndex rf"
    and "rf_commitIndex rf \<le> n" and "n \<le> LocalToGlobal rf (lastLocal rf)"
  shows "\<exists>m. commitLoop rf n = Some m \<and> rf_commitIndex rf \<le> m \<and> m \<le> n \<and>
           (m = rf_commitIndex rf \<or> acked rf m) \<and> (\<forall>k. m < k \<and> k \<le> n \<longrightarrow> \<not> acked rf k)"
  using assms
proof (induction rf n rule: commitLoop.induct)
  case (1 rf n)
  show ?case
  proof (cases "n > rf_commitIndex rf")
    case False
    with "1.prems"(3) have n: "n = rf_commitIndex rf" by simp
    then have "commitLoop rf n = Some n" by (subst commitLoop.simps) simp
    with n show ?thesis by auto
  next
    case gt: True
    then obtain t where t: "term_at (rf_log rf) (GlobalToLocal rf n) = Some t"
      using term_at_good [OF "1.prems"(1), of "GlobalToLocal rf n"] "1.prems"(2,4)
      by (auto simp: GlobalToLocal_def LocalToGlobal_def go_len_def)
    have c: "countAcks rf n (rf_peers rf) = Some (go_len (ackers rf n))"
      unfolding ackers_def by (rule countAcks_spec [OF t])
    show ?thesis
    proof (cases "acked rf n")
      case True
      then have "commitLoop rf n = Some n"
        using gt c t by (subst commitLoop.simps) (simp add: acked_def)
      with True gt show ?thesis by auto
    next
      case False
      then have step: "commitLoop rf n = commitLoop rf (n - 1)"
        using gt c t by (subst commitLoop.simps) (simp add: acked_def)
      obtain m where m: "commitLoop rf (n - 1) = Some m" "rf_commitIndex rf \<le> m" "m \<le> n - 1"
          "m = rf_commitIndex rf \<or> acked rf m"
        and none: "\<forall>k. m < k \<and> k \<le> n - 1 \<longrightarrow> \<not> acked rf k"
        using "1.IH" [OF gt c] False gt "1.prems" by (auto simp: acked_def)
      have "\<not> acked rf k" if "m < k" "k \<le> n" for k
        using that none False by (cases "k = n") auto
      with step m show ?thesis by auto
    qed
  qed
qed

lemma acked_current_term:
  assumes "acked rf n" and "2 \<le> length (rf_peers rf)"
  shows "term_at (rf_log rf) (GlobalToLocal rf n) = Some (rf_currentTerm rf)"
proof -
  have "ackers rf n \<noteq> []" using assms by (auto simp: acked_def go_len_def)
  then show ?thesis by (auto simp: ackers_def filter_empty_conv)
qed


definition sample_leader :: "State Raftserver" where
  "sample_leader = (sample_peer Leader 2 [0, 1, 2, 2])
     \<lparr>rf_nextIndex := [(1, 2), (2, 2)], rf_matchIndex := [(1, 1), (2, 0)]\<rparr>"


section \<open>The follower's commit index\<close>

lemma those_None: "None \<in> set xs \<Longrightarrow> those xs = None"
  by (induction xs) (auto split: option.splits)

text \<open>
  C36: a follower that learns of a larger leader commit index takes the maximum, not the minimum,
  of it and its own last index. So it counts its whole log as committed, and if its log is
  shorter than the leader's commit index, the round that hands entries to the service panics.
\<close>

theorem follower_commit_overshoots:
  assumes "AppendEntries save now rf args = Some (reply, rf')" and "aer_Success reply"
    and "rf_commitIndex rf < aea_LeaderCommit args"
  shows "rf_commitIndex rf' = max (aea_LeaderCommit args) (LocalToGlobal rf' (lastLocal rf')) \<and>
         (rf_lastApplied rf' < aea_LeaderCommit args \<and>
          LocalToGlobal rf' (lastLocal rf') < aea_LeaderCommit args \<longrightarrow> CommitCheck_round rf' = None)"
proof -
  from assms(1,2) obtain rf1 where
    1: "appendEntries_enter save now rf args = Some rf1"
    and 3: "appendEntries_accept save rf1 args = Some (reply, rf')"
    by (rule AppendEntries_success_cases)
  from 3 obtain lg rf2 where rf2: "persist save (rf1\<lparr>rf_log := lg\<rparr>) = Some rf2"
    and rf': "rf_commitIndex rf' = (if aea_LeaderCommit args > rf_commitIndex rf2
        then max (aea_LeaderCommit args) (LocalToGlobal rf2 (lastLocal rf2)) else rf_commitIndex rf2)"
      "rf_log rf' = rf_log rf2" "rf_lastIncludedIndex rf' = rf_lastIncludedIndex rf2"
    by (auto simp: appendEntries_accept_def bind_eq_Some_conv)
  have "rf_commitIndex rf2 = rf_commitIndex rf"
    using persist_frame(5) [OF rf2] appendEntries_enter_frame(3) [OF 1] by simp
  with rf' assms(3)
  have ci: "rf_commitIndex rf' = max (aea_LeaderCommit args) (LocalToGlobal rf' (lastLocal rf'))"
    by (simp add: LocalToGlobal_def)
  moreover have "CommitCheck_round rf' = None"
    if "rf_lastApplied rf' < aea_LeaderCommit args"
      "LocalToGlobal rf' (lastLocal rf') < aea_LeaderCommit args"
  proof -
    have "applyMsgAt rf' (rf_commitIndex rf') = None"
      using that(2) by (auto simp: ci applyMsgAt_def entry_at_def at_def GlobalToLocal_def
          LocalToGlobal_def go_len_def)
    moreover have "rf_commitIndex rf' \<in> set [rf_lastApplied rf' + 1 .. rf_commitIndex rf']"
      using that by (simp add: ci)
    ultimately have "None \<in> set (map (applyMsgAt rf') [rf_lastApplied rf' + 1 .. rf_commitIndex rf'])"
      by force
    then show ?thesis by (simp add: CommitCheck_round_def CommitCheck_collect_def those_None)
  qed
  ultimately show ?thesis by blast
qed

theorem follower_commit_overshoots_witness:
  "\<exists>reply rf'. AppendEntries keep_state 5 (sample_peer Follower 1 [0, 1]) (sample_append 3 1 1 4 []) =
       Some (reply, rf') \<and> rf_commitIndex rf' = 4 \<and> CommitCheck_round rf' = None"
proof -
  let ?rf = "sample_peer Follower 1 [0, 1]" and ?a = "sample_append 3 1 1 4 []"
  have "case AppendEntries keep_state 5 ?rf ?a of None \<Rightarrow> False | Some (reply, rf') \<Rightarrow>
      aer_Success reply \<and> LocalToGlobal rf' (lastLocal rf') = 1 \<and> rf_lastApplied rf' = 0"
    by code_simp
  then obtain reply rf' where run: "AppendEntries keep_state 5 ?rf ?a = Some (reply, rf')"
    and r: "aer_Success reply \<and> LocalToGlobal rf' (lastLocal rf') = 1 \<and> rf_lastApplied rf' = 0"
    by (rule returns_pair)
  have "rf_commitIndex ?rf < aea_LeaderCommit ?a" by code_simp
  from follower_commit_overshoots [OF run conjunct1 [OF r] this] r run show ?thesis
    by (auto simp: sample_append_def)
qed

section \<open>Delivery to the service\<close>

lemma applyMsgAt_index: "applyMsgAt rf i = Some m \<Longrightarrow> am_CommandIndex m = i"
  by (auto simp: applyMsgAt_def bind_eq_Some_conv)

lemma applyMsgAt_frame:
  "rf_log rf' = rf_log rf \<Longrightarrow> rf_lastIncludedIndex rf' = rf_lastIncludedIndex rf \<Longrightarrow>
   applyMsgAt rf' = applyMsgAt rf"
  by (rule ext) (simp add: applyMsgAt_def GlobalToLocal_def)

lemma those_map_index:
  "those (map (applyMsgAt rf) is) = Some ms \<Longrightarrow> map am_CommandIndex ms = is"
proof (induction "is" arbitrary: ms)
  case (Cons i "is")
  then show ?case by (auto dest: applyMsgAt_index split: option.splits)
qed simp

lemma deliver_in_order:
  "map am_CommandIndex ms = [rf_lastApplied rf + 1 .. n] \<Longrightarrow> rf_lastApplied rf \<le> n \<Longrightarrow>
   CommitCheck_deliver ms rf = rf\<lparr>rf_applyCh := rf_applyCh rf @ ms, rf_lastApplied := n\<rparr>"
proof (induction ms arbitrary: rf)
  case Nil
  then have "n = rf_lastApplied rf" by auto
  then show ?case by simp
next
  case (Cons m ms)
  let ?rf1 = "CommitCheck_after (applyCh_send m rf) m (rf_lastApplied rf)"
  have le: "rf_lastApplied rf + 1 \<le> n" using Cons.prems(1) by (cases "rf_lastApplied rf + 1 \<le> n") auto
  then have m: "am_CommandIndex m = rf_lastApplied rf + 1"
    and ms: "map am_CommandIndex ms = [rf_lastApplied rf + 2 .. n]"
    using Cons.prems(1) upto_rec1 [OF le] by (auto simp: add.assoc)
  have rf1: "?rf1 = rf\<lparr>rf_applyCh := rf_applyCh rf @ [m], rf_lastApplied := rf_lastApplied rf + 1\<rparr>"
    by (simp add: CommitCheck_after_def applyCh_send_def m)
  have "CommitCheck_deliver ms ?rf1 = ?rf1\<lparr>rf_applyCh := rf_applyCh ?rf1 @ ms, rf_lastApplied := n\<rparr>"
    by (rule Cons.IH) (use ms le in \<open>simp_all add: rf1 add.assoc\<close>)
  then show ?case by (simp add: CommitCheck_before_def m rf1)
qed

lemma CommitCheck_round_eq:
  assumes "rf_lastApplied rf \<le> rf_commitIndex rf"
  shows "CommitCheck_round rf = do {
     ms \<leftarrow> those (map (applyMsgAt rf) [rf_lastApplied rf + 1 .. rf_commitIndex rf]);
     Some (rf\<lparr>rf_applyCh := rf_applyCh rf @ ms, rf_lastApplied := rf_commitIndex rf\<rparr>) }"
proof (cases "CommitCheck_collect rf")
  case (Some ms)
  then show ?thesis
    using deliver_in_order [of ms rf "rf_commitIndex rf"] assms those_map_index [of rf]
    by (simp add: CommitCheck_round_def CommitCheck_collect_def)
qed (simp add: CommitCheck_round_def CommitCheck_collect_def)

text \<open>
  C8: a round of \<^verbatim>\<open>CommitCheck\<close> that is not interrupted hands the service the committed
  entries it has not seen yet, each exactly once, in log order and without a gap, and records
  that it did.
\<close>

theorem CommitCheck_round_in_order:
  assumes "good_log (rf_log rf)" and "rf_lastIncludedIndex rf \<le> rf_lastApplied rf"
    and "rf_lastApplied rf \<le> rf_commitIndex rf"
    and "rf_commitIndex rf \<le> LocalToGlobal rf (lastLocal rf)"
  shows "\<exists>ms. CommitCheck_round rf =
             Some (rf\<lparr>rf_applyCh := rf_applyCh rf @ ms, rf_lastApplied := rf_commitIndex rf\<rparr>) \<and>
           map am_CommandIndex ms = [rf_lastApplied rf + 1 .. rf_commitIndex rf] \<and>
           map am_Command ms = map (\<lambda>i. Option.bind (entry_at (rf_log rf) (GlobalToLocal rf i)) e_Command)
                                 [rf_lastApplied rf + 1 .. rf_commitIndex rf]"
proof -
  let ?is = "[rf_lastApplied rf + 1 .. rf_commitIndex rf]"
  have ex: "\<exists>e. entry_at (rf_log rf) (GlobalToLocal rf i) = Some e" if "i \<in> set ?is" for i
    using entry_at_good [of "rf_log rf" "GlobalToLocal rf i"] that assms
    by (auto simp: good_log_def GlobalToLocal_def LocalToGlobal_def go_len_def)
  have "None \<notin> set (map (applyMsgAt rf) ?is)"
    using ex by (force simp: applyMsgAt_def)
  then obtain ms where ms: "those (map (applyMsgAt rf) ?is) = Some ms"
    using those_good by blast
  have cmd: "map am_Command ms' = map (\<lambda>i. Option.bind (entry_at (rf_log rf) (GlobalToLocal rf i)) e_Command) is"
    if "those (map (applyMsgAt rf) is) = Some ms'" for "is" ms'
    using that
    by (induction "is" arbitrary: ms')
       (auto simp: applyMsgAt_def bind_eq_Some_conv split: option.splits)
  from ms CommitCheck_round_eq [OF assms(3)] those_map_index [OF ms] cmd [OF ms]
  show ?thesis by (intro exI [of _ ms]) simp
qed

theorem CommitCheck_round_in_order_witness:
  "\<exists>ms. CommitCheck_round ((sample_peer Follower 1 [0, 1, 1])\<lparr>rf_commitIndex := 2\<rparr>) =
       Some ((sample_peer Follower 1 [0, 1, 1])\<lparr>rf_commitIndex := 2, rf_applyCh := ms, rf_lastApplied := 2\<rparr>) \<and>
     map am_CommandIndex ms = [1, 2]"
proof -
  let ?rf = "(sample_peer Follower 1 [0, 1, 1])\<lparr>rf_commitIndex := 2\<rparr>"
  have "good_log (rf_log ?rf)" "rf_lastIncludedIndex ?rf \<le> rf_lastApplied ?rf"
    "rf_lastApplied ?rf \<le> rf_commitIndex ?rf" "rf_commitIndex ?rf \<le> LocalToGlobal ?rf (lastLocal ?rf)"
    by (simp_all add: good_log_def entry_def sample_peer_def Make_def LocalToGlobal_def go_len_def)
  from CommitCheck_round_in_order [OF this] obtain ms where
    "CommitCheck_round ?rf = Some (?rf\<lparr>rf_applyCh := rf_applyCh ?rf @ ms, rf_lastApplied := rf_commitIndex ?rf\<rparr>)"
    "map am_CommandIndex ms = [rf_lastApplied ?rf + 1 .. rf_commitIndex ?rf]" by blast
  moreover have "[0 + 1 .. 2] = [1, 2 :: int]" by code_simp
  ultimately show ?thesis by (auto simp: sample_peer_def Make_def)
qed

lemma QuickApply_eq:
  "rf_lastApplied rf \<le> rf_commitIndex rf \<Longrightarrow> QuickApply rf = do {
     ms \<leftarrow> those (map (applyMsgAt rf) [rf_lastApplied rf + 1 .. rf_commitIndex rf]);
     Some (rf\<lparr>rf_applyCh := rf_applyCh rf @ ms, rf_lastApplied := rf_commitIndex rf\<rparr>) }"
proof (induction rf rule: QuickApply.induct)
  case (1 rf)
  show ?case
  proof (cases "rf_lastApplied rf < rf_commitIndex rf")
    case False
    with "1.prems" have "rf_lastApplied rf = rf_commitIndex rf" by simp
    then show ?thesis by (subst QuickApply.simps) simp
  next
    case True
    then have up: "[rf_lastApplied rf + 1 .. rf_commitIndex rf] =
        (rf_lastApplied rf + 1) # [rf_lastApplied rf + 2 .. rf_commitIndex rf]"
      by (subst upto_rec1) (simp_all add: add.assoc)
    show ?thesis
    proof (cases "applyMsgAt rf (rf_lastApplied rf + 1)")
      case None
      with True show ?thesis by (subst QuickApply.simps) (simp add: up)
    next
      case (Some m)
      let ?rf1 = "applyCh_send m (rf\<lparr>rf_lastApplied := rf_lastApplied rf + 1\<rparr>)"
      have "applyMsgAt ?rf1 = applyMsgAt rf"
        by (rule applyMsgAt_frame) (simp_all add: applyCh_send_def)
      moreover have "rf_lastApplied ?rf1 = rf_lastApplied rf + 1" "rf_commitIndex ?rf1 = rf_commitIndex rf"
        "rf_applyCh ?rf1 = rf_applyCh rf @ [m]" by (simp_all add: applyCh_send_def)
      ultimately have "QuickApply ?rf1 = do {
          ms \<leftarrow> those (map (applyMsgAt rf) [rf_lastApplied rf + 2 .. rf_commitIndex rf]);
          Some (?rf1\<lparr>rf_applyCh := rf_applyCh rf @ m # ms, rf_lastApplied := rf_commitIndex rf\<rparr>) }"
        using "1.IH" [OF True Some] True by (simp add: add.assoc)
      with True Some show ?thesis
        by (subst QuickApply.simps)
           (simp add: up applyCh_send_def split: option.splits,
            cases "those (map (applyMsgAt rf) [rf_lastApplied rf + 2 .. rf_commitIndex rf])", simp_all)
    qed
  qed
qed

text \<open>
  The start-up routine \<^const>\<open>QuickApply\<close> has the same effect as a round of
  \<^verbatim>\<open>CommitCheck\<close>, including when it panics.
\<close>

theorem QuickApply_is_CommitCheck:
  assumes "rf_lastApplied rf \<le> rf_commitIndex rf"
  shows "QuickApply rf = CommitCheck_round rf"
  by (simp add: QuickApply_eq [OF assms] CommitCheck_round_eq [OF assms])

theorem QuickApply_is_CommitCheck_witness:
  "QuickApply ((sample_peer Follower 1 [0, 1, 1])\<lparr>rf_commitIndex := 2\<rparr>) =
   CommitCheck_round ((sample_peer Follower 1 [0, 1, 1])\<lparr>rf_commitIndex := 2\<rparr>)"
  by (rule QuickApply_is_CommitCheck) (simp add: sample_peer_def Make_def)

section \<open>Snapshots\<close>

text \<open>
  C31: a snapshot taken by the service at a committed index trims the log without changing any
  entry from that index on, or the last index; its other effect is on the bookkeeping of what
  was applied.
\<close>

theorem Snapshot_keeps_suffix:
  assumes "Snapshot save rf index data = Some rf'"
    and "rf_lastIncludedIndex rf < index" and "index \<le> rf_commitIndex rf"
  shows "rf_lastIncludedIndex rf' = index \<and>
         rf_lastIncludedTerm rf' = the (term_at (rf_log rf) (GlobalToLocal rf index)) \<and>
         (\<forall>g \<ge> index. at (rf_log rf') (GlobalToLocal rf' g) = at (rf_log rf) (GlobalToLocal rf g)) \<and>
         LocalToGlobal rf' (lastLocal rf') = LocalToGlobal rf (lastLocal rf) \<and>
         rf_commitIndex rf' = rf_commitIndex rf \<and> rf_lastApplied rf' = max (rf_lastApplied rf) index"
proof -
  from assms obtain t lg where t: "term_at (rf_log rf) (GlobalToLocal rf index) = Some t"
    and lg: "slice_from (rf_log rf) (GlobalToLocal rf index) = Some lg"
    and p: "persist save (rf\<lparr>rf_snapShot := data, rf_lastIncludedTerm := t, rf_log := lg,
              rf_lastIncludedIndex := index,
              rf_lastApplied := (if rf_lastApplied rf < index then index else rf_lastApplied rf)\<rparr>)
            = Some rf'"
    by (auto simp: Snapshot_def bind_eq_Some_conv Let_def)
  from persist_cases [OF p] obtain ps where rf': "rf' = rf\<lparr>rf_snapShot := data,
      rf_lastIncludedTerm := t, rf_log := lg, rf_lastIncludedIndex := index,
      rf_lastApplied := (if rf_lastApplied rf < index then index else rf_lastApplied rf),
      rf_persister := ps\<rparr>" by blast
  have k: "0 \<le> index - rf_lastIncludedIndex rf"
      "index - rf_lastIncludedIndex rf \<le> int (length (rf_log rf))"
      "lg = drop (nat (index - rf_lastIncludedIndex rf)) (rf_log rf)"
    using lg by (auto simp: slice_from_def GlobalToLocal_def split: if_splits)
  have "at lg (g - index) = at (rf_log rf) (g - rf_lastIncludedIndex rf)" if "index \<le> g" for g
    using that k(1) by (simp add: k(3) at_drop)
  with k t show ?thesis
    by (auto simp: rf' GlobalToLocal_def LocalToGlobal_def go_len_def)
qed

theorem Snapshot_keeps_suffix_witness:
  "\<exists>rf'. Snapshot keep_state ((sample_peer Leader 2 [0, 1, 2, 2])\<lparr>rf_commitIndex := 3\<rparr>) 2 [7] = Some rf' \<and>
     rf_lastIncludedIndex rf' = 2 \<and> rf_lastIncludedTerm rf' = 2 \<and> LocalToGlobal rf' (lastLocal rf') = 3"
proof -
  let ?rf = "(sample_peer Leader 2 [0, 1, 2, 2])\<lparr>rf_commitIndex := 3\<rparr>"
  have "case Snapshot keep_state ?rf 2 [7] of None \<Rightarrow> False | Some rf' \<Rightarrow> True" by code_simp
  then obtain rf' where run: "Snapshot keep_state ?rf 2 [7] = Some rf'" by (rule returns_value)
  have "rf_lastIncludedIndex ?rf < 2" "2 \<le> rf_commitIndex ?rf" by code_simp+
  moreover have "term_at (rf_log ?rf) (GlobalToLocal ?rf 2) = Some 2" "LocalToGlobal ?rf (lastLocal ?rf) = 3"
    by code_simp+
  ultimately show ?thesis using Snapshot_keeps_suffix [OF run] run by auto
qed

lemma findIncluded_none:
  assumes "\<And>i. i < length lg \<Longrightarrow> LocalToGlobal rf (rIdx + int i) \<noteq> isa_LastIncludedIndex args"
  shows "findIncluded rf args lg rIdx = Some None"
  using assms
proof (induction lg arbitrary: rIdx)
  case (Cons p lg)
  have "findIncluded rf args lg (rIdx + 1) = Some None"
    by (rule Cons.IH) (use Cons.prems [of "Suc _"] in \<open>simp add: add.assoc\<close>)
  with Cons.prems [of 0] show ?case by simp
qed simp

text \<open>
  A follower whose log ends before the snapshot of the leader.
\<close>

lemma InstallSnapshot_fresh:
  assumes "rf_currentTerm rf \<le> isa_Term args"
    and "rf_lastIncludedIndex rf \<le> isa_LastIncludedIndex args"
    and "rf_commitIndex rf \<le> isa_LastIncludedIndex args"
    and "LocalToGlobal rf (lastLocal rf) < isa_LastIncludedIndex args"
    and "InstallSnapshot save now rf args = Some (reply, rf')"
  shows "rf_log rf' = [None, Some \<lparr>e_Term = isa_LastIncludedTerm args,
                                   e_Command = isa_LastIncludedCommand args\<rparr>]"
    and "rf_lastIncludedIndex rf' = isa_LastIncludedIndex args"
    and "rf_commitIndex rf' = isa_LastIncludedIndex args"
    and "rf_role rf' = Follower" and "rf_currentTerm rf' = isa_Term args"
proof -
  let ?rf1 = "if isa_Term args > rf_currentTerm rf
              then rf\<lparr>rf_currentTerm := isa_Term args, rf_votedFor := -1\<rparr> else rf"
  let ?rf2 = "?rf1\<lparr>rf_role := Follower\<rparr>"
  have fr: "rf_log ?rf2 = rf_log rf" "rf_lastIncludedIndex ?rf2 = rf_lastIncludedIndex rf"
    "rf_commitIndex ?rf2 = rf_commitIndex rf" by auto
  have fi: "findIncluded ?rf2 args (rf_log ?rf2) 0 = Some None"
    by (rule findIncluded_none) (use assms(4) in \<open>auto simp: LocalToGlobal_def go_len_def split: if_splits\<close>)
  from assms(1-3,5) fi fr obtain msg rf3 where
    e: "InstallSnapshot_end save now (applyCh_send msg rf3) = Some rf'"
    and rf3: "rf_log rf3 = [None, Some \<lparr>e_Term = isa_LastIncludedTerm args,
                                   e_Command = isa_LastIncludedCommand args\<rparr>]"
      "rf_lastIncludedIndex rf3 = isa_LastIncludedIndex args"
      "rf_commitIndex rf3 = isa_LastIncludedIndex args"
      "rf_role rf3 = Follower" "rf_currentTerm rf3 = isa_Term args"
    by (auto simp: InstallSnapshot_def InstallSnapshot_begin_def Let_def bind_eq_Some_conv
        split: if_splits)
  from e rf3 show "rf_log rf' = [None, Some \<lparr>e_Term = isa_LastIncludedTerm args,
                                   e_Command = isa_LastIncludedCommand args\<rparr>]"
    and "rf_lastIncludedIndex rf' = isa_LastIncludedIndex args"
    and "rf_commitIndex rf' = isa_LastIncludedIndex args"
    and "rf_role rf' = Follower" and "rf_currentTerm rf' = isa_Term args"
    by (auto simp: InstallSnapshot_end_def applyCh_send_def bind_eq_Some_conv dest!: persist_cases)
qed

text \<open>
  C37: a follower that installs a snapshot beyond its log keeps, one position too far, the last
  command of the snapshot. When the leader then sends the entry that follows the snapshot, of
  the same term, the follower acknowledges it but still holds the old command at its index, so
  the two logs differ in an entry with the same index and term.
\<close>

theorem snapshot_shifts_log:
  assumes "rf_currentTerm rf \<le> isa_Term args"
    and "rf_lastIncludedIndex rf \<le> isa_LastIncludedIndex args"
    and "rf_commitIndex rf \<le> isa_LastIncludedIndex args"
    and "LocalToGlobal rf (lastLocal rf) < isa_LastIncludedIndex args"
    and "InstallSnapshot save now rf args = Some (reply, rf1)"
    and "aea_Term aargs = isa_Term args" and "aea_PrevLogIndex aargs = isa_LastIncludedIndex args"
    and "aea_Entries aargs = [Some e]" and "e_Term e = isa_LastIncludedTerm args"
    and "AppendEntries save now rf1 aargs = Some (areply, rf2)"
  shows "aer_Success areply \<and>
         entry_at (rf_log rf2) (GlobalToLocal rf2 (isa_LastIncludedIndex args + 1)) =
           Some \<lparr>e_Term = isa_LastIncludedTerm args, e_Command = isa_LastIncludedCommand args\<rparr>"
proof -
  note fresh = InstallSnapshot_fresh [OF assms(1-5)]
  let ?x = "\<lparr>e_Term = isa_LastIncludedTerm args, e_Command = isa_LastIncludedCommand args\<rparr>"
  have enter: "appendEntries_enter save now rf1 aargs = Some (rf1\<lparr>rf_heartbeatTimeStamp := now\<rparr>)"
    using assms(6) fresh(5) by (simp add: appendEntries_enter_def Let_def)
  have check: "checkPrev (rf1\<lparr>rf_heartbeatTimeStamp := now\<rparr>) aargs r = Some None" for r
    using assms(7) fresh by (simp add: checkPrev_def LocalToGlobal_def go_len_def)
  have loop: "appendLoop [None, Some ?x] 1 [Some e] = Some [None, Some ?x]"
    using assms(9) by (simp add: go_len_def term_at_def entry_at_def at_def deref_def)
  from assms(6,10) fresh(5) enter check
  have "appendEntries_accept save (rf1\<lparr>rf_heartbeatTimeStamp := now\<rparr>) aargs = Some (areply, rf2)"
    by (simp add: AppendEntries_def)
  then obtain rf3 where "persist save (rf1\<lparr>rf_heartbeatTimeStamp := now,
        rf_log := [None, Some ?x]\<rparr>) = Some rf3" "aer_Success areply"
      "rf_log rf2 = rf_log rf3" "rf_lastIncludedIndex rf2 = rf_lastIncludedIndex rf3"
    using assms(7,8) fresh loop
    by (auto simp: appendEntries_accept_def GlobalToLocal_def bind_eq_Some_conv)
  then have "aer_Success areply" "rf_log rf2 = [None, Some ?x]"
      "rf_lastIncludedIndex rf2 = isa_LastIncludedIndex args"
    using fresh(2) by (auto dest!: persist_cases)
  then show ?thesis by (simp add: GlobalToLocal_def entry_at_def at_def deref_def)
qed

theorem snapshot_shifts_log_witness:
  "\<exists>reply rf1 areply rf2. InstallSnapshot keep_state 4 (sample_peer Follower 1 [0, 1])
       \<lparr>isa_Term = 3, isa_LeaderId = 1, isa_LastIncludedIndex = 5, isa_LastIncludedTerm = 2,
        isa_LastIncludedCommand = None, isa_Data = [7]\<rparr> = Some (reply, rf1) \<and>
     AppendEntries keep_state 4 rf1 (sample_append 3 5 2 5 [2]) = Some (areply, rf2) \<and>
     entry_at (rf_log rf2) (GlobalToLocal rf2 6) = Some \<lparr>e_Term = 2, e_Command = None\<rparr>"
proof -
  let ?rf = "sample_peer Follower 1 [0, 1]" and ?a = "sample_append 3 5 2 5 [2]"
  let ?s = "\<lparr>isa_Term = 3, isa_LeaderId = 1, isa_LastIncludedIndex = 5, isa_LastIncludedTerm = 2,
        isa_LastIncludedCommand = None, isa_Data = [7]\<rparr>"
  have "case InstallSnapshot keep_state 4 ?rf ?s of None \<Rightarrow> False | Some (reply, rf1) \<Rightarrow>
      AppendEntries keep_state 4 rf1 ?a \<noteq> None" by code_simp
  then obtain reply rf1 where i: "InstallSnapshot keep_state 4 ?rf ?s = Some (reply, rf1)"
    and "AppendEntries keep_state 4 rf1 ?a \<noteq> None" by (rule returns_pair)
  then obtain areply rf2 where a: "AppendEntries keep_state 4 rf1 ?a = Some (areply, rf2)" by auto
  have "entry_at (rf_log rf2) (GlobalToLocal rf2 (isa_LastIncludedIndex ?s + 1)) =
      Some \<lparr>e_Term = isa_LastIncludedTerm ?s, e_Command = isa_LastIncludedCommand ?s\<rparr>"
    by (rule conjunct2 [OF snapshot_shifts_log
          [where e = "the (entry 2)", OF _ _ _ _ i _ _ _ _ a]])
       (simp_all add: sample_peer_def sample_append_def Make_def LocalToGlobal_def go_len_def entry_def)
  with i a show ?thesis by auto
qed

end
