(* ===== verification/RaftElection.thy ===== *)
theory RaftElection
  imports RaftCommit
begin

text \<open>
  Elections in a cluster: the initialisation of a new leader, the size of a majority as the
  code computes it, and the safety of elections (at most one leader in a term).
\<close>

section \<open>The loop that initialises a new leader\<close>

abbreviation gm_keys :: "('k, 'v) gomap \<Rightarrow> 'k set" where
  "gm_keys m \<equiv> fst ` set m"

lemma gm_put_keys: "gm_keys (gm_put k v m) = insert k (gm_keys m)"
proof -
  have "set (map fst (AList.update k v m)) = insert k (set (map fst m))"
    by (auto simp: update_keys)
  then show ?thesis by (simp add: gm_put_def)
qed

lemma gm_put_distinct: "distinct (map fst m) \<Longrightarrow> distinct (map fst (gm_put k v m))"
  by (simp add: gm_put_def distinct_update)

lemma gm_len_card: "distinct (map fst m) \<Longrightarrow> gm_len m = int (card (gm_keys m))"
  using distinct_card [of "map fst m"] by (simp add: gm_len_def)

lemma resetLoop_spec:
  assumes "distinct (map fst next)" and "\<forall>k \<in> gm_keys next. 0 \<le> k \<and> k < b"
    and "{0..<i} \<subseteq> gm_keys next" and "0 \<le> i"
    and "\<forall>k. 0 \<le> k \<and> k < i \<longrightarrow> gm_get 0 next k = nxt \<and> gm_get 0 match k = mtc"
  shows "\<exists>next' match'. resetLoop nxt mtc i next match = Some (next', match') \<and>
           gm_keys next \<subseteq> gm_keys next' \<and>
           (\<forall>k \<in> gm_keys next'. gm_get 0 next' k = nxt \<and> gm_get 0 match' k = mtc)"
  using assms
proof (induction "nat (b - i)" arbitrary: i "next" match rule: less_induct)
  case less
  have fin: "finite (gm_keys next)" by simp
  have card_i: "card {0..<i} = nat i" by simp
  show ?case
  proof (cases "i < gm_len next")
    case True
    have ib: "i < b"
    proof (rule ccontr)
      assume "\<not> i < b"
      then have "gm_keys next \<subseteq> {0..<i}" using less.prems(2) by fastforce
      then have "card (gm_keys next) \<le> nat i" using card_mono [of "{0..<i}"] card_i by fastforce
      with True less.prems(1,4) show False by (simp add: gm_len_card)
    qed
    let ?n = "gm_put i nxt next" and ?m = "gm_put i mtc match"
    have "\<exists>next' match'. resetLoop nxt mtc (i + 1) ?n ?m = Some (next', match') \<and>
        gm_keys ?n \<subseteq> gm_keys next' \<and>
        (\<forall>k \<in> gm_keys next'. gm_get 0 next' k = nxt \<and> gm_get 0 match' k = mtc)"
    proof (rule less.hyps)
      show "nat (b - (i + 1)) < nat (b - i)" using ib less.prems(4) by simp
      show "distinct (map fst ?n)" using less.prems(1) by (rule gm_put_distinct)
      show "\<forall>k \<in> gm_keys ?n. 0 \<le> k \<and> k < b"
        using less.prems(2,4) ib by (simp add: gm_put_keys)
      show "{0..<i + 1} \<subseteq> gm_keys ?n"
        using less.prems(3) unfolding gm_put_keys by force
      show "0 \<le> i + 1" using less.prems(4) by simp
      show "\<forall>k. 0 \<le> k \<and> k < i + 1 \<longrightarrow> gm_get 0 ?n k = nxt \<and> gm_get 0 ?m k = mtc"
        using less.prems(5) by (auto simp: gm_get_put)
    qed
    with True show ?thesis
      by (subst resetLoop.simps) (auto simp: gm_put_keys)
  next
    case False
    then have "card (gm_keys next) \<le> card {0..<i}"
      using less.prems(1,4) by (simp add: gm_len_card)
    then have "gm_keys next = {0..<i}"
      using card_seteq [OF fin less.prems(3)] by simp
    with less.prems(5) have "\<forall>k \<in> gm_keys next. gm_get 0 next k = nxt \<and> gm_get 0 match k = mtc"
      by auto
    with False show ?thesis by (subst resetLoop.simps) simp
  qed
qed

text \<open>
  When a candidate wins, the loop over \<open>nextIndex\<close> ends and every peer the map has an
  entry for is reset: its next index to the end of the leader's log and its match index to the
  end of the snapshot. The keys of the map are node ids, hence not negative.
\<close>

theorem new_leader_resets_peers:
  assumes "collectVote_count now rf = Some (True, rf')"
    and "distinct (map fst (rf_nextIndex rf))" and "\<forall>k \<in> gm_keys (rf_nextIndex rf). 0 \<le> k"
  shows "rf_role rf' = Leader \<and> rf_leaderIdx rf' = rf_me rf \<and>
         (\<forall>k \<in> gm_keys (rf_nextIndex rf).
            nextOf rf' k = LocalToGlobal rf (go_len (rf_log rf)) \<and>
            matchOf rf' k = rf_lastIncludedIndex rf)"
proof -
  let ?nxt = "LocalToGlobal rf (go_len (rf_log rf))" and ?mtc = "rf_lastIncludedIndex rf"
  from assms(1) obtain nx mt where
    run: "resetLoop ?nxt ?mtc 0 (rf_nextIndex rf) (rf_matchIndex rf) = Some (nx, mt)"
    and rf': "rf_role rf' = Leader" "rf_leaderIdx rf' = rf_me rf"
      "rf_nextIndex rf' = nx" "rf_matchIndex rf' = mt"
    by (auto simp: collectVote_count_def Let_def bind_eq_Some_conv ResetHeartTimer_def
        LocalToGlobal_def split: if_splits)
  have "\<forall>k \<in> gm_keys (rf_nextIndex rf). k < Max (insert 0 (gm_keys (rf_nextIndex rf))) + 1"
    by (simp add: le_imp_less_Suc zless_add1_eq le_less [symmetric])
  with assms(3) resetLoop_spec [OF assms(2), of "Max (insert 0 (gm_keys (rf_nextIndex rf))) + 1"
      0 ?nxt "rf_matchIndex rf" ?mtc] run
  have "gm_keys (rf_nextIndex rf) \<subseteq> gm_keys nx \<and>
        (\<forall>k \<in> gm_keys nx. gm_get 0 nx k = ?nxt \<and> gm_get 0 mt k = ?mtc)"
    by auto
  with rf' show ?thesis by blast
qed

text \<open>A candidate that has one vote and waits for another.\<close>

definition sample_candidate :: "(int, int) gomap \<Rightarrow> State Raftserver" where
  "sample_candidate next = (sample_peer Candidate 2 [0, 1, 1])
     \<lparr>rf_voteCount := 1, rf_electionTimeout := 500, rf_nextIndex := next\<rparr>"

theorem new_leader_resets_peers_witness:
  "\<exists>rf'. collectVote_count 20 (sample_candidate [(1, 7), (2, 9)]) = Some (True, rf') \<and>
     rf_role rf' = Leader \<and> nextOf rf' 1 = 3 \<and> nextOf rf' 2 = 3"
proof -
  let ?rf = "sample_candidate [(1, 7), (2, 9)]"
  have "resetLoop 3 0 0 [(1, 7), (2, 9)] [] \<noteq> None"
    using resetLoop_spec [of "[(1, 7), (2, 9)]" 10 0 3 "[]" 0] by auto
  then obtain p where p: "resetLoop 3 0 0 [(1, 7), (2, 9)] [] = Some p" by auto
  have "\<exists>rf'. collectVote_count 20 ?rf = Some (True, rf')"
    by (cases p) (simp add: collectVote_count_def Let_def sample_candidate_def sample_peer_def Make_def
        LocalToGlobal_def go_len_def entry_at_def at_def entry_def deref_def p)
  then obtain rf' where run: "collectVote_count 20 ?rf = Some (True, rf')" by blast
  have "distinct (map fst (rf_nextIndex ?rf))" "\<forall>k \<in> gm_keys (rf_nextIndex ?rf). 0 \<le> k"
    by (simp_all add: sample_candidate_def)
  from new_leader_resets_peers [OF run this] run show ?thesis
    by (auto simp: sample_candidate_def sample_peer_def Make_def LocalToGlobal_def go_len_def)
qed

text \<open>
  C38: the map starts empty, so a peer that wins its first election has reset nothing: every
  next index reads 0. A read request that reaches it before the first round of replication
  makes \<^verbatim>\<open>SingleHeartBeat\<close> index the log with a negative number, which panics.
\<close>

theorem first_leader_heartbeat_panics:
  assumes "collectVote_count now rf = Some (True, rf')" and "rf_nextIndex rf = []"
    and "rf_peers rf \<noteq> []" and "0 \<le> rf_lastIncludedIndex rf"
  shows "rf_role rf' = Leader \<and> SingleHeartBeat_send rf' = None"
proof -
  from assms(1,2) have rf': "rf_role rf' = Leader" "rf_nextIndex rf' = []"
      "rf_peers rf' = rf_peers rf" "rf_lastIncludedIndex rf' = rf_lastIncludedIndex rf"
    by (auto simp: collectVote_count_def Let_def bind_eq_Some_conv ResetHeartTimer_def
        resetLoop.simps gm_len_def split: if_splits)
  have "heartbeatArgs rf' i = None" for i
    using rf' assms(4) by (simp add: heartbeatArgs_def term_at_def entry_at_def gm_get_def GlobalToLocal_def)
  then have "those (map (\<lambda>i. do { a \<leftarrow> heartbeatArgs rf' i; Some (i, a) }) (rf_peers rf')) = None"
    using rf' assms(3) by (cases "rf_peers rf") auto
  with rf' show ?thesis by (simp add: SingleHeartBeat_send_def)
qed

theorem first_leader_heartbeat_panics_witness:
  "\<exists>rf'. collectVote_count 20 (sample_candidate []) = Some (True, rf') \<and> SingleHeartBeat_send rf' = None"
proof -
  have "case collectVote_count 20 (sample_candidate []) of None \<Rightarrow> False | Some (won, rf') \<Rightarrow> won"
    by (simp add: collectVote_count_def Let_def sample_candidate_def sample_peer_def Make_def
        LocalToGlobal_def go_len_def entry_at_def at_def entry_def deref_def resetLoop.simps gm_len_def)
  then obtain won rf' where "collectVote_count 20 (sample_candidate []) = Some (won, rf')" won
    by (rule returns_pair)
  then have run: "collectVote_count 20 (sample_candidate []) = Some (True, rf')" by simp
  have "rf_nextIndex (sample_candidate []) = []" "rf_peers (sample_candidate []) \<noteq> []"
    "0 \<le> rf_lastIncludedIndex (sample_candidate [])" by code_simp+
  from first_leader_heartbeat_panics [OF run this] run show ?thesis by auto
qed

section \<open>Majorities\<close>

text \<open>
  What \<^verbatim>\<open>collectVote\<close> takes for a majority: more than half of the number of the other
  peers, the candidate's own vote included.
\<close>

definition wins :: "int list \<Rightarrow> int set \<Rightarrow> bool" where
  "wins ids Q \<longleftrightarrow> Q \<subseteq> set ids \<and> int (card Q) > int (length ids - 1) div 2"

definition majorities_meet :: "int list \<Rightarrow> bool" where
  "majorities_meet ids \<longleftrightarrow> (\<forall>Q Q'. wins ids Q \<longrightarrow> wins ids Q' \<longrightarrow> Q \<inter> Q' \<noteq> {})"

lemma wins_intersect:
  assumes "odd (length ids)" and "wins ids Q" and "wins ids Q'"
  shows "\<exists>k \<in> set ids. k \<in> Q \<and> k \<in> Q'"
proof (rule ccontr)
  assume no: "\<not> ?thesis"
  from assms have sub: "Q \<subseteq> set ids" "Q' \<subseteq> set ids" by (simp_all add: wins_def)
  then have fin: "finite Q" "finite Q'" using finite_subset by blast+
  from no sub have "Q \<inter> Q' = {}" by blast
  then have "card Q + card Q' = card (Q \<union> Q')" using fin by (simp add: card_Un_disjoint)
  also have "\<dots> \<le> card (set ids)" using sub by (intro card_mono) auto
  also have "\<dots> \<le> length ids" by (rule card_length)
  finally have le: "card Q + card Q' \<le> length ids" .
  from assms(1) obtain k where k: "length ids = 2 * k + 1" by (rule oddE)
  with assms(2,3) have "k < card Q" "k < card Q'" by (simp_all add: wins_def)
  with le k show False by simp
qed

text \<open>
  C33: two sets of votes that each win an election share a voter exactly when the number of
  nodes is odd. With an even number two disjoint halves both win, since the code halves the
  number of the other peers.
\<close>

theorem majorities_intersect_iff_odd:
  "distinct ids \<Longrightarrow> ids \<noteq> [] \<Longrightarrow> majorities_meet ids \<longleftrightarrow> odd (length ids)"
  unfolding majorities_meet_def
proof
  assume d: "distinct ids" and ne: "ids \<noteq> []"
    and all: "\<forall>Q Q'. wins ids Q \<longrightarrow> wins ids Q' \<longrightarrow> Q \<inter> Q' \<noteq> {}"
  show "odd (length ids)"
  proof
    assume "even (length ids)"
    then obtain k where k: "length ids = 2 * k" by (rule evenE)
    with ne have pos: "0 < k" by (cases k) auto
    let ?A = "set (take k ids)" and ?B = "set (drop k ids)"
    have card: "card ?A = k" "card ?B = k"
      using d k by (simp_all add: distinct_card)
    have half: "int (2 * k - 1) div 2 < int k" using pos by simp
    have "wins ids ?A" "wins ids ?B"
      using card k half by (auto simp: wins_def dest: in_set_takeD in_set_dropD)
    moreover have "?A \<inter> ?B = {}" by (rule set_take_disj_set_drop_if_distinct [OF d]) simp
    ultimately show False using all by blast
  qed
next
  assume "odd (length ids)"
  then show "\<forall>Q Q'. wins ids Q \<longrightarrow> wins ids Q' \<longrightarrow> Q \<inter> Q' \<noteq> {}"
    using wins_intersect by blast
qed

theorem majorities_intersect_iff_odd_witness:
  "majorities_meet [0, 1, 2] \<and> \<not> majorities_meet [0, 1, 2, 3]"
  using majorities_intersect_iff_odd [of "[0, 1, 2]"] majorities_intersect_iff_odd [of "[0, 1, 2, 3]"]
  by simp

section \<open>Roles\<close>

text \<open>A peer keeps its identity, and either follows or goes on with its role and count.\<close>

definition role_step :: "'ps Raftserver \<Rightarrow> 'ps Raftserver \<Rightarrow> bool" where
  "role_step rf rf' \<longleftrightarrow> rf_me rf' = rf_me rf \<and> rf_peers rf' = rf_peers rf \<and>
     (rf_role rf' = Follower \<or> rf_role rf' = rf_role rf \<and> rf_voteCount rf' = rf_voteCount rf)"

definition term_kept :: "'ps Raftserver \<Rightarrow> 'ps Raftserver \<Rightarrow> bool" where
  "term_kept rf rf' \<longleftrightarrow> rf_role rf' = Follower \<or> rf_currentTerm rf' = rf_currentTerm rf"

lemmas role_defs = role_step_def term_kept_def

lemma persist_fields:
  assumes "persist save rf = Some rf'"
  shows "rf_me rf' = rf_me rf \<and> rf_peers rf' = rf_peers rf \<and> rf_role rf' = rf_role rf \<and>
    rf_voteCount rf' = rf_voteCount rf \<and> rf_currentTerm rf' = rf_currentTerm rf \<and>
    rf_votedFor rf' = rf_votedFor rf"
  using persist_cases [OF assms] by auto

lemma RequestVote_role:
  assumes "RequestVote save now rf args = Some (reply, rf')"
  shows "role_step rf rf' \<and> term_kept rf rf'"
  using assms
  by (auto simp: RequestVote_def bind_eq_Some_conv role_defs split: if_splits dest!: persist_fields)

lemma RequestVote_granted:
  assumes "RequestVote save now rf args = Some (reply, rf')" and "rvr_VoteGranted reply"
  shows "rvr_Term reply = rva_Term args"
  using assms
  by (auto simp: RequestVote_def bind_eq_Some_conv split: if_splits dest!: persist_fields)

lemma appendEntries_enter_role:
  "appendEntries_enter save now rf args = Some rf1 \<Longrightarrow> role_step rf rf1 \<and> term_kept rf rf1"
  by (auto simp: appendEntries_enter_def Let_def bind_eq_Some_conv role_defs
      split: if_splits dest!: persist_fields)

lemma appendEntries_accept_role:
  "appendEntries_accept save rf args = Some (reply, rf') \<Longrightarrow>
     rf_me rf' = rf_me rf \<and> rf_peers rf' = rf_peers rf \<and> rf_role rf' = rf_role rf \<and>
     rf_voteCount rf' = rf_voteCount rf \<and> rf_currentTerm rf' = rf_currentTerm rf"
  by (auto simp: appendEntries_accept_def bind_eq_Some_conv dest!: persist_fields)

lemma AppendEntries_role:
  assumes "AppendEntries save now rf args = Some (reply, rf')"
  shows "role_step rf rf' \<and> term_kept rf rf'"
proof (cases "aea_Term args < rf_currentTerm rf")
  case True
  with assms show ?thesis by (auto simp: AppendEntries_def bind_eq_Some_conv role_defs)
next
  case False
  with assms obtain rf1 where enter: "appendEntries_enter save now rf args = Some rf1"
    and rest: "rf' = rf1 \<or> appendEntries_accept save rf1 args = Some (reply, rf')"
    by (auto simp: AppendEntries_def bind_eq_Some_conv split: option.splits)
  from appendEntries_enter_role [OF enter] rest show ?thesis
    by (auto simp: role_defs dest: appendEntries_accept_role)
qed

lemma InstallSnapshot_begin_role:
  "InstallSnapshot_begin now rf args = Some (SnapDone reply rf') \<Longrightarrow> role_step rf rf' \<and> term_kept rf rf'"
  "InstallSnapshot_begin now rf args = Some (SnapPending reply msg rf') \<Longrightarrow>
     role_step rf rf' \<and> term_kept rf rf'"
  by (auto simp: InstallSnapshot_begin_def role_defs Let_def bind_eq_Some_conv split: if_splits)

lemma write_role:
  "InstallSnapshot_end save now rf = Some rf' \<Longrightarrow> role_step rf rf' \<and> term_kept rf rf'"
  "Start save rf cmd = Some (res, rf') \<Longrightarrow> role_step rf rf' \<and> term_kept rf rf'"
  "Snapshot save rf index data = Some rf' \<Longrightarrow> role_step rf rf' \<and> term_kept rf rf'"
  by (auto simp: InstallSnapshot_end_def Start_def Snapshot_def ResetHeartTimer_def role_defs Let_def
      bind_eq_Some_conv split: if_splits dest!: persist_fields)

lemma onAppend_role:
  "onAppendSuccess rf server aargs areply = Some (again, rf') \<Longrightarrow> role_step rf rf' \<and> term_kept rf rf'"
  "onAppendConflict rf server areply = Some rf' \<Longrightarrow> role_step rf rf' \<and> term_kept rf rf'"
  by (auto simp: onAppendSuccess_def onAppendConflict_def setNext_def role_defs Let_def
      bind_eq_Some_conv split: if_splits)

lemma reply_role:
  "handleAppendReply save now rf server aargs areply = Some (again, rf') \<Longrightarrow>
     role_step rf rf' \<and> term_kept rf rf'"
  "handleSnapshotReply save now rf server sreply = Some rf' \<Longrightarrow> role_step rf rf' \<and> term_kept rf rf'"
  using onAppend_role [of rf server]
  by (fastforce simp: handleAppendReply_def bind_eq_Some_conv role_defs
      split: if_splits dest!: persist_fields)
     (auto simp: handleSnapshotReply_def setNext_def role_defs split: if_splits dest!: persist_fields)

lemma send_role:
  "StartSendAppendEntries rf = Some (tasks, rf') \<Longrightarrow> role_step rf rf' \<and> term_kept rf rf'"
  "SingleHeartBeat_send rf = Some (beats, rf') \<Longrightarrow> role_step rf rf' \<and> term_kept rf rf'"
  "role_step rf (applyCh_send msg rf) \<and> term_kept rf (applyCh_send msg rf)"
  "role_step rf (CommitCheck_after rf msg cur) \<and> term_kept rf (CommitCheck_after rf msg cur)"
  "role_step rf (Kill rf) \<and> term_kept rf (Kill rf)"
  by (auto simp: StartSendAppendEntries_def SingleHeartBeat_send_def ResetHeartTimer_def role_defs
      applyCh_send_def CommitCheck_after_def Kill_def bind_eq_Some_conv split: if_splits)

lemma SendCommitIndex_role:
  "SendCommitIndex rf creply = (idx, cres, rf') \<Longrightarrow> role_step rf rf'"
  by (auto simp: SendCommitIndex_def Let_def role_defs split: option.splits if_splits)

lemma QuickApply_role: "QuickApply rf = Some rf' \<Longrightarrow>
    rf_me rf' = rf_me rf \<and> rf_peers rf' = rf_peers rf \<and> rf_role rf' = rf_role rf"
proof (induction rf arbitrary: rf' rule: QuickApply.induct)
  case (1 rf)
  show ?case
  proof (cases "rf_lastApplied rf < rf_commitIndex rf")
    case True
    with "1.prems" obtain m where m: "applyMsgAt rf (rf_lastApplied rf + 1) = Some m"
      "QuickApply (applyCh_send m (rf\<lparr>rf_lastApplied := rf_lastApplied rf + 1\<rparr>)) = Some rf'"
      by (auto simp: QuickApply.simps [of rf] bind_eq_Some_conv)
    from "1.IH" [OF True m] show ?thesis by (simp add: applyCh_send_def)
  next
    case False
    with "1.prems" show ?thesis by (simp add: QuickApply.simps [of rf])
  qed
qed

lemma restart_role:
  assumes "startWork st snap (Make ids me ps now) = Some rf'"
  shows "rf_me rf' = me \<and> rf_peers rf' = filter (\<lambda>i. i \<noteq> me) ids \<and> rf_role rf' = Follower"
  using assms
  by (auto simp: startWork_def Let_def bind_eq_Some_conv readSnapshot_def readPersist_def Make_def
      split: prod.splits if_splits dest!: QuickApply_role)

lemmas role_ops = AppendEntries_role InstallSnapshot_begin_role write_role reply_role send_role

text \<open>
  No local step makes a peer candidate or leader, and only the answer to a commit index query
  can raise the term of a peer that is one.
\<close>

lemma role_kept:
  "role_step rf rf' \<and> term_kept rf rf' \<Longrightarrow> role_step rf rf' \<and> (term_kept rf rf' \<or> P)"
  by blast

lemma local_step_role:
  assumes "local_step save stored ids rf rf'" and "rf_peers rf = filter (\<lambda>i. i \<noteq> rf_me rf) ids"
  shows "role_step rf rf' \<and>
         (term_kept rf rf' \<or> (\<exists>creply idx cres. SendCommitIndex rf creply = (idx, cres, rf')))"
  using assms(1)
proof cases
  case (restart ps logs ci snap now)
  with assms(2) show ?thesis by (auto simp: role_defs dest!: restart_role)
next
  case (disk ps)
  then show ?thesis by (auto simp: role_defs)
next
  case (commitReply creply idx cres)
  then show ?thesis using SendCommitIndex_role by blast
next
  case (send msg)
  then show ?thesis using role_kept [OF send_role(3)] by simp
next
  case (applied msg cur)
  then show ?thesis using role_kept [OF send_role(4)] by simp
next
  case kill
  then show ?thesis using role_kept [OF send_role(5)] by simp
qed (rule role_kept, erule role_ops)+

end
