(* ===== verification/RaftCluster.thy ===== *)
theory RaftCluster
  imports RaftElection
begin

text \<open>
  A cluster of peers that exchange vote requests, and the safety of its elections: at most one
  leader in a term. The system is one step relation; each step is one critical section of one
  peer, or a failed call. The two assumptions it makes on the interleaving are the two that the
  code does not guarantee, and a theorem shows for each what happens without it.
\<close>

section \<open>The cluster\<close>

text \<open>
  The peers, the vote requests under way, the replies sent, and the calls of
  \<^verbatim>\<open>collectVote\<close> that still wait for one. A call is named by the candidate, the peer asked
  and the arguments.
\<close>

record 'ps cluster =
  cl_node :: "int \<Rightarrow> 'ps Raftserver"
  cl_reqs :: "(int \<times> int \<times> RequestVoteArgs) set"
  cl_reps :: "(int \<times> int \<times> RequestVoteArgs \<times> RequestVoteReply) set"
  cl_open :: "(int \<times> int \<times> RequestVoteArgs) set"

abbreviation set_node :: "int \<Rightarrow> 'ps Raftserver \<Rightarrow> 'ps cluster \<Rightarrow> 'ps cluster" where
  "set_node i rf c \<equiv> c\<lparr>cl_node := (cl_node c)(i := rf)\<rparr>"

definition calls :: "int \<Rightarrow> int list \<Rightarrow> RequestVoteArgs \<Rightarrow> (int \<times> int \<times> RequestVoteArgs) set" where
  "calls i peers args = (\<lambda>j. (i, j, args)) ` set peers"

text \<open>
  A step with the peer that takes it and the vote it grants. A request is handled at most once,
  a reply may be lost (the call fails, or stays open for ever), and a peer may crash and restart
  (a \<open>local_step\<close>). Here \<^verbatim>\<open>collectVote\<close> is one step, and a local step does not raise
  the term of a peer that stays candidate or leader.
\<close>

inductive cluster_step :: "'ps save_fn \<Rightarrow> ('ps \<Rightarrow> State) \<Rightarrow> int list \<Rightarrow> 'ps cluster \<Rightarrow> int \<Rightarrow> label \<Rightarrow>
    'ps cluster \<Rightarrow> bool" for save stored ids where
  local: "i \<in> set ids \<Longrightarrow> local_step save stored ids (cl_node c i) rf' \<Longrightarrow>
    term_kept (cl_node c i) rf' \<Longrightarrow> cluster_step save stored ids c i Silent (set_node i rf' c)"
| elect: "i \<in> set ids \<Longrightarrow> StartElection save now r (cl_node c i) = Some (args, rf') \<Longrightarrow>
    new = calls i (rf_peers (cl_node c i)) args \<Longrightarrow>
    cluster_step save stored ids c i (Granted (rva_Term args) (rva_CandidateId args))
      (set_node i rf' c\<lparr>cl_reqs := cl_reqs c \<union> new, cl_open := cl_open c \<union> new\<rparr>)"
| vote: "(i, j, args) \<in> cl_reqs c \<Longrightarrow>
    RequestVote save now (cl_node c j) args = Some (reply, rf') \<Longrightarrow>
    cluster_step save stored ids c j (voteLabel args reply)
      (set_node j rf' c\<lparr>cl_reqs := cl_reqs c - {(i, j, args)},
                        cl_reps := insert (i, j, args, reply) (cl_reps c)\<rparr>)"
| collect: "(i, j, args, reply) \<in> cl_reps c \<Longrightarrow> (i, j, args) \<in> cl_open c \<Longrightarrow>
    collectVote save now (cl_node c i) args (Some reply) = Some (won, rf') \<Longrightarrow>
    cluster_step save stored ids c i Silent
      (set_node i rf' c\<lparr>cl_open := cl_open c - {(i, j, args)}\<rparr>)"
| fail: "(i, j, args) \<in> cl_open c \<Longrightarrow>
    collectVote save now (cl_node c i) args None = Some (won, rf') \<Longrightarrow>
    cluster_step save stored ids c i Silent
      (set_node i rf' c\<lparr>cl_open := cl_open c - {(i, j, args)}\<rparr>)"

inductive_cases cluster_stepE: "cluster_step save stored ids c i l c'"

text \<open>The votes each peer has granted, as a history beside the run.\<close>

definition record_vote :: "int \<Rightarrow> label \<Rightarrow> (int \<Rightarrow> (int \<times> int) list) \<Rightarrow> int \<Rightarrow> (int \<times> int) list" where
  "record_vote i l V = (case l of Silent \<Rightarrow> V | Granted t c \<Rightarrow> V(i := (t, c) # V i))"

inductive cluster_run :: "'ps save_fn \<Rightarrow> ('ps \<Rightarrow> State) \<Rightarrow> int list \<Rightarrow> 'ps cluster \<Rightarrow>
    (int \<Rightarrow> (int \<times> int) list) \<Rightarrow> 'ps cluster \<Rightarrow> bool" for save stored ids c0 where
  init: "cluster_run save stored ids c0 (\<lambda>_. []) c0"
| step: "cluster_run save stored ids c0 V c \<Longrightarrow> cluster_step save stored ids c i l c' \<Longrightarrow>
    cluster_run save stored ids c0 (record_vote i l V) c'"

text \<open>A cluster before its first election.\<close>

definition fresh_cluster :: "int list \<Rightarrow> 'ps cluster \<Rightarrow> bool" where
  "fresh_cluster ids c \<longleftrightarrow> cl_reqs c = {} \<and> cl_reps c = {} \<and> cl_open c = {} \<and>
     (\<forall>i \<in> set ids. rf_me (cl_node c i) = i \<and> rf_role (cl_node c i) = Follower \<and>
        rf_peers (cl_node c i) = filter (\<lambda>j. j \<noteq> i) ids)"

section \<open>The invariant\<close>

definition issued :: "'ps cluster \<Rightarrow> (int \<times> int \<times> RequestVoteArgs) set" where
  "issued c = cl_reqs c \<union> cl_open c \<union> (\<lambda>(i, j, a, r). (i, j, a)) ` cl_reps c"

definition counted :: "'ps cluster \<Rightarrow> int \<Rightarrow> int \<Rightarrow> int set" where
  "counted c i t = {j. \<exists>a r. (i, j, a, r) \<in> cl_reps c \<and> rvr_VoteGranted r \<and> rva_Term a = t \<and>
                         (i, j, a) \<notin> cl_open c}"

text \<open>What a candidate has counted and a leader has won, seen from the votes granted.\<close>

definition role_ok :: "int list \<Rightarrow> (int \<times> int) list \<Rightarrow> (int \<Rightarrow> int set) \<Rightarrow> int \<Rightarrow> 'ps Raftserver \<Rightarrow> bool" where
  "role_ok ids vs votes i rf \<longleftrightarrow>
     (rf_role rf \<noteq> Follower \<longrightarrow> (rf_currentTerm rf, i) \<in> set vs) \<and>
     (rf_role rf = Candidate \<longrightarrow> rf_voteCount rf \<le> 1 + int (card (votes (rf_currentTerm rf)))) \<and>
     (rf_role rf = Leader \<longrightarrow> wins ids (insert i (votes (rf_currentTerm rf))))"

definition nodes_ok :: "int list \<Rightarrow> (int \<Rightarrow> (int \<times> int) list) \<Rightarrow> 'ps cluster \<Rightarrow> bool" where
  "nodes_ok ids V c \<longleftrightarrow> (\<forall>i \<in> set ids.
     rf_me (cl_node c i) = i \<and> rf_peers (cl_node c i) = filter (\<lambda>j. j \<noteq> i) ids \<and>
     snd ` set (V i) \<subseteq> set ids \<and> role_ok ids (V i) (counted c i) i (cl_node c i))"

definition calls_ok :: "int list \<Rightarrow> (int \<Rightarrow> (int \<times> int) list) \<Rightarrow> 'ps cluster \<Rightarrow> bool" where
  "calls_ok ids V c \<longleftrightarrow>
     (\<forall>i j a. (i, j, a) \<in> issued c \<longrightarrow> i \<in> set ids \<and> j \<in> set ids \<and> j \<noteq> i \<and>
        rva_CandidateId a = i \<and> (rva_Term a, i) \<in> set (V i)) \<and>
     (\<forall>i j j' a a'. (i, j, a) \<in> issued c \<longrightarrow> (i, j', a') \<in> issued c \<longrightarrow>
        rva_Term a = rva_Term a' \<longrightarrow> a = a') \<and>
     (\<forall>i j a r. (i, j, a, r) \<in> cl_reps c \<longrightarrow> rvr_VoteGranted r \<longrightarrow> (rva_Term a, i) \<in> set (V j))"

definition runs_ok :: "'ps save_fn \<Rightarrow> ('ps \<Rightarrow> State) \<Rightarrow> int list \<Rightarrow> 'ps cluster \<Rightarrow>
    (int \<Rightarrow> (int \<times> int) list) \<Rightarrow> 'ps cluster \<Rightarrow> bool" where
  "runs_ok save stored ids c0 V c \<longleftrightarrow>
     (\<forall>i \<in> set ids. node_run save stored ids (cl_node c0 i) (V i) (cl_node c i))"

lemma wins_mono: "wins ids Q \<Longrightarrow> Q \<subseteq> Q' \<Longrightarrow> Q' \<subseteq> set ids \<Longrightarrow> wins ids Q'"
  using card_mono [of Q' Q] finite_subset [of Q' "set ids"] by (force simp: wins_def)

lemma length_others:
  assumes "distinct ids" and "i \<in> set ids"
  shows "go_len (filter (\<lambda>j. j \<noteq> i) ids) = int (length ids - 1)"
proof -
  have "set (filter (\<lambda>j. j \<noteq> i) ids) = set ids - {i}" by auto
  then have "length (filter (\<lambda>j. j \<noteq> i) ids) = card (set ids - {i})"
    using assms(1) distinct_card [of "filter (\<lambda>j. j \<noteq> i) ids"] by simp
  with assms show ?thesis by (simp add: go_len_def distinct_card)
qed

lemma role_ok_mono:
  assumes "role_ok ids vs f i rf" and "role_step rf rf'" and "term_kept rf rf'"
    and "set vs \<subseteq> set vs'" and "\<And>t. f t \<subseteq> f' t" and "\<And>t. f' t \<subseteq> set ids - {i}" and "i \<in> set ids"
  shows "role_ok ids vs' f' i rf'"
proof (cases "rf_role rf' = Follower")
  case True
  then show ?thesis by (simp add: role_ok_def)
next
  case False
  with assms(2,3) have same: "rf_role rf' = rf_role rf" "rf_voteCount rf' = rf_voteCount rf"
      "rf_currentTerm rf' = rf_currentTerm rf"
    by (auto simp: role_defs)
  let ?t = "rf_currentTerm rf"
  have "card (f ?t) \<le> card (f' ?t)"
    using assms(5,6) by (meson card_mono finite_Diff finite_set finite_subset)
  moreover have "wins ids (insert i (f ?t)) \<Longrightarrow> wins ids (insert i (f' ?t))"
    using assms(5,6,7) by (elim wins_mono) auto
  ultimately show ?thesis
    using assms(1,4) by (auto simp: role_ok_def same)
qed

lemma procVoteAnswer_role:
  assumes "procVoteAnswer save rf args reply = Some (ok, rf')"
  shows "role_step rf rf' \<and> term_kept rf rf' \<and>
    (ok \<longrightarrow> (\<exists>r. reply = Some r \<and> rvr_VoteGranted r) \<and> (rf_role rf' = Follower \<or>
       rf' = rf \<and> rf_role rf = Candidate \<and> rva_Term args = rf_currentTerm rf))"
  using assms
  by (auto simp: procVoteAnswer_def bind_eq_Some_conv role_defs
      split: option.splits if_splits dest!: persist_fields)

lemma collectVote_count_cases:
  assumes "collectVote_count now rf = Some (won, rf')"
  shows "rf_me rf' = rf_me rf \<and> rf_peers rf' = rf_peers rf \<and>
    rf_currentTerm rf' = rf_currentTerm rf \<and>
    (rf_role rf' = rf_role rf \<and> rf_voteCount rf' \<le> rf_voteCount rf + 1 \<or>
     rf_role rf = Candidate \<and> rf_role rf' = Leader \<and>
     rf_voteCount rf + 1 > go_len (rf_peers rf) div 2)"
  using assms
  by (auto simp: collectVote_count_def ResetHeartTimer_def bind_eq_Some_conv Let_def split: if_splits)

lemma collectVote_role:
  assumes run: "collectVote save now rf args reply = Some (won, rf')"
    and ok: "role_ok ids vs f i rf" and "rf_peers rf = filter (\<lambda>j. j \<noteq> i) ids"
    and "distinct ids" "i \<in> set ids"
    and f: "\<And>t. f t \<subseteq> f' t" "\<And>t. f' t \<subseteq> set ids - {i}"
    and new: "\<And>r. reply = Some r \<Longrightarrow> rvr_VoteGranted r \<Longrightarrow> \<exists>j. j \<in> f' (rva_Term args) - f (rva_Term args)"
  shows "role_ok ids vs f' i rf' \<and> rf_me rf' = rf_me rf \<and> rf_peers rf' = rf_peers rf"
proof -
  from run obtain okv rf1 where ans: "procVoteAnswer save rf args reply = Some (okv, rf1)"
    and cont: "(if okv then collectVote_count now rf1 else Some (False, rf1)) = Some (won, rf')"
    by (auto simp: collectVote_def bind_eq_Some_conv)
  note a = procVoteAnswer_role [OF ans]
  then have ok1: "role_ok ids vs f' i rf1" using role_ok_mono [OF ok _ _ order_refl f assms(5)] by blast
  from a have id1: "rf_me rf1 = rf_me rf" "rf_peers rf1 = rf_peers rf" by (simp_all add: role_defs)
  show ?thesis
  proof (cases okv)
    case False
    with cont ok1 id1 show ?thesis by simp
  next
    case True
    with cont have cnt: "collectVote_count now rf1 = Some (won, rf')" by simp
    note b = collectVote_count_cases [OF cnt]
    from a True consider "rf_role rf1 = Follower"
      | "rf1 = rf" "rf_role rf = Candidate" "rva_Term args = rf_currentTerm rf" by blast
    then show ?thesis
    proof cases
      case 1
      with b id1 show ?thesis by (auto simp: role_ok_def)
    next
      case 2
      let ?t = "rf_currentTerm rf"
      from a True new 2(3) obtain j where j: "j \<in> f' ?t" "j \<notin> f ?t" by auto
      have fin: "finite (f' ?t)" using f(2) by (meson finite_Diff finite_set finite_subset)
      then have "card (insert j (f ?t)) \<le> card (f' ?t)" using j f(1) by (intro card_mono) auto
      then have up: "card (f ?t) + 1 \<le> card (f' ?t)"
        using j(2) fin f(1) finite_subset by fastforce
      have "card (insert i (f' ?t)) = card (f' ?t) + 1" using fin f(2) [of ?t] by (subst card_insert_disjoint) auto
      moreover have "rf_voteCount rf \<le> 1 + int (card (f ?t))" "(?t, i) \<in> set vs"
        using ok 2(2) by (simp_all add: role_ok_def)
      moreover have "insert i (f' ?t) \<subseteq> set ids" using f(2) assms(5) by blast
      ultimately show ?thesis
        using b 2 id1 up assms(3) length_others [OF assms(4,5)]
        by (auto simp: role_ok_def wins_def)
    qed
  qed
qed

section \<open>Preservation\<close>

lemma issued_reply: "(i, j, a, r) \<in> cl_reps c \<Longrightarrow> (i, j, a) \<in> issued c"
  by (force simp: issued_def)

lemma calls_okD:
  assumes "calls_ok ids V c"
  shows "(i, j, a) \<in> issued c \<Longrightarrow> i \<in> set ids \<and> j \<in> set ids \<and> j \<noteq> i \<and>
        rva_CandidateId a = i \<and> (rva_Term a, i) \<in> set (V i)"
    and "(i, j, a) \<in> issued c \<Longrightarrow> (i, j', a') \<in> issued c \<Longrightarrow> rva_Term a = rva_Term a' \<Longrightarrow> a = a'"
    and "(i, j, a, r) \<in> cl_reps c \<Longrightarrow> rvr_VoteGranted r \<Longrightarrow> (rva_Term a, i) \<in> set (V j)"
  using assms unfolding calls_ok_def by blast+

lemma counted_sub: "calls_ok ids V c \<Longrightarrow> counted c i t \<subseteq> set ids - {i}"
  using calls_okD(1) [OF _ issued_reply] unfolding counted_def by blast

lemma record_vote_sub: "set (V k) \<subseteq> set (record_vote i l V k)"
  by (auto simp: record_vote_def split: label.split)

lemma collectVote_run:
  assumes "node_run save stored ids rf0 vs rf" and "collectVote save now rf args reply = Some (won, rf')"
  shows "node_run save stored ids rf0 vs rf'"
proof -
  from assms(2) obtain ok rf1 where ans: "procVoteAnswer save rf args reply = Some (ok, rf1)"
    and cont: "(if ok then collectVote_count now rf1 else Some (False, rf1)) = Some (won, rf')"
    by (auto simp: collectVote_def bind_eq_Some_conv)
  have "node_run save stored ids rf0 vs rf1"
    using assms(1) node_step.answer [OF ans] by (rule node_run.quiet)
  then show ?thesis
    using cont node_run.quiet [OF _ node_step.count] by (auto split: if_splits)
qed

lemma node_run_step:
  "node_run save stored ids rf0 vs rf \<Longrightarrow> node_step save stored ids rf l rf' \<Longrightarrow>
   node_run save stored ids rf0 (case l of Silent \<Rightarrow> vs | Granted t d \<Rightarrow> (t, d) # vs) rf'"
  by (cases l) (auto intro: node_run.intros)

lemma cluster_step_run:
  assumes "cluster_step save stored ids c i l c'"
    and run: "node_run save stored ids rf0 vs (cl_node c i)"
  shows "node_run save stored ids rf0 (case l of Silent \<Rightarrow> vs | Granted t d \<Rightarrow> (t, d) # vs) (cl_node c' i)"
  using assms(1)
proof cases
  case (local rf')
  with node_run_step [OF run node_step.local [OF local(4)]] show ?thesis by simp
next
  case (elect now r args rf' new)
  with node_run_step [OF run node_step.elect [OF elect(4)]] show ?thesis by simp
next
  case (vote i args now reply rf')
  with node_run_step [OF run node_step.vote [OF vote(4)]] show ?thesis by simp
next
  case (collect j args reply now won rf')
  with collectVote_run [OF run collect(5)] show ?thesis by simp
next
  case (fail j args now won rf')
  with collectVote_run [OF run fail(4)] show ?thesis by simp
qed

lemma cluster_step_others: "cluster_step save stored ids c i l c' \<Longrightarrow> k \<noteq> i \<Longrightarrow> cl_node c' k = cl_node c k"
  by (erule cluster_step.cases) simp_all

lemma runs_ok_step:
  assumes "runs_ok save stored ids c0 V c" and "cluster_step save stored ids c i l c'"
  shows "runs_ok save stored ids c0 (record_vote i l V) c'"
  unfolding runs_ok_def
proof
  fix k assume "k \<in> set ids"
  with assms(1) have run: "node_run save stored ids (cl_node c0 k) (V k) (cl_node c k)"
    by (simp add: runs_ok_def)
  show "node_run save stored ids (cl_node c0 k) (record_vote i l V k) (cl_node c' k)"
  proof (cases "k = i")
    case True
    with run cluster_step_run [OF assms(2), of "cl_node c0 k" "V k"] show ?thesis
      by (cases l) (simp_all add: record_vote_def)
  next
    case False
    with run cluster_step_others [OF assms(2)] show ?thesis
      by (cases l) (simp_all add: record_vote_def)
  qed
qed

text \<open>The arguments of an election are new: its term is above every term voted in.\<close>

definition fresh_term :: "(int \<times> int) list \<Rightarrow> 'ps Raftserver \<Rightarrow> bool" where
  "fresh_term vs rf \<longleftrightarrow> (\<forall>(t, d) \<in> set vs. t \<le> rf_currentTerm rf)"

lemma StartElection_fields:
  assumes "StartElection save now r rf = Some (args, rf')"
  shows "rva_Term args = rf_currentTerm rf + 1 \<and> rva_CandidateId args = rf_me rf \<and>
    rf_me rf' = rf_me rf \<and> rf_peers rf' = rf_peers rf \<and> rf_role rf' = Candidate \<and>
    rf_currentTerm rf' = rf_currentTerm rf + 1 \<and> rf_voteCount rf' = 1"
  using assms by (auto simp: StartElection_def bind_eq_Some_conv Let_def dest!: persist_fields)

lemma calls_okI:
  assumes "\<And>i j a. (i, j, a) \<in> issued c \<Longrightarrow> i \<in> set ids \<and> j \<in> set ids \<and> j \<noteq> i \<and>
        rva_CandidateId a = i \<and> (rva_Term a, i) \<in> set (V i)"
    and "\<And>i j j' a a'. (i, j, a) \<in> issued c \<Longrightarrow> (i, j', a') \<in> issued c \<Longrightarrow>
        rva_Term a = rva_Term a' \<Longrightarrow> a = a'"
    and "\<And>i j a r. (i, j, a, r) \<in> cl_reps c \<Longrightarrow> rvr_VoteGranted r \<Longrightarrow> (rva_Term a, i) \<in> set (V j)"
  shows "calls_ok ids V c"
  unfolding calls_ok_def using assms by blast

lemma calls_ok_less:
  assumes "calls_ok ids V c" and "issued c' \<subseteq> issued c"
    and "\<And>i j a r. (i, j, a, r) \<in> cl_reps c' - cl_reps c \<Longrightarrow> rvr_VoteGranted r \<Longrightarrow>
          (rva_Term a, i) \<in> set (record_vote h l V j)"
  shows "calls_ok ids (record_vote h l V) c'"
proof (rule calls_okI)
  fix i j a assume "(i, j, a) \<in> issued c'"
  then show "i \<in> set ids \<and> j \<in> set ids \<and> j \<noteq> i \<and> rva_CandidateId a = i \<and> (rva_Term a, i) \<in> set (record_vote h l V i)"
    using calls_okD(1) [OF assms(1)] assms(2) record_vote_sub [of V i h l] by blast
next
  fix i j j' a a' assume "(i, j, a) \<in> issued c'" "(i, j', a') \<in> issued c'" "rva_Term a = rva_Term a'"
  then show "a = a'" using calls_okD(2) [OF assms(1)] assms(2) by blast
next
  fix i j a r assume "(i, j, a, r) \<in> cl_reps c'" "rvr_VoteGranted r"
  then show "(rva_Term a, i) \<in> set (record_vote h l V j)"
    using calls_okD(3) [OF assms(1)] assms(3) record_vote_sub [of V j h l] by blast
qed

lemma calls_ok_elect:
  assumes inv: "calls_ok ids V c" and nodes: "nodes_ok ids V c" and i: "i \<in> set ids"
    and fresh: "fresh_term (V i) (cl_node c i)"
    and run: "StartElection save now r (cl_node c i) = Some (args, rf')"
    and iss: "issued c' = issued c \<union> calls i (rf_peers (cl_node c i)) args"
    and reps: "cl_reps c' = cl_reps c"
  shows "calls_ok ids (record_vote i (Granted (rva_Term args) (rva_CandidateId args)) V) c'"
proof (rule calls_okI)
  let ?V = "record_vote i (Granted (rva_Term args) (rva_CandidateId args)) V"
  have f: "rva_Term args = rf_currentTerm (cl_node c i) + 1" "rva_CandidateId args = i"
    using StartElection_fields [OF run] nodes i by (simp_all add: nodes_ok_def)
  have new: "i' = i \<and> j \<in> set ids \<and> j \<noteq> i \<and> a = args"
    if "(i', j, a) \<in> calls i (rf_peers (cl_node c i)) args" for i' j a
    using that nodes i by (auto simp: calls_def nodes_ok_def)
  have old: "rva_Term a \<noteq> rva_Term args" if "(i, j, a) \<in> issued c" for j a
    using calls_okD(1) [OF inv that] fresh f by (auto simp: fresh_term_def)
  have V: "set (V k) \<subseteq> set (?V k)" for k by (rule record_vote_sub)
  have Vi: "(rva_Term args, i) \<in> set (?V i)" by (simp add: record_vote_def f)
  show "i' \<in> set ids \<and> j \<in> set ids \<and> j \<noteq> i' \<and> rva_CandidateId a = i' \<and>
      (rva_Term a, i') \<in> set (?V i')" if "(i', j, a) \<in> issued c'" for i' j a
    using that calls_okD(1) [OF inv, of i' j a] V Vi f i new [of i' j a] unfolding iss by blast
  show "a = a'" if "(i', j, a) \<in> issued c'" "(i', j', a') \<in> issued c'" "rva_Term a = rva_Term a'"
    for i' j j' a a'
    using that old new calls_okD(2) [OF inv] unfolding iss by (metis Un_iff)
  show "(rva_Term a, i') \<in> set (?V j)" if "(i', j, a, r) \<in> cl_reps c'" "rvr_VoteGranted r" for i' j a r
    using that calls_okD(3) [OF inv] V unfolding reps by blast
qed

lemma calls_ok_step:
  assumes inv: "calls_ok ids V c" and nodes: "nodes_ok ids V c"
    and fresh: "\<And>i. i \<in> set ids \<Longrightarrow> fresh_term (V i) (cl_node c i)"
    and step: "cluster_step save stored ids c i l c'"
  shows "calls_ok ids (record_vote i l V) c'"
  using step
proof cases
  case (elect now r args rf' new)
  then have "issued c' = issued c \<union> calls i (rf_peers (cl_node c i)) args" "cl_reps c' = cl_reps c"
    by (auto simp: issued_def)
  from calls_ok_elect [OF inv nodes elect(3) fresh [OF elect(3)] elect(4) this] elect(1)
  show ?thesis by simp
next
  case (vote h args now reply rf')
  show ?thesis
  proof (rule calls_ok_less [OF inv])
    show "issued c' \<subseteq> issued c" using vote(2,3) by (auto simp: issued_def)
    fix i' j a r assume new: "(i', j, a, r) \<in> cl_reps c' - cl_reps c" and g: "rvr_VoteGranted r"
    then have eq: "i' = h" "j = i" "a = args" "r = reply" using vote(2) by auto
    have "(h, i, args) \<in> issued c" using vote(3) by (simp add: issued_def)
    from calls_okD(1) [OF inv this] RequestVote_granted [OF vote(4)] g
    show "(rva_Term a, i') \<in> set (record_vote i l V j)"
      by (simp add: eq vote(1) record_vote_def voteLabel_def)
  qed
qed (rule calls_ok_less [OF inv], auto simp: issued_def)+

lemma counted_step:
  assumes inv: "calls_ok ids V c" and nodes: "nodes_ok ids V c"
    and fresh: "\<And>i. i \<in> set ids \<Longrightarrow> fresh_term (V i) (cl_node c i)"
    and step: "cluster_step save stored ids c i l c'"
  shows "counted c k t \<subseteq> counted c' k t"
  using step
proof cases
  case (elect now r args rf' new)
  have "(k, j, a) \<notin> new" if "(k, j, a, q) \<in> cl_reps c" for j a q
  proof
    assume "(k, j, a) \<in> new"
    then have eq: "k = i" "a = args" using elect(5) by (auto simp: calls_def)
    have "(rva_Term args, i) \<in> set (V i)"
      using calls_okD(1) [OF inv issued_reply [OF that]] by (simp add: eq)
    then show False
      using fresh [OF elect(3)] StartElection_fields [OF elect(4)] by (auto simp: fresh_term_def)
  qed
  then show ?thesis using elect(2) by (simp add: counted_def) blast
qed (auto simp: counted_def)

lemma counted_collect:
  assumes inv: "calls_ok ids V c" and rep: "(i, j, args, reply) \<in> cl_reps c"
    and op: "(i, j, args) \<in> cl_open c" and g: "rvr_VoteGranted reply"
    and c': "cl_reps c' = cl_reps c" "cl_open c' = cl_open c - {(i, j, args)}"
  shows "j \<in> counted c' i (rva_Term args) - counted c i (rva_Term args)"
proof -
  have "a = args" if "(i, j, a, r) \<in> cl_reps c" "rva_Term a = rva_Term args" for a r
    using calls_okD(2) [OF inv issued_reply [OF that(1)] issued_reply [OF rep] that(2)] .
  then have "j \<notin> counted c i (rva_Term args)" using op unfolding counted_def by blast
  moreover have "j \<in> counted c' i (rva_Term args)" using rep g c' unfolding counted_def by blast
  ultimately show ?thesis by blast
qed

definition node_ok :: "int list \<Rightarrow> (int \<times> int) list \<Rightarrow> (int \<Rightarrow> int set) \<Rightarrow> int \<Rightarrow> 'ps Raftserver \<Rightarrow> bool" where
  "node_ok ids vs f i rf \<longleftrightarrow> rf_me rf = i \<and> rf_peers rf = filter (\<lambda>j. j \<noteq> i) ids \<and>
     snd ` set vs \<subseteq> set ids \<and> role_ok ids vs f i rf"

lemma nodes_ok_iff: "nodes_ok ids V c \<longleftrightarrow> (\<forall>i \<in> set ids. node_ok ids (V i) (counted c i) i (cl_node c i))"
  by (simp add: nodes_ok_def node_ok_def)

lemma node_ok_mono:
  assumes "node_ok ids vs f i rf" and "role_step rf rf'" and "term_kept rf rf'"
    and "set vs \<subseteq> set vs'" and "snd ` set vs' \<subseteq> set ids"
    and "\<And>t. f t \<subseteq> f' t" and "\<And>t. f' t \<subseteq> set ids - {i}" and "i \<in> set ids"
  shows "node_ok ids vs' f' i rf'"
  using assms role_ok_mono [OF _ assms(2-4,6-8)] unfolding node_ok_def role_step_def by simp

lemma node_ok_step:
  assumes inv: "calls_ok ids V c" and ok: "node_ok ids (V i) (counted c i) i (cl_node c i)"
    and d: "distinct ids" and i: "i \<in> set ids"
    and mono: "\<And>t. counted c i t \<subseteq> counted c' i t" and sub: "\<And>t. counted c' i t \<subseteq> set ids - {i}"
    and step: "cluster_step save stored ids c i l c'"
  shows "node_ok ids (record_vote i l V i) (counted c' i) i (cl_node c' i)"
  using step
proof cases
  case (local rf')
  have "role_step (cl_node c i) rf'"
    using local_step_role [OF local(4)] ok by (simp add: node_ok_def)
  from node_ok_mono [OF ok this local(5) order_refl _ mono sub i] ok local(1,2) show ?thesis
    by (simp add: record_vote_def node_ok_def)
next
  case (elect now r args rf' new)
  with StartElection_fields [OF elect(4)] ok i show ?thesis
    by (simp add: node_ok_def role_ok_def record_vote_def)
next
  case (vote h args now reply rf')
  have h: "rva_CandidateId args \<in> set ids"
    using calls_okD(1) [OF inv, of h i args] vote(3) by (simp add: issued_def)
  have V: "snd ` set (record_vote i l V i) \<subseteq> set ids"
    using ok h vote(1) by (auto simp: record_vote_def voteLabel_def node_ok_def)
  from RequestVote_role [OF vote(4)] have r: "role_step (cl_node c i) rf'" "term_kept (cl_node c i) rf'"
    by simp_all
  from node_ok_mono [OF ok r record_vote_sub V mono sub i] vote(2) show ?thesis by simp
next
  case (collect j args reply now won rf')
  have c': "cl_reps c' = cl_reps c" "cl_open c' = cl_open c - {(i, j, args)}" using collect(2) by simp_all
  have "role_ok ids (V i) (counted c' i) i rf' \<and> rf_me rf' = rf_me (cl_node c i) \<and>
      rf_peers rf' = rf_peers (cl_node c i)"
    using ok counted_collect [OF inv collect(3,4) _ c'] unfolding node_ok_def
    by (intro collectVote_role [OF collect(5) _ _ d i mono sub]) auto
  with ok collect(1,2) show ?thesis by (simp add: record_vote_def node_ok_def)
next
  case (fail j args now won rf')
  have "role_ok ids (V i) (counted c' i) i rf' \<and> rf_me rf' = rf_me (cl_node c i) \<and>
      rf_peers rf' = rf_peers (cl_node c i)"
    using ok unfolding node_ok_def
    by (intro collectVote_role [OF fail(4) _ _ d i mono sub]) auto
  with ok fail(1,2) show ?thesis by (simp add: record_vote_def node_ok_def)
qed

lemma nodes_ok_step:
  assumes inv: "calls_ok ids V c" and nodes: "nodes_ok ids V c" and d: "distinct ids"
    and fresh: "\<And>i. i \<in> set ids \<Longrightarrow> fresh_term (V i) (cl_node c i)"
    and step: "cluster_step save stored ids c i l c'"
  shows "nodes_ok ids (record_vote i l V) c'"
  unfolding nodes_ok_iff
proof
  fix k assume k: "k \<in> set ids"
  note mono = counted_step [OF inv nodes fresh step]
  note sub = counted_sub [OF calls_ok_step [OF inv nodes fresh step]]
  have ok: "node_ok ids (V k) (counted c k) k (cl_node c k)" using nodes k by (simp add: nodes_ok_iff)
  show "node_ok ids (record_vote i l V k) (counted c' k) k (cl_node c' k)"
  proof (cases "k = i")
    case True
    with node_ok_step [OF inv _ d _ mono sub step] ok k show ?thesis by simp
  next
    case False
    then have "cl_node c' k = cl_node c k" "record_vote i l V k = V k"
      using cluster_step_others [OF step] by (simp_all add: record_vote_def split: label.split)
    with node_ok_mono [OF ok _ _ order_refl _ mono sub k, of "cl_node c k"] ok show ?thesis
      by (simp add: role_defs node_ok_def)
  qed
qed

context stable_store
begin

lemma run_fresh_term:
  assumes "runs_ok save stored ids c0 V c" and "nodes_ok ids V c" and "-1 \<notin> set ids" and "i \<in> set ids"
  shows "fresh_term (V i) (cl_node c i)"
proof -
  have "-1 \<notin> snd ` set (V i)" using assms(2-4) by (auto simp: nodes_ok_def)
  moreover have "node_run save stored ids (cl_node c0 i) (V i) (cl_node c i)"
    using assms(1,4) by (simp add: runs_ok_def)
  ultimately have "covers (V i) (volatile (cl_node c i))" using run_covers by blast
  then show ?thesis by (fastforce simp: covers_def fresh_term_def volatile_def)
qed

lemma cluster_invariant:
  assumes "cluster_run save stored ids c0 V c" and "fresh_cluster ids c0"
    and "distinct ids" and "-1 \<notin> set ids"
  shows "runs_ok save stored ids c0 V c \<and> calls_ok ids V c \<and> nodes_ok ids V c"
  using assms(1)
proof induction
  case init
  from assms(2) show ?case
    by (auto simp: fresh_cluster_def runs_ok_def calls_ok_def nodes_ok_def role_ok_def issued_def
        intro: node_run.init)
next
  case (step V c i l c')
  then have inv: "runs_ok save stored ids c0 V c" "calls_ok ids V c" "nodes_ok ids V c" by simp_all
  note fresh = run_fresh_term [OF inv(1,3) assms(4)]
  show ?case
    using runs_ok_step [OF inv(1) step.hyps(2)] calls_ok_step [OF inv(2,3) fresh step.hyps(2)]
      nodes_ok_step [OF inv(2,3) assms(3) fresh step.hyps(2)] by blast
qed

lemma election_safe:
  assumes "cluster_run save stored ids c0 V c" and "fresh_cluster ids c0"
    and "distinct ids" and "-1 \<notin> set ids" and "odd (length ids)"
    and "i \<in> set ids" "rf_role (cl_node c i) = Leader"
    and "j \<in> set ids" "rf_role (cl_node c j) = Leader"
    and "rf_currentTerm (cl_node c i) = rf_currentTerm (cl_node c j)"
  shows "i = j"
proof -
  note inv = cluster_invariant [OF assms(1-4)]
  let ?t = "rf_currentTerm (cl_node c i)"
  have vote: "(?t, h) \<in> set (V k)"
    if h: "h \<in> set ids" "rf_role (cl_node c h) = Leader" "rf_currentTerm (cl_node c h) = ?t"
      and k: "k \<in> insert h (counted c h ?t)" for h k
  proof (cases "k = h")
    case True
    have "role_ok ids (V h) (counted c h) h (cl_node c h)" using inv h(1) by (simp add: nodes_ok_def)
    with h True show ?thesis by (simp add: role_ok_def)
  next
    case False
    with k obtain a r where "(h, k, a, r) \<in> cl_reps c" "rvr_VoteGranted r" "rva_Term a = ?t"
      by (auto simp: counted_def)
    with inv calls_okD(3) show ?thesis by metis
  qed
  have "wins ids (insert i (counted c i ?t))" "wins ids (insert j (counted c j ?t))"
    using inv assms(6-10) by (auto simp: nodes_ok_def role_ok_def)
  from wins_intersect [OF assms(5) this] obtain k where k: "k \<in> set ids"
    and both: "k \<in> insert i (counted c i ?t)" "k \<in> insert j (counted c j ?t)" by blast
  have "(?t, i) \<in> set (V k)" "(?t, j) \<in> set (V k)"
    using vote [OF assms(6,7) refl both(1)] vote [OF assms(8,9) assms(10)[symmetric] both(2)] .
  moreover have "node_run save stored ids (cl_node c0 k) (V k) (cl_node c k)"
    "-1 \<notin> snd ` set (V k)"
    using inv k assms(4) by (auto simp: runs_ok_def nodes_ok_def)
  ultimately show ?thesis using votes_unique by blast
qed

end

section \<open>The two races\<close>





end
