(* ===== verification/RaftConnect.thy ===== *)
theory RaftConnect
  imports Raft
begin

text \<open>
  \<^verbatim>\<open>connectToPeers\<close> of \<^verbatim>\<open>src/raft/raft.go\<close>: a client for every other peer, with retries. The outcome of
  \<^verbatim>\<open>grpc.NewClient\<close>, a library, is an argument of every attempt. \<open>connect_ends\<close> says that the loop ends and with what.
\<close>

datatype dial = DialOk | DialErr | DialNil

text \<open>
  The first loop, over the peer addresses in the order of the map with what each attempt gives: the peers that have a
  client and those that failed, and false if the error for a nil connection is returned.
\<close>

fun connectAll :: "int \<Rightarrow> (int \<times> dial) list \<Rightarrow> int list \<Rightarrow> int list \<Rightarrow> int list \<times> int list \<times> bool" where
  "connectAll me [] peers failed = (peers, failed, True)"
| "connectAll me ((i, d) # ds) peers failed =
     (if i = me then connectAll me ds peers failed
      else (case d of
          DialErr \<Rightarrow> connectAll me ds peers (failed @ [i])
        | DialNil \<Rightarrow> (peers, failed, False)
        | DialOk \<Rightarrow> connectAll me ds (List.insert i peers) failed))"

definition maxRetry :: nat where "maxRetry = 30"

text \<open>
  The second loop, with what its attempts give: the retries left, the peers with a client and those without;
  \<^const>\<open>None\<close> if it makes more attempts than outcomes are given.
\<close>

fun connectRetry :: "bool list \<Rightarrow> nat \<Rightarrow> int list \<Rightarrow> int list \<Rightarrow> (nat \<times> int list \<times> int list) option" where
  "connectRetry oks n peers failed =
     (if failed = [] \<or> n = 0 then Some (n, peers, failed)
      else (case oks of
          [] \<Rightarrow> None
        | ok # oks' \<Rightarrow>
            if ok then connectRetry oks' n (List.insert (last failed) peers) (butlast failed)
            else connectRetry oks' (n - 1) peers failed))"

declare connectRetry.simps [simp del]

text \<open>The result is false if an error is returned, which ends the process.\<close>

definition connectToPeers :: "(int \<times> dial) list \<Rightarrow> bool list \<Rightarrow> 'ps Raftserver \<Rightarrow> (bool \<times> 'ps Raftserver) option" where
  "connectToPeers ds oks rf = (case connectAll (rf_me rf) ds (rf_peers rf) [] of
       (peers, failed, ok) \<Rightarrow>
         if \<not> ok then Some (False, rf\<lparr>rf_peers := peers\<rparr>)
         else do {
           (n, peers', _) \<leftarrow> connectRetry oks maxRetry peers failed;
           Some (n \<noteq> 0, rf\<lparr>rf_peers := peers'\<rparr>)
         })"

text \<open>What the first loop does, one quantity at a time.\<close>

lemma connectAll_bound: "connectAll me ds peers failed = (ps, fs, ok) \<Longrightarrow> length fs \<le> length failed + length ds"
  by (induction me ds peers failed rule: connectAll.induct) (auto split: if_splits dial.splits)

lemma connectAll_ok: "connectAll me ds peers failed = (ps, fs, ok) \<Longrightarrow> DialNil \<notin> snd ` set ds \<Longrightarrow> ok"
  by (induction me ds peers failed rule: connectAll.induct) (auto split: if_splits dial.splits)

lemma connectAll_peers:
  "connectAll me ds peers failed = (ps, fs, True) \<Longrightarrow> set ps \<union> set fs = set peers \<union> set failed \<union> (fst ` set ds - {me})"
proof (induction me ds peers failed rule: connectAll.induct)
  case (2 me i d ds peers failed)
  show ?case
  proof (cases "i = me")
    case True
    with 2 show ?thesis by simp
  next
    case False
    with 2 show ?thesis by (cases d) auto
  qed
qed simp

text \<open>The second loop ends: every round uses up a retry or connects a peer.\<close>

lemma set_last_butlast: "xs \<noteq> [] \<Longrightarrow> insert (last xs) (set (butlast xs)) = set xs"
  by (induction xs rule: rev_induct) auto

lemma connectRetry_ends:
  "length failed + n \<le> length oks \<Longrightarrow> \<exists>m ps fs. connectRetry oks n peers failed = Some (m, ps, fs) \<and>
     set ps \<union> set fs = set peers \<union> set failed \<and> (m = 0 \<or> fs = []) \<and> (n = 0 \<or> n \<le> length [b \<leftarrow> oks. \<not> b] \<or> 0 < m)"
proof (induction oks n peers failed rule: connectRetry.induct)
  case (1 oks n peers failed)
  show ?case
  proof (cases "failed = [] \<or> n = 0")
    case True
    then show ?thesis by (subst connectRetry.simps) auto
  next
    case False
    with 1(3) obtain ok oks' where oks: "oks = ok # oks'" by (cases oks) auto
    show ?thesis
    proof (cases ok)
      case True
      have "length failed = Suc (length (butlast failed))" using False by (cases failed) simp_all
      then have "length (butlast failed) + n \<le> length oks'" using 1(3) oks by simp
      from 1(1) [OF False oks True this] obtain m ps fs where
        IH: "connectRetry oks' n (List.insert (last failed) peers) (butlast failed) = Some (m, ps, fs)"
          "set ps \<union> set fs = set (List.insert (last failed) peers) \<union> set (butlast failed)"
          "m = 0 \<or> fs = []" "n = 0 \<or> n \<le> length [b \<leftarrow> oks'. \<not> b] \<or> 0 < m" by blast
      have "connectRetry oks n peers failed = Some (m, ps, fs)" using IH(1) False oks True by (subst connectRetry.simps) simp
      moreover have "set ps \<union> set fs = set peers \<union> set failed"
        using IH(2) set_last_butlast [of failed] False by auto
      ultimately show ?thesis using IH(3,4) oks True by auto
    next
      case ok: False
      have "length failed + (n - 1) \<le> length oks'" using 1(3) False oks by simp
      from 1(2) [OF False oks ok this] obtain m ps fs where
        IH: "connectRetry oks' (n - 1) peers failed = Some (m, ps, fs)" "set ps \<union> set fs = set peers \<union> set failed"
          "m = 0 \<or> fs = []" "n - 1 = 0 \<or> n - 1 \<le> length [b \<leftarrow> oks'. \<not> b] \<or> 0 < m" by blast
      have "connectRetry oks n peers failed = Some (m, ps, fs)" using IH(1) False oks ok by (subst connectRetry.simps) simp
      moreover have "n = 0 \<or> n \<le> length [b \<leftarrow> oks. \<not> b] \<or> 0 < m" using IH(4) oks ok by auto
      ultimately show ?thesis using IH(2,3) by blast
    qed
  qed
qed

text \<open>
  \<^verbatim>\<open>connectToPeers\<close> returns, after at most one attempt for every peer and thirty more. If fewer than thirty attempts
  fail it succeeds, and then the peers are those that \<^const>\<open>Make\<close> gives the rest of the model.
\<close>

lemma connect_ends:
  assumes "DialNil \<notin> snd ` set ds" and "length ds + maxRetry \<le> length oks" and "rf_peers rf = []"
  shows "\<exists>ok rf'. connectToPeers ds oks rf = Some (ok, rf') \<and> (length [b \<leftarrow> oks. \<not> b] < maxRetry \<longrightarrow> ok) \<and>
     (ok \<longrightarrow> set (rf_peers rf') = set (rf_peers (Make (map fst ds) (rf_me rf) ps now)))"
proof -
  obtain qs fs ok where a: "connectAll (rf_me rf) ds [] [] = (qs, fs, ok)" by (cases "connectAll (rf_me rf) ds [] []") auto
  have ok: ok using connectAll_ok [OF a assms(1)] .
  then have s: "set qs \<union> set fs = fst ` set ds - {rf_me rf}" using connectAll_peers [of "rf_me rf" ds "[]" "[]"] a by simp
  from connectAll_bound [OF a] assms(2) have "length fs + maxRetry \<le> length oks" by simp
  from connectRetry_ends [OF this, of qs] obtain m ps' gs where r: "connectRetry oks maxRetry qs fs = Some (m, ps', gs)"
    "set ps' \<union> set gs = set qs \<union> set fs" "m = 0 \<or> gs = []" "maxRetry \<le> length [b \<leftarrow> oks. \<not> b] \<or> 0 < m"
    by (auto simp: maxRetry_def)
  have e: "connectToPeers ds oks rf = Some (m \<noteq> 0, rf\<lparr>rf_peers := ps'\<rparr>)"
    using a ok r(1) assms(3) by (simp add: connectToPeers_def)
  have "set ps' = set (rf_peers (Make (map fst ds) (rf_me rf) ps now))" if "m \<noteq> 0"
    using that r(2,3) s by (auto simp: Make_def)
  with e r(4) show ?thesis by auto
qed

end
