(* ===== verification/Wal.thy ===== *)
theory Wal
  imports Prelude "HOL-Library.List_Lexorder" "HOL-Library.Char_ord"
begin

text \<open>
  The write-ahead log of \<^verbatim>\<open>src/wal\<close>, in its binary format (the only one the service uses).
  A log is a directory of segment files; the handle keeps the segments, the entries of the last
  one and those of the recently read ones.

  The directory is a list of named files. A system call on a file that exists succeeds; one on a
  file that does not exist fails. Indices are natural numbers: they are 64 bit wide in the code,
  and grow by one with every entry. The cache of the segments (tinylru) is a parameter.
\<close>

section \<open>The directory\<close>

type_synonym dir = "(string \<times> bytes) list"

datatype fs_op = Create string | Append string bytes | Remove string | Rename string string

text \<open>One system call; the flag tells whether it succeeded.\<close>

fun fs_do :: "fs_op \<Rightarrow> dir \<Rightarrow> bool \<times> dir" where
  "fs_do (Create n) d = (True, AList.update n [] d)"
| "fs_do (Append n b) d = (case map_of d n of
       None \<Rightarrow> (False, d) | Some x \<Rightarrow> (True, AList.update n (x @ b) d))"
| "fs_do (Remove n) d = (case map_of d n of
       None \<Rightarrow> (False, d) | Some x \<Rightarrow> (True, AList.delete n d))"
| "fs_do (Rename a b) d = (case map_of d a of
       None \<Rightarrow> (False, d) | Some x \<Rightarrow> (True, AList.update b x (AList.delete a d)))"

text \<open>A sequence of calls that ends at the first one to fail.\<close>

fun fs_run :: "fs_op list \<Rightarrow> dir \<Rightarrow> bool \<times> dir" where
  "fs_run [] d = (True, d)"
| "fs_run (c # cs) d = (let (ok, d') = fs_do c d in if ok then fs_run cs d' else (False, d'))"

text \<open>\<^verbatim>\<open>os.ReadDir\<close> lists the names in order.\<close>

definition ReadDir :: "dir \<Rightarrow> string list" where
  "ReadDir d = sort (map fst d)"

section \<open>Names of segments\<close>

text \<open>The \<open>w\<close> last digits of a number in a base up to 16.\<close>

definition digit :: "nat \<Rightarrow> char" where
  "digit n = char_of (if n < 10 then 48 + n else 87 + n)"

fun digits :: "nat \<Rightarrow> nat \<Rightarrow> nat \<Rightarrow> string" where
  "digits b 0 n = []"
| "digits b (Suc w) n = digits b w (n div b) @ [digit (n mod b)]"

text \<open>\<^verbatim>\<open>%020d\<close>; an index has at most twenty digits.\<close>

definition segmentName :: "nat \<Rightarrow> string" where
  "segmentName index = digits 10 20 index"

text \<open>\<^verbatim>\<open>strconv.ParseUint\<close> in base 10 with 64 bits.\<close>

fun parseDigits :: "string \<Rightarrow> nat \<Rightarrow> nat option" where
  "parseDigits [] acc = Some acc"
| "parseDigits (c # cs) acc =
     (if 48 \<le> (of_char c :: nat) \<and> (of_char c :: nat) \<le> 57
      then parseDigits cs (acc * 10 + (of_char c - 48)) else None)"

definition ParseUint :: "string \<Rightarrow> nat option" where
  "ParseUint s = (if s = [] then None else (case parseDigits s 0 of
     None \<Rightarrow> None | Some n \<Rightarrow> if n < 2 ^ 64 then Some n else None))"

definition hasSuffix :: "string \<Rightarrow> string \<Rightarrow> bool" where
  "hasSuffix s suf \<longleftrightarrow> length suf \<le> length s \<and> drop (length s - length suf) s = suf"

abbreviation START :: string where "START \<equiv> ''.START''"
abbreviation END :: string where "END \<equiv> ''.END''"
abbreviation TEMP :: string where "TEMP \<equiv> ''TEMP''"

section \<open>Entries\<close>

datatype wal_err = ErrCorrupt | ErrClosed | ErrNotFound | ErrOutOfRange
  | OutOfOrder nat nat | IOError | InvalidSeek

text \<open>\<^verbatim>\<open>binary.PutUvarint\<close> and \<^verbatim>\<open>binary.Uvarint\<close>: the value and the number of
  bytes read, which is not positive if there is no value.\<close>

function putUvarint :: "nat \<Rightarrow> bytes" where
  "putUvarint x = (if x < 128 then [of_nat x] else of_nat (x mod 128 + 128) # putUvarint (x div 128))"
  by pat_completeness auto
termination
  by (relation "measure id") auto

declare putUvarint.simps [simp del]

fun uvarint :: "nat \<Rightarrow> nat \<Rightarrow> bytes \<Rightarrow> nat \<times> int" where
  "uvarint i x [] = (0, 0)"
| "uvarint i x (b # bs) =
     (if i = 10 then (0, - (int i + 1))
      else if unat b < 128 then
        (if i = 9 \<and> unat b > 1 then (0, - (int i + 1)) else (x + unat b * 2 ^ (7 * i), int i + 1))
      else uvarint (Suc i) (x + (unat b mod 128) * 2 ^ (7 * i)) bs)"

abbreviation Uvarint :: "bytes \<Rightarrow> nat \<times> int" where "Uvarint bs \<equiv> uvarint 0 0 bs"

definition appendBinaryEntry :: "bytes \<Rightarrow> bytes \<Rightarrow> bytes \<times> (nat \<times> nat)" where
  "appendBinaryEntry dst data =
     (let dst' = dst @ putUvarint (length data) @ data in (dst', (length dst, length dst')))"

definition loadNextBinaryEntry :: "bytes \<Rightarrow> wal_err + nat" where
  "loadNextBinaryEntry data =
     (let (sz, n) = Uvarint data in
      if n \<le> 0 then Inl ErrCorrupt
      else if length data - nat n < sz then Inl ErrCorrupt
      else Inr (nat n + sz))"

section \<open>Segments and the log\<close>

record segment =
  sg_path :: string
  sg_index :: nat
  sg_ebuf :: bytes
  sg_epos :: "(nat \<times> nat) list"

record Batch =
  b_entries :: "(nat \<times> nat) list"
  b_datas :: bytes

text \<open>
  The cache by segment number: store one as the most recent (with the one that had to go), the
  most recent one, all of them, and an empty cache of a given size. The code keeps pointers to
  the segments there; it empties the cache whenever it renumbers them.
\<close>

record 'c lru =
  lru_set :: "nat \<Rightarrow> 'c \<Rightarrow> nat option \<times> 'c"
  lru_front :: "'c \<Rightarrow> nat option"
  lru_keys :: "'c \<Rightarrow> nat list"
  lru_empty :: "nat \<Rightarrow> 'c"

record 'c Log =
  lg_SegmentSize :: nat
  lg_CacheSize :: nat
  lg_closed :: bool
  lg_corrupt :: bool
  lg_segments :: "segment list"
  lg_firstIndex :: nat
  lg_lastIndex :: nat
  lg_sfile :: string
  lg_scache :: 'c
  lg_dir :: dir

definition setSegment :: "nat \<Rightarrow> segment \<Rightarrow> 'c Log \<Rightarrow> 'c Log" where
  "setSegment i s l = l\<lparr>lg_segments := (lg_segments l)[i := s]\<rparr>"

text \<open>The loop of \<^verbatim>\<open>loadSegmentEntries\<close> over what is left of the file.\<close>

function loadEntries :: "bytes \<Rightarrow> nat \<Rightarrow> wal_err + (nat \<times> nat) list" where
  "loadEntries data pos =
     (if data = [] then Inr []
      else (case loadNextBinaryEntry data of
          Inl e \<Rightarrow> Inl e
        | Inr n \<Rightarrow> (case loadEntries (drop n data) (pos + n) of
              Inl e \<Rightarrow> Inl e | Inr epos \<Rightarrow> Inr ((pos, pos + n) # epos))))"
  by pat_completeness auto
termination
  by (relation "measure (\<lambda>(data, pos). length data)")
     (auto simp: loadNextBinaryEntry_def split: if_splits prod.splits)

declare loadEntries.simps [simp del]

definition loadSegmentEntries :: "dir \<Rightarrow> segment \<Rightarrow> wal_err + segment" where
  "loadSegmentEntries d s = (case map_of d (sg_path s) of
       None \<Rightarrow> Inr s
     | Some data \<Rightarrow> (case loadEntries data 0 of
           Inl e \<Rightarrow> Inl e
         | Inr epos \<Rightarrow> Inr (s\<lparr>sg_ebuf := data, sg_epos := epos\<rparr>)))"

text \<open>Binary search for the segment that holds an index; -1 if there is none.\<close>

function findSegment_loop :: "segment list \<Rightarrow> nat \<Rightarrow> nat \<Rightarrow> nat \<Rightarrow> int" where
  "findSegment_loop segs index i j =
     (if i < j then
        (let h = i + (j - i) div 2 in
         if index \<ge> sg_index (segs ! h) then findSegment_loop segs index (h + 1) j
         else findSegment_loop segs index i h)
      else int i - 1)"
  by pat_completeness auto
termination
  by (relation "measure (\<lambda>(segs, index, i, j). j - i)") auto

declare findSegment_loop.simps [simp del]

definition findSegment :: "'c Log \<Rightarrow> nat \<Rightarrow> int" where
  "findSegment l index = findSegment_loop (lg_segments l) index 0 (length (lg_segments l))"

section \<open>The cache\<close>

definition dropEntries :: "segment \<Rightarrow> segment" where
  "dropEntries s = s\<lparr>sg_ebuf := [], sg_epos := []\<rparr>"

definition pushCache :: "'c lru \<Rightarrow> nat \<Rightarrow> 'c Log \<Rightarrow> 'c Log" where
  "pushCache lru segIdx l =
     (let (evicted, c) = lru_set lru segIdx (lg_scache l);
          l' = l\<lparr>lg_scache := c\<rparr>
      in (case evicted of
            None \<Rightarrow> l'
          | Some v \<Rightarrow> setSegment v (dropEntries (lg_segments l' ! v)) l'))"

definition clearCache :: "'c lru \<Rightarrow> 'c Log \<Rightarrow> 'c Log" where
  "clearCache lru l =
     (fold (\<lambda>v l. setSegment v (dropEntries (lg_segments l ! v)) l) (lru_keys lru (lg_scache l)) l)
       \<lparr>lg_scache := lru_empty lru (lg_CacheSize l)\<rparr>"

text \<open>
  A position of a segment and the log in which its entries are loaded. An index below every
  segment makes the code index the segments with -1.
\<close>

definition loadSegment :: "'c lru \<Rightarrow> nat \<Rightarrow> 'c Log \<Rightarrow> ((wal_err + nat) \<times> 'c Log) option" where
  "loadSegment lru index l = do {
     lseg \<leftarrow> at (lg_segments l) (int (length (lg_segments l)) - 1);
     if index \<ge> sg_index lseg then Some (Inr (length (lg_segments l) - 1), l)
     else (
       let cached = (case lru_front lru (lg_scache l) of
             None \<Rightarrow> None
           | Some k \<Rightarrow> (let s = lg_segments l ! k in
                if index \<ge> sg_index s \<and> index < sg_index s + length (sg_epos s) then Some k else None))
       in (case cached of
             Some k \<Rightarrow> Some (Inr k, l)
           | None \<Rightarrow> do {
               let idx = findSegment l index;
               s \<leftarrow> at (lg_segments l) idx;
               (case (if sg_epos s = [] then loadSegmentEntries (lg_dir l) s else Inr s) of
                  Inl e \<Rightarrow> Some (Inl e, l)
                | Inr s' \<Rightarrow> Some (Inr (nat idx), pushCache lru (nat idx) (setSegment (nat idx) s' l)))
             }))
   }"

section \<open>Writing\<close>

definition Batch_Write :: "nat \<Rightarrow> bytes \<Rightarrow> Batch \<Rightarrow> Batch" where
  "Batch_Write index data b =
     \<lparr>b_entries = b_entries b @ [(index, length data)], b_datas = b_datas b @ data\<rparr>"

definition Batch_Clear :: "Batch \<Rightarrow> Batch" where
  "Batch_Clear b = \<lparr>b_entries = [], b_datas = []\<rparr>"

text \<open>Appending to the open tail file.\<close>

definition sfile_Write :: "bytes \<Rightarrow> 'c Log \<Rightarrow> 'c Log" where
  "sfile_Write bs l = l\<lparr>lg_dir := snd (fs_do (Append (lg_sfile l) bs) (lg_dir l))\<rparr>"

definition cycle :: "'c lru \<Rightarrow> 'c Log \<Rightarrow> 'c Log" where
  "cycle lru l =
     (let l1 = pushCache lru (length (lg_segments l) - 1) l;
          name = segmentName (lg_lastIndex l1 + 1)
      in l1\<lparr>lg_sfile := name, lg_dir := snd (fs_do (Create name) (lg_dir l1)),
            lg_segments := lg_segments l1 @
              [\<lparr>sg_path = name, sg_index = lg_lastIndex l1 + 1, sg_ebuf = [], sg_epos = []\<rparr>]\<rparr>)"

definition tail :: "'c Log \<Rightarrow> segment" where
  "tail l = last (lg_segments l)"

definition setTail :: "segment \<Rightarrow> 'c Log \<Rightarrow> 'c Log" where
  "setTail s l = setSegment (length (lg_segments l) - 1) s l"

text \<open>The order check: the first entry that is out of order, with the index it should have.\<close>

fun checkOrder :: "nat \<Rightarrow> (nat \<times> nat) list \<Rightarrow> (nat \<times> nat) option" where
  "checkOrder lastIndex [] = None"
| "checkOrder lastIndex ((index, sz) # es) =
     (if index \<noteq> lastIndex + 1 then Some (lastIndex + 1, index) else checkOrder (lastIndex + 1) es)"

text \<open>
  The loop over the entries: each is added to the tail in memory; a tail that has reached its
  size is written out and a new one begun. \<open>mark\<close> is where the unwritten part starts.
\<close>

fun writeEntries :: "'c lru \<Rightarrow> (nat \<times> nat) list \<Rightarrow> bytes \<Rightarrow> nat \<Rightarrow> 'c Log \<Rightarrow> (nat \<times> 'c Log) option" where
  "writeEntries lru [] datas mark l = Some (mark, l)"
| "writeEntries lru ((index, sz) # es) datas mark l = do {
     data \<leftarrow> slice_to datas (int sz);
     let s = tail l;
     let (ebuf, epos) = appendBinaryEntry (sg_ebuf s) data;
     let l1 = setTail (s\<lparr>sg_ebuf := ebuf, sg_epos := sg_epos s @ [epos]\<rparr>) l;
     rest \<leftarrow> slice_from datas (int sz);
     if length ebuf \<ge> lg_SegmentSize l1
     then writeEntries lru es rest 0
            (cycle lru ((sfile_Write (drop mark ebuf) l1)\<lparr>lg_lastIndex := index\<rparr>))
     else writeEntries lru es rest mark l1
   }"

definition writeBatch :: "'c lru \<Rightarrow> Batch \<Rightarrow> 'c Log \<Rightarrow> ((wal_err + unit) \<times> Batch \<times> 'c Log) option" where
  "writeBatch lru b l = (case checkOrder (lg_lastIndex l) (b_entries b) of
       Some (need, get) \<Rightarrow> Some (Inl (OutOfOrder need get), b, l)
     | None \<Rightarrow> do {
         s \<leftarrow> at (lg_segments l) (int (length (lg_segments l)) - 1);
         let l1 = (if length (sg_ebuf s) > lg_SegmentSize l then cycle lru l else l);
         (mark, l2) \<leftarrow> writeEntries lru (b_entries b) (b_datas b) (length (sg_ebuf (tail l1))) l1;
         let rest = drop mark (sg_ebuf (tail l2));
         if rest \<noteq> [] then do {
           e \<leftarrow> at (b_entries b) (int (length (b_entries b)) - 1);
           Some (Inr (), Batch_Clear b, (sfile_Write rest l2)\<lparr>lg_lastIndex := fst e\<rparr>)
         } else Some (Inr (), Batch_Clear b, l2)
       })"

definition Write :: "'c lru \<Rightarrow> nat \<Rightarrow> bytes \<Rightarrow> 'c Log \<Rightarrow> ((wal_err + unit) \<times> 'c Log) option" where
  "Write lru index data l =
     (if lg_corrupt l then Some (Inl ErrCorrupt, l)
      else if lg_closed l then Some (Inl ErrClosed, l)
      else do {
        (r, b, l') \<leftarrow> writeBatch lru (Batch_Write index data \<lparr>b_entries = [], b_datas = []\<rparr>) l;
        Some (r, l')
      })"

definition WriteBatch :: "'c lru \<Rightarrow> Batch \<Rightarrow> 'c Log \<Rightarrow> ((wal_err + unit) \<times> Batch \<times> 'c Log) option" where
  "WriteBatch lru b l =
     (if lg_corrupt l then Some (Inl ErrCorrupt, b, l)
      else if lg_closed l then Some (Inl ErrClosed, b, l)
      else if b_entries b = [] then Some (Inr (), b, l)
      else writeBatch lru b l)"

section \<open>Reading\<close>

definition Read :: "'c lru \<Rightarrow> nat \<Rightarrow> 'c Log \<Rightarrow> ((wal_err + bytes) \<times> 'c Log) option" where
  "Read lru index l =
     (if lg_corrupt l \<or> lg_closed l then Some (Inl ErrCorrupt, l)
      else if index = 0 \<or> index < lg_firstIndex l \<or> index > lg_lastIndex l
      then Some (Inl ErrNotFound, l)
      else do {
        (r, l1) \<leftarrow> loadSegment lru index l;
        (case r of
           Inl e \<Rightarrow> Some (Inl e, l1)
         | Inr k \<Rightarrow> do {
             let s = lg_segments l1 ! k;
             (pos, end) \<leftarrow> at (sg_epos s) (int index - int (sg_index s));
             upto \<leftarrow> slice_to (sg_ebuf s) (int end);
             edata \<leftarrow> slice_from upto (int pos);
             let (sz, n) = Uvarint edata;
             if n \<le> 0 then Some (Inl ErrCorrupt, l1)
             else if length edata - nat n < sz then Some (Inl ErrCorrupt, l1)
             else Some (Inr (take sz (drop (nat n) edata)), l1)
           })
      })"

definition ClearCache :: "'c lru \<Rightarrow> 'c Log \<Rightarrow> (wal_err + unit) \<times> 'c Log" where
  "ClearCache lru l =
     (if lg_corrupt l then (Inl ErrCorrupt, l)
      else if lg_closed l then (Inl ErrClosed, l)
      else (Inr (), clearCache lru l))"

definition Close :: "'c Log \<Rightarrow> (wal_err + unit) \<times> 'c Log" where
  "Close l =
     (if lg_closed l then (Inl (if lg_corrupt l then ErrCorrupt else ErrClosed), l)
      else ((if lg_corrupt l then Inl ErrCorrupt else Inr ()), l\<lparr>lg_closed := True\<rparr>))"

section \<open>Truncation\<close>

text \<open>
  The system calls of a truncation, in the order the code makes them: the part of the segment
  that stays is written to a temporary file, which is renamed to a marked name; then the segments
  it replaces are deleted and the mark is removed from its name.
\<close>

definition truncOps :: "bytes \<Rightarrow> string \<Rightarrow> string list \<Rightarrow> string \<Rightarrow> fs_op list" where
  "truncOps ebuf marked victims name =
     [Create TEMP, Append TEMP ebuf, Rename TEMP marked] @ map Remove victims @ [Rename marked name]"

text \<open>The bytes of a segment from an index on, and up to it.\<close>

definition frontCut :: "nat \<Rightarrow> segment \<Rightarrow> bytes option" where
  "frontCut index s = do {
     epos \<leftarrow> slice_from (sg_epos s) (int index - int (sg_index s));
     e0 \<leftarrow> at epos 0;
     slice_from (sg_ebuf s) (int (fst e0))
   }"

definition backCut :: "nat \<Rightarrow> segment \<Rightarrow> bytes option" where
  "backCut index s = do {
     epos \<leftarrow> slice_to (sg_epos s) (int index - int (sg_index s) + 1);
     e \<leftarrow> at epos (int (length epos) - 1);
     slice_to (sg_ebuf s) (int (snd e))
   }"

definition frontOps :: "nat \<Rightarrow> bytes \<Rightarrow> nat \<Rightarrow> segment list \<Rightarrow> fs_op list" where
  "frontOps index ebuf segIdx segs =
     truncOps ebuf (segmentName index @ START) (map sg_path (take (segIdx + 1) segs)) (segmentName index)"

definition backOps :: "nat \<Rightarrow> bytes \<Rightarrow> nat \<Rightarrow> segment list \<Rightarrow> fs_op list" where
  "backOps index ebuf segIdx segs =
     truncOps ebuf (segmentName index @ END) (map sg_path (drop segIdx segs)) (segmentName index)"

text \<open>
  In \<^verbatim>\<open>truncateFront\<close> the cache is emptied after the segments have been renumbered; it holds
  pointers, so that the same segments lose their entries when it is emptied before.
\<close>

definition truncateFront :: "'c lru \<Rightarrow> nat \<Rightarrow> 'c Log \<Rightarrow> ((wal_err + unit) \<times> 'c Log) option" where
  "truncateFront lru index l =
     (if index = 0 \<or> lg_lastIndex l = 0 \<or> index < lg_firstIndex l \<or> index > lg_lastIndex l
      then Some (Inl ErrOutOfRange, l)
      else if index = lg_firstIndex l then Some (Inr (), l)
      else do {
        let segIdx = nat (findSegment l index);
        (r, l1) \<leftarrow> loadSegment lru index l;
        (case r of
           Inl e \<Rightarrow> Some (Inl e, l1)
         | Inr k \<Rightarrow> do {
             let s = lg_segments l1 ! k;
             ebuf \<leftarrow> frontCut index s;
             let name = segmentName index;
             let (ok, d) = fs_run (frontOps index ebuf segIdx (lg_segments l1)) (lg_dir l1);
             let l2 = l1\<lparr>lg_dir := d\<rparr>;
             if \<not> ok then Some (Inl IOError, l2)
             else do {
               let s1 = s\<lparr>sg_path := name, sg_index := index\<rparr>;
               let isTail = (segIdx = length (lg_segments l2) - 1);
               let l3 = (setSegment k s1 l2)\<lparr>lg_sfile := (if isTail then name else lg_sfile l2)\<rparr>;
               if isTail \<and> map_option length (map_of d name) \<noteq> Some (length ebuf)
               then Some (Inl InvalidSeek, l3)
               else (case (if isTail then loadSegmentEntries d s1 else Inr s1) of
                   Inl e \<Rightarrow> Some (Inl e, l3)
                 | Inr s2 \<Rightarrow>
                     (let l4 = clearCache lru (setSegment k s2 l3) in
                      Some (Inr (), l4\<lparr>lg_segments := drop segIdx (lg_segments l4),
                                       lg_firstIndex := index\<rparr>)))
             }
           })
      })"

definition TruncateFront :: "'c lru \<Rightarrow> nat \<Rightarrow> 'c Log \<Rightarrow> ((wal_err + unit) \<times> 'c Log) option" where
  "TruncateFront lru index l =
     (if lg_corrupt l then Some (Inl ErrCorrupt, l)
      else if lg_closed l then Some (Inl ErrClosed, l)
      else truncateFront lru index l)"

definition truncateBack :: "'c lru \<Rightarrow> nat \<Rightarrow> 'c Log \<Rightarrow> ((wal_err + unit) \<times> 'c Log) option" where
  "truncateBack lru index l =
     (if index = 0 \<or> lg_lastIndex l = 0 \<or> index < lg_firstIndex l \<or> index > lg_lastIndex l
      then Some (Inl ErrOutOfRange, l)
      else if index = lg_lastIndex l then Some (Inr (), l)
      else do {
        let segIdx = nat (findSegment l index);
        (r, l1) \<leftarrow> loadSegment lru index l;
        (case r of
           Inl e \<Rightarrow> Some (Inl e, l1)
         | Inr k \<Rightarrow> do {
             let s = lg_segments l1 ! k;
             ebuf \<leftarrow> backCut index s;
             let name = segmentName (sg_index s);
             let (ok, d) = fs_run (backOps (sg_index s) ebuf segIdx (lg_segments l1)) (lg_dir l1);
             let l2 = l1\<lparr>lg_dir := d\<rparr>;
             if \<not> ok then Some (Inl IOError, l2)
             else do {
               let l3 = l2\<lparr>lg_sfile := name\<rparr>;
               if map_option length (map_of d name) \<noteq> Some (length ebuf)
               then Some (Inl InvalidSeek, l3)
               else do {
                 let l4 = clearCache lru (setSegment k (s\<lparr>sg_path := name\<rparr>) l3);
                 let l5 = l4\<lparr>lg_segments := take (segIdx + 1) (lg_segments l4), lg_lastIndex := index\<rparr>;
                 (case loadSegmentEntries d (lg_segments l5 ! k) of
                    Inl e \<Rightarrow> Some (Inl e, l5)
                  | Inr s2 \<Rightarrow> Some (Inr (), setSegment k s2 l5))
               }
             }
           })
      })"

definition TruncateBack :: "'c lru \<Rightarrow> nat \<Rightarrow> 'c Log \<Rightarrow> ((wal_err + unit) \<times> 'c Log) option" where
  "TruncateBack lru index l =
     (if lg_corrupt l then Some (Inl ErrCorrupt, l)
      else if lg_closed l then Some (Inl ErrClosed, l)
      else truncateBack lru index l)"

section \<open>Opening\<close>

text \<open>
  The scan of the directory: the segments it holds, with the position of the last one marked
  START and of the first one marked END (-1 if there is none).
\<close>

fun scan :: "string list \<Rightarrow> int \<Rightarrow> int \<Rightarrow> segment list \<Rightarrow> int \<times> int \<times> segment list" where
  "scan [] startIdx endIdx segs = (startIdx, endIdx, segs)"
| "scan (name # names) startIdx endIdx segs =
     (if length name < 20 then scan names startIdx endIdx segs
      else (case ParseUint (take 20 name) of
          None \<Rightarrow> scan names startIdx endIdx segs
        | Some index \<Rightarrow>
            if index = 0 then scan names startIdx endIdx segs
            else (let isStart = (length name = 26 \<and> hasSuffix name START);
                      isEnd = (length name = 24 \<and> hasSuffix name END)
                  in if length name = 20 \<or> isStart \<or> isEnd
                     then scan names
                       (if isStart then int (length segs) else startIdx)
                       (if \<not> isStart \<and> isEnd \<and> endIdx = -1 then int (length segs) else endIdx)
                       (segs @ [\<lparr>sg_path = name, sg_index = index, sg_ebuf = [], sg_epos = []\<rparr>])
                     else scan names startIdx endIdx segs)))"

text \<open>A segment after its mark of \<open>n\<close> characters has been removed.\<close>

definition unmark :: "nat \<Rightarrow> segment \<Rightarrow> segment" where
  "unmark n s = s\<lparr>sg_path := take (length (sg_path s) - n) (sg_path s)\<rparr>"

text \<open>An interrupted \<^verbatim>\<open>truncateFront\<close> is completed.\<close>

definition cleanStart :: "nat \<Rightarrow> segment list \<Rightarrow> dir \<Rightarrow> (wal_err + segment list) \<times> dir" where
  "cleanStart startIdx segs d =
     (let org = segs ! startIdx;
          (ok, d') = fs_run (map (\<lambda>s. Remove (sg_path s)) (take startIdx segs) @
                             [Rename (sg_path org) (sg_path (unmark (length START) org))]) d
      in if ok then (Inr (unmark (length START) org # drop (startIdx + 1) segs), d')
         else (Inl IOError, d'))"

text \<open>An interrupted \<^verbatim>\<open>truncateBack\<close> is completed.\<close>

definition cleanEnd :: "nat \<Rightarrow> segment list \<Rightarrow> dir \<Rightarrow> (wal_err + segment list) \<times> dir" where
  "cleanEnd endIdx segs d =
     (let before = take endIdx segs;
          org = segs ! endIdx;
          kept = (if before \<noteq> [] \<and> sg_index (last before) = sg_index org then butlast before else before);
          (ok, d') = fs_run (map (\<lambda>s. Remove (sg_path s)) (rev (drop (endIdx + 1) segs)) @
                             [Rename (sg_path org) (sg_path (unmark (length END) org))]) d
      in if ok then (Inr (kept @ [unmark (length END) org]), d') else (Inl IOError, d'))"

text \<open>\<^verbatim>\<open>load\<close> on a new handle, whose directory may have changed even when it fails.\<close>

definition load :: "'c Log \<Rightarrow> (wal_err + unit) \<times> 'c Log" where
  "load l =
     (let (startIdx, endIdx, segs) = scan (ReadDir (lg_dir l)) (-1) (-1) [] in
      if segs = [] then
        (let name = segmentName 1 in
         (Inr (), l\<lparr>lg_segments := [\<lparr>sg_path = name, sg_index = 1, sg_ebuf = [], sg_epos = []\<rparr>],
                    lg_firstIndex := 1, lg_lastIndex := 0, lg_sfile := name,
                    lg_dir := snd (fs_do (Create name) (lg_dir l))\<rparr>))
      else if startIdx \<noteq> -1 \<and> endIdx \<noteq> -1 then (Inl ErrCorrupt, l)
      else (
        let (r, d) = (if startIdx \<noteq> -1 then cleanStart (nat startIdx) segs (lg_dir l)
                      else if endIdx \<noteq> -1 then cleanEnd (nat endIdx) segs (lg_dir l)
                      else (Inr segs, lg_dir l));
            l1 = l\<lparr>lg_dir := d\<rparr>
        in (case r of
              Inl e \<Rightarrow> (Inl e, l1)
            | Inr segs1 \<Rightarrow> (case loadSegmentEntries d (last segs1) of
                  Inl e \<Rightarrow> (Inl e, l1)
                | Inr lseg \<Rightarrow>
                    (Inr (), l1\<lparr>lg_segments := butlast segs1 @ [lseg],
                                lg_firstIndex := sg_index (hd segs1), lg_sfile := sg_path lseg,
                                lg_lastIndex := sg_index lseg + length (sg_epos lseg) - 1\<rparr>)))))"

definition DefaultSegmentSize :: nat where "DefaultSegmentSize = 20971520"
definition DefaultCacheSize :: nat where "DefaultCacheSize = 2"

definition Open :: "'c lru \<Rightarrow> int \<Rightarrow> int \<Rightarrow> dir \<Rightarrow> (wal_err + unit) \<times> 'c Log" where
  "Open lru segSize cacheSize d =
     (let cs = (if cacheSize \<le> 0 then DefaultCacheSize else nat cacheSize) in
      load \<lparr>lg_SegmentSize = (if segSize \<le> 0 then DefaultSegmentSize else nat segSize),
            lg_CacheSize = cs, lg_closed = False, lg_corrupt = False, lg_segments = [],
            lg_firstIndex = 0, lg_lastIndex = 0, lg_sfile = [], lg_scache = lru_empty lru cs,
            lg_dir = d\<rparr>)"

definition GetLastIndex :: "'c Log \<Rightarrow> nat" where "GetLastIndex l = lg_lastIndex l"
definition GetFirstIndex :: "'c Log \<Rightarrow> nat" where "GetFirstIndex l = lg_firstIndex l"

end
