(* ===== verification/WalFormat.thy ===== *)
theory WalFormat
  imports Wal
begin

text \<open>
  The file format of a segment: entries are read back as they were appended, a torn last entry
  is detected, and the decimal names of the segments are read back and listed in the order of
  their indices.
\<close>

section \<open>Variable-length sizes\<close>

lemma unat_byte: "x < 256 \<Longrightarrow> unat (of_nat x :: byte) = x"
  by (simp add: unat_of_nat take_bit_nat_eq_self)

lemma uvarint_step: "x div 128 * 2 ^ (7 * Suc i) + x mod 128 * 2 ^ (7 * i) = x * 2 ^ (7 * i)" for x :: nat
proof -
  have "x * 2 ^ (7 * i) = (x div 128 * 128 + x mod 128) * 2 ^ (7 * i)" by simp
  also have "\<dots> = x div 128 * 2 ^ (7 * Suc i) + x mod 128 * 2 ^ (7 * i)"
    by (simp only: distrib_right) (simp add: power_add)
  finally show ?thesis ..
qed

lemma uvarint_put_gen:
  "x < 2 ^ (64 - 7 * i) \<Longrightarrow> i \<le> 9 \<Longrightarrow>
   uvarint i acc (putUvarint x @ rest) = (acc + x * 2 ^ (7 * i), int i + int (length (putUvarint x)))"
proof (induction x arbitrary: i acc rule: putUvarint.induct)
  case (1 x)
  show ?case
  proof (cases "x < 128")
    case True
    have "\<not> (i = 9 \<and> x > 1)" using "1.prems" by auto
    with True "1.prems" show ?thesis by (simp add: putUvarint.simps [of x] unat_byte)
  next
    case False
    have i8: "i \<le> 8"
    proof (rule ccontr)
      assume "\<not> i \<le> 8"
      with "1.prems"(2) have "i = 9" by simp
      with "1.prems"(1) have "x < 2" by simp
      with False show False by simp
    qed
    have "64 - 7 * i = 7 + (64 - 7 * Suc i)" using i8 by simp
    then have "x < 128 * 2 ^ (64 - 7 * Suc i)"
      using "1.prems"(1) by (simp only: power_add) simp
    then have lt: "x div 128 < 2 ^ (64 - 7 * Suc i)" by (simp add: less_mult_imp_div_less mult.commute)
    have b: "unat (of_nat (x mod 128 + 128) :: byte) = x mod 128 + 128"
      by (rule unat_byte) simp
    have "uvarint i acc (putUvarint x @ rest) =
        uvarint (Suc i) (acc + x mod 128 * 2 ^ (7 * i)) (putUvarint (x div 128) @ rest)"
      using False i8 b by (simp add: putUvarint.simps [of x])
    also have "\<dots> = (acc + x mod 128 * 2 ^ (7 * i) + x div 128 * 2 ^ (7 * Suc i),
        int (Suc i) + int (length (putUvarint (x div 128))))"
      using "1.IH" [OF False lt] i8 by simp
    finally show ?thesis
      using False uvarint_step [of x i] by (simp add: putUvarint.simps [of x] add.commute)
  qed
qed

lemma uvarint_put:
  "x < 2 ^ 64 \<Longrightarrow> Uvarint (putUvarint x @ rest) = (x, int (length (putUvarint x)))"
  using uvarint_put_gen [of x 0 0 rest] by simp

lemma putUvarint_ne [simp]: "putUvarint x \<noteq> []" "0 < length (putUvarint x)"
  by (subst putUvarint.simps, simp)+

text \<open>A strict prefix of an encoded size holds no value.\<close>

lemma uvarint_prefix: "i + length (putUvarint x) \<le> 10 \<Longrightarrow> n < length (putUvarint x) \<Longrightarrow>
    uvarint i acc (take n (putUvarint x)) = (0, 0)"
proof (induction x arbitrary: i acc n rule: putUvarint.induct)
  case (1 x)
  show ?case
  proof (cases "x < 128 \<or> n = 0")
    case True
    with "1.prems" show ?thesis by (auto simp: putUvarint.simps [of x] split: if_splits)
  next
    case False
    then obtain m where n: "n = Suc m" by (cases n) auto
    have b: "unat (of_nat (x mod 128 + 128) :: byte) = x mod 128 + 128" by (rule unat_byte) simp
    have "i \<noteq> 10" using "1.prems"(1) by auto
    moreover have "uvarint (Suc i) (acc + x mod 128 * 2 ^ (7 * i)) (take m (putUvarint (x div 128))) = (0, 0)"
      using "1.IH" [of "Suc i" m] "1.prems" False n by (simp add: putUvarint.simps [of x])
    ultimately show ?thesis using False n b by (simp add: putUvarint.simps [of x])
  qed
qed

lemma putUvarint_length: "x < 2 ^ (7 * k) \<Longrightarrow> 0 < k \<Longrightarrow> length (putUvarint x) \<le> k"
proof (induction x arbitrary: k rule: putUvarint.induct)
  case (1 x)
  show ?case
  proof (cases "x < 128")
    case True
    with "1.prems" show ?thesis by (simp add: putUvarint.simps [of x])
  next
    case False
    then obtain m where k: "k = Suc m" "0 < m" using "1.prems" by (cases k; cases "k - 1") auto
    have "x < 2 ^ (7 * m) * 128" using "1.prems"(1) k by (simp add: power_add mult.commute)
    then have "x div 128 < 2 ^ (7 * m)" by (rule less_mult_imp_div_less)
    from "1.IH" [OF False this k(2)] False k show ?thesis by (simp add: putUvarint.simps [of x])
  qed
qed

section \<open>Entries of a segment\<close>

definition enc :: "bytes \<Rightarrow> bytes" where
  "enc e = putUvarint (length e) @ e"

definition enc_all :: "bytes list \<Rightarrow> bytes" where
  "enc_all es = concat (map enc es)"

fun layout :: "nat \<Rightarrow> bytes list \<Rightarrow> (nat \<times> nat) list" where
  "layout pos [] = []"
| "layout pos (e # es) = (pos, pos + length (enc e)) # layout (pos + length (enc e)) es"

definition small :: "bytes \<Rightarrow> bool" where
  "small e \<longleftrightarrow> length e < 2 ^ 63"

lemma enc_all_simps [simp]:
  "enc_all [] = []" "enc_all (e # es) = enc e @ enc_all es" "enc_all (xs @ ys) = enc_all xs @ enc_all ys"
  by (simp_all add: enc_all_def)

lemma enc_ne [simp]: "enc e \<noteq> []" "0 < length (enc e)"
  by (simp_all add: enc_def)

lemma enc_all_Nil_iff [simp]: "enc_all es = [] \<longleftrightarrow> es = []"
  by (cases es) auto

lemma layout_append: "layout pos (xs @ ys) = layout pos xs @ layout (pos + length (enc_all xs)) ys"
  by (induction xs arbitrary: pos) (simp_all add: add.assoc)

lemma length_layout [simp]: "length (layout pos es) = length es"
  by (induction es arbitrary: pos) simp_all

lemma layout_nth:
  "i < length es \<Longrightarrow> layout pos es ! i =
     (pos + length (enc_all (take i es)), pos + length (enc_all (take (Suc i) es)))"
  by (induction es arbitrary: pos i) (auto simp: nth_Cons' take_Cons' split: nat.splits)

lemma layout_Nil_iff [simp]: "layout pos es = [] \<longleftrightarrow> es = []"
  by (cases es) auto

lemma Uvarint_enc:
  assumes "small e"
  shows "Uvarint (enc e @ rest) = (length e, int (length (putUvarint (length e))))"
  using uvarint_put [of "length e" "e @ rest"] assms by (simp add: enc_def small_def)

lemma loadNext_enc:
  assumes "small e"
  shows "loadNextBinaryEntry (enc e @ rest) = Inr (length (enc e))"
  using Uvarint_enc [OF assms, of rest] by (simp add: loadNextBinaryEntry_def enc_def)

lemma loadEntries_enc:
  assumes "\<forall>e \<in> set es. small e"
  shows "loadEntries (enc_all es @ rest) pos = (case loadEntries rest (pos + length (enc_all es)) of
     Inl err \<Rightarrow> Inl err | Inr ps \<Rightarrow> Inr (layout pos es @ ps))"
  using assms
proof (induction es arbitrary: pos)
  case Nil
  then show ?case by (simp split: sum.split)
next
  case (Cons e es)
  then show ?case
    by (subst loadEntries.simps)
       (simp add: loadNext_enc add.assoc split: sum.split)
qed

lemma loadEntries_all:
  "\<forall>e \<in> set es. small e \<Longrightarrow> loadEntries (enc_all es) pos = Inr (layout pos es)"
  using loadEntries_enc [of es "[]" pos] by (simp add: loadEntries.simps [of "[]"])

text \<open>A part of an entry that is not all of it is corrupt.\<close>

lemma loadEntries_torn:
  assumes "small e" and "0 < n" and "n < length (enc e)"
  shows "loadEntries (take n (enc e)) pos = Inl ErrCorrupt"
proof -
  let ?u = "putUvarint (length e)"
  have "length e < 2 ^ (7 * 10)" using assms(1) by (simp add: small_def)
  then have len: "length ?u \<le> 10" by (rule putUvarint_length) simp
  have "loadNextBinaryEntry (take n (enc e)) = Inl ErrCorrupt"
  proof (cases "n < length ?u")
    case True
    with uvarint_prefix [of 0 "length e" n 0] len show ?thesis
      by (simp add: loadNextBinaryEntry_def enc_def)
  next
    case False
    then have t: "take n (enc e) = ?u @ take (n - length ?u) e" by (simp add: enc_def)
    have "Uvarint (take n (enc e)) = (length e, int (length ?u))"
      unfolding t by (rule uvarint_put) (use assms(1) in \<open>simp add: small_def\<close>)
    moreover have "length (take n (enc e)) - length ?u < length e"
      using assms(3) False by (simp add: enc_def)
    ultimately show ?thesis by (simp add: loadNextBinaryEntry_def)
  qed
  then show ?thesis using assms(2,3) by (subst loadEntries.simps) (auto simp: neq_Nil_conv)
qed

section \<open>Names of segments\<close>

lemma length_digits [simp]: "length (digits b w n) = w"
  by (induction w arbitrary: n) simp_all

lemma of_char_digit: "n < 10 \<Longrightarrow> (of_char (digit n) :: nat) = 48 + n"
  by (simp add: digit_def of_char_of)

lemma parseDigits_digits:
  "n < 10 ^ w \<Longrightarrow> parseDigits (digits 10 w n @ cs) acc = parseDigits cs (acc * 10 ^ w + n)"
proof (induction w arbitrary: n cs acc)
  case 0
  then show ?case by simp
next
  case (Suc w)
  have "n div 10 < 10 ^ w" using Suc.prems by (simp add: less_mult_imp_div_less mult.commute)
  moreover have "(of_char (digit (n mod 10)) :: nat) = 48 + n mod 10" "n mod 10 \<le> 9"
    using of_char_digit [of "n mod 10"] by simp_all
  ultimately show ?case
    using Suc.IH [of "n div 10" "digit (n mod 10) # cs" acc] by (simp add: algebra_simps)
qed

lemma length_segmentName [simp]: "length (segmentName n) = 20"
  by (simp add: segmentName_def)

lemma ParseUint_segmentName:
  assumes "n < 2 ^ 64"
  shows "ParseUint (segmentName n) = Some n"
proof -
  have "segmentName n \<noteq> []" using length_segmentName [of n] by (auto simp del: length_segmentName)
  with parseDigits_digits [of n 20 "[]" 0] assms show ?thesis
    by (simp add: ParseUint_def segmentName_def)
qed

lemma segmentName_inject: "m < 2 ^ 64 \<Longrightarrow> n < 2 ^ 64 \<Longrightarrow> segmentName m = segmentName n \<longleftrightarrow> m = n"
  using ParseUint_segmentName by (metis option.inject)

lemma string_less_append: "xs < ys \<Longrightarrow> length xs = length ys \<Longrightarrow> xs @ us < ys @ vs" for xs :: string
  unfolding list_less_def by (rule lexord_sufI) simp_all

lemma string_less_prefix: "ys \<noteq> [] \<Longrightarrow> xs < xs @ ys" for xs :: string
  unfolding list_less_def by (rule lexord_append_rightI) (auto simp: neq_Nil_conv)

lemma digit_less: "m < n \<Longrightarrow> n < 16 \<Longrightarrow> digit m < digit n"
  by (auto simp: digit_def less_char_def of_char_of)

lemma digits_less: "m < n \<Longrightarrow> n < b ^ w \<Longrightarrow> b \<le> 16 \<Longrightarrow> digits b w m < digits b w n"
proof (induction w arbitrary: m n)
  case 0
  then show ?case by simp
next
  case (Suc w)
  have b: "0 < b" using Suc.prems(2) by (cases b) simp_all
  have n: "n div b < b ^ w" using Suc.prems by (simp add: less_mult_imp_div_less mult.commute)
  show ?case
  proof (cases "m div b < n div b")
    case True
    from string_less_append [OF Suc.IH [OF True n Suc.prems(3)]] show ?thesis by simp
  next
    case False
    with Suc.prems have same: "m div b = n div b" by (meson div_le_mono le_antisym less_or_eq_imp_le not_less)
    then have "m mod b < n mod b"
      using Suc.prems(1) by (metis div_mult_mod_eq nat_add_left_cancel_less)
    moreover have "n mod b < 16" using b Suc.prems(3) mod_less_divisor [of b n] by linarith
    ultimately have "digit (m mod b) < digit (n mod b)" by (rule digit_less)
    then show ?thesis
      by (simp add: same list_less_def lexord_append_leftI)
  qed
qed

lemma segmentName_less:
  assumes "m < n" and "n < 2 ^ 64"
  shows "segmentName m @ us < segmentName n @ vs"
  unfolding segmentName_def
  by (rule string_less_append [OF digits_less]) (use assms in simp_all)

end
