(* ===== verification/WalLog.thy ===== *)
theory WalLog
  imports WalFormat
begin

text \<open>
  The log as a sequence of entries. \<open>log_rel\<close> relates a handle and its directory to the index
  of the first entry and the entries of each segment; reading and writing are then reading and
  extending that sequence. What is assumed of the cache is \<open>lru_ok\<close>.
\<close>

section \<open>What the cache promises\<close>

definition lru_ok :: "'c lru \<Rightarrow> bool" where
  "lru_ok lru \<longleftrightarrow>
     (\<forall>n. lru_keys lru (lru_empty lru n) = []) \<and>
     (\<forall>c k. lru_front lru c = Some k \<longrightarrow> k \<in> set (lru_keys lru c)) \<and>
     (\<forall>c k ev c'. lru_set lru k c = (ev, c') \<longrightarrow>
        k \<in> set (lru_keys lru c') \<and> set (lru_keys lru c') \<subseteq> insert k (set (lru_keys lru c)) \<and>
        (\<forall>v. ev = Some v \<longrightarrow> v \<noteq> k \<and> v \<in> set (lru_keys lru c)))"

section \<open>The sequence a log holds\<close>

definition seg_start :: "nat \<Rightarrow> bytes list list \<Rightarrow> nat \<Rightarrow> nat" where
  "seg_start f cs k = f + length (concat (take k cs))"

definition loaded :: "segment \<Rightarrow> bytes list \<Rightarrow> bool" where
  "loaded s es \<longleftrightarrow> sg_ebuf s = enc_all es \<and> sg_epos s = layout 0 es"

definition seg_ok :: "dir \<Rightarrow> segment \<Rightarrow> nat \<Rightarrow> bytes list \<Rightarrow> bool" where
  "seg_ok d s i es \<longleftrightarrow> sg_index s = i \<and> sg_path s = segmentName i \<and>
     map_of d (segmentName i) = Some (enc_all es) \<and> es \<noteq> [] \<and> (sg_epos s \<noteq> [] \<longrightarrow> loaded s es)"

definition tail_ok :: "dir \<Rightarrow> segment \<Rightarrow> nat \<Rightarrow> bytes list \<Rightarrow> bytes list \<Rightarrow> bool" where
  "tail_ok d s i es ps \<longleftrightarrow> sg_index s = i \<and> sg_path s = segmentName i \<and>
     map_of d (segmentName i) = Some (enc_all es) \<and> loaded s (es @ ps)"

text \<open>The names that \<^verbatim>\<open>load\<close> takes for segments.\<close>

definition wal_name :: "string \<Rightarrow> bool" where
  "wal_name n \<longleftrightarrow> 20 \<le> length n \<and> ParseUint (take 20 n) \<noteq> None \<and> ParseUint (take 20 n) \<noteq> Some 0 \<and>
     (length n = 20 \<or> length n = 26 \<and> hasSuffix n START \<or> length n = 24 \<and> hasSuffix n END)"

definition names_ok :: "dir \<Rightarrow> nat list \<Rightarrow> bool" where
  "names_ok d is \<longleftrightarrow> distinct (map fst d) \<and>
     (\<forall>n \<in> fst ` set d. wal_name n \<longrightarrow> n \<in> segmentName ` set is)"

definition starts :: "nat \<Rightarrow> bytes list list \<Rightarrow> nat list" where
  "starts f cs = map (seg_start f cs) [0..<Suc (length cs)]"

text \<open>
  The entries of the full segments are \<open>cs\<close>, those of the tail file \<open>es\<close>, and \<open>ps\<close> are entries
  added to the tail in memory and not yet written.
\<close>

definition log_rel :: "'c lru \<Rightarrow> 'c Log \<Rightarrow> nat \<Rightarrow> bytes list list \<Rightarrow> bytes list \<Rightarrow> bytes list \<Rightarrow> bool" where
  "log_rel lru l f cs es ps \<longleftrightarrow>
     length (lg_segments l) = Suc (length cs) \<and>
     (\<forall>k < length cs. seg_ok (lg_dir l) (lg_segments l ! k) (seg_start f cs k) (cs ! k)) \<and>
     tail_ok (lg_dir l) (lg_segments l ! length cs) (f + length (concat cs)) es ps \<and>
     0 < f \<and> f + length (concat cs) + length es + length ps \<le> 2 ^ 63 \<and>
     (\<forall>e \<in> set (concat cs @ es @ ps). small e) \<and>
     lg_firstIndex l = f \<and> lg_lastIndex l = f + length (concat cs) + length es - 1 \<and>
     lg_sfile l = segmentName (f + length (concat cs)) \<and>
     set (lru_keys lru (lg_scache l)) \<subseteq> {..<length cs} \<and>
     names_ok (lg_dir l) (starts f cs) \<and> \<not> lg_closed l \<and> \<not> lg_corrupt l"

text \<open>A log that holds the entries \<open>xs\<close>, the first one at index \<open>f\<close>.\<close>

definition holds :: "'c lru \<Rightarrow> 'c Log \<Rightarrow> nat \<Rightarrow> bytes list \<Rightarrow> bool" where
  "holds lru l f xs \<longleftrightarrow> (\<exists>cs es. log_rel lru l f cs es [] \<and> xs = concat cs @ es)"

lemma seg_start_simps [simp]:
  "seg_start f cs 0 = f" "seg_start f cs (length cs) = f + length (concat cs)"
  by (simp_all add: seg_start_def)

lemma seg_start_Suc: "k < length cs \<Longrightarrow> seg_start f cs (Suc k) = seg_start f cs k + length (cs ! k)"
  by (simp add: seg_start_def take_Suc_conv_app_nth)

lemma seg_start_append [simp]: "k \<le> length cs \<Longrightarrow> seg_start f (cs @ ds) k = seg_start f cs k"
  by (simp add: seg_start_def)

lemma seg_start_mono:
  assumes "\<forall>k < length cs. cs ! k \<noteq> []" and "j < k" and "k \<le> length cs"
  shows "seg_start f cs j < seg_start f cs k"
  using assms(2,3)
proof (induction k)
  case 0
  then show ?case by simp
next
  case (Suc k)
  then have "seg_start f cs j \<le> seg_start f cs k" by (cases "j = k") auto
  moreover have "0 < length (cs ! k)" using assms(1) Suc.prems by auto
  moreover have "seg_start f cs (Suc k) = seg_start f cs k + length (cs ! k)"
    using Suc.prems by (simp add: seg_start_Suc)
  ultimately show ?case by linarith
qed

lemma seg_start_bound: "k \<le> length cs \<Longrightarrow> seg_start f cs k \<le> f + length (concat cs)"
  by (metis add_left_mono append_take_drop_id concat_append le_add1 length_append seg_start_def)

lemma concat_nth:
  assumes "k < length cs" and "j < length (cs ! k)"
  shows "(concat cs @ es) ! (length (concat (take k cs)) + j) = cs ! k ! j"
proof -
  have "concat cs = concat (take k cs) @ cs ! k @ concat (drop (Suc k) cs)"
    using assms(1) by (metis concat.simps(2) concat_append id_take_nth_drop)
  with assms(2) show ?thesis by (simp add: nth_append)
qed

section \<open>Finding a segment\<close>

lemma findSegment_loop_spec:
  assumes "i \<le> j" and "j \<le> length segs"
    and "\<forall>h < i. sg_index (segs ! h) \<le> index" and "\<forall>h \<ge> j. h < length segs \<longrightarrow> index < sg_index (segs ! h)"
    and mono: "\<forall>g h. g < h \<and> h < length segs \<longrightarrow> sg_index (segs ! g) < sg_index (segs ! h)"
  shows "\<exists>r. findSegment_loop segs index i j = int r - 1 \<and> r \<le> length segs \<and>
           (\<forall>h < r. sg_index (segs ! h) \<le> index) \<and>
           (\<forall>h \<ge> r. h < length segs \<longrightarrow> index < sg_index (segs ! h))"
  using assms(1-4)
proof (induction "j - i" arbitrary: i j rule: less_induct)
  case less
  show ?case
  proof (cases "i < j")
    case False
    with less.prems show ?thesis by (subst findSegment_loop.simps) auto
  next
    case True
    let ?h = "i + (j - i) div 2"
    have h: "i \<le> ?h" "?h < j" using True by auto
    show ?thesis
    proof (cases "sg_index (segs ! ?h) \<le> index")
      case le: True
      have "sg_index (segs ! g) \<le> index" if "g < ?h + 1" for g
      proof (cases "g = ?h")
        case False
        with that have "g < ?h" by simp
        then have "sg_index (segs ! g) < sg_index (segs ! ?h)" using mono h less.prems(2) by simp
        with le show ?thesis by simp
      qed (use le in simp)
      then have "\<exists>r. findSegment_loop segs index (?h + 1) j = int r - 1 \<and> r \<le> length segs \<and>
           (\<forall>h < r. sg_index (segs ! h) \<le> index) \<and>
           (\<forall>h \<ge> r. h < length segs \<longrightarrow> index < sg_index (segs ! h))"
        using less.hyps [of j "?h + 1"] less.prems h True by simp
      with le True show ?thesis by (subst findSegment_loop.simps) (simp add: Let_def)
    next
      case gt: False
      have "index < sg_index (segs ! g)" if "g \<ge> ?h" "g < length segs" for g
      proof (cases "g = ?h")
        case False
        with that have "sg_index (segs ! ?h) < sg_index (segs ! g)" using mono by simp
        with gt show ?thesis by simp
      qed (use gt in simp)
      then have "\<exists>r. findSegment_loop segs index i ?h = int r - 1 \<and> r \<le> length segs \<and>
           (\<forall>h < r. sg_index (segs ! h) \<le> index) \<and>
           (\<forall>h \<ge> r. h < length segs \<longrightarrow> index < sg_index (segs ! h))"
        using less.hyps [of ?h i] less.prems h True by simp
      with gt True show ?thesis by (subst findSegment_loop.simps) (simp add: Let_def)
    qed
  qed
qed

text \<open>The parts of the relation, for use in proofs.\<close>

lemma log_relD:
  assumes "log_rel lru l f cs es ps"
  shows "length (lg_segments l) = Suc (length cs)"
    and "k < length cs \<Longrightarrow> seg_ok (lg_dir l) (lg_segments l ! k) (seg_start f cs k) (cs ! k)"
    and "tail_ok (lg_dir l) (lg_segments l ! length cs) (f + length (concat cs)) es ps"
    and "0 < f" and "f + length (concat cs) + length es + length ps \<le> 2 ^ 63"
    and "\<forall>e \<in> set (concat cs @ es @ ps). small e"
    and "lg_firstIndex l = f" and "lg_lastIndex l = f + length (concat cs) + length es - 1"
    and "lg_sfile l = segmentName (f + length (concat cs))"
    and "set (lru_keys lru (lg_scache l)) \<subseteq> {..<length cs}"
    and "names_ok (lg_dir l) (starts f cs)" and "\<not> lg_closed l" and "\<not> lg_corrupt l"
  using assms unfolding log_rel_def by simp_all

lemma log_rel_nonempty:
  assumes "log_rel lru l f cs es ps"
  shows "\<forall>k < length cs. cs ! k \<noteq> []"
  using log_relD(2) [OF assms] by (simp add: seg_ok_def)

lemma log_rel_small:
  assumes "log_rel lru l f cs es ps" and "k < length cs"
  shows "\<forall>e \<in> set (cs ! k). small e"
  using log_relD(6) [OF assms(1)] nth_mem [OF assms(2)] by auto

lemma log_rel_index:
  assumes "log_rel lru l f cs es ps" and "k \<le> length cs"
  shows "sg_index (lg_segments l ! k) = seg_start f cs k"
  using log_relD(2,3) [OF assms(1)] assms(2)
  by (cases "k = length cs") (simp_all add: seg_ok_def tail_ok_def)

lemma findSegment_spec:
  assumes rel: "log_rel lru l f cs es ps" and "f \<le> index"
  shows "\<exists>k \<le> length cs. findSegment l index = int k \<and> seg_start f cs k \<le> index \<and>
           (k < length cs \<longrightarrow> index < seg_start f cs k + length (cs ! k))"
proof -
  note len = log_relD(1) [OF rel]
  have idx: "sg_index (lg_segments l ! h) = seg_start f cs h" if "h < length (lg_segments l)" for h
    using log_rel_index [OF rel] that len by simp
  have mono: "\<forall>g h. g < h \<and> h < length (lg_segments l) \<longrightarrow>
      sg_index (lg_segments l ! g) < sg_index (lg_segments l ! h)"
    using seg_start_mono [OF log_rel_nonempty [OF rel]] idx len by simp
  obtain r where r: "findSegment l index = int r - 1" "r \<le> Suc (length cs)"
      "\<And>h. h < r \<Longrightarrow> sg_index (lg_segments l ! h) \<le> index"
      "\<And>h. h \<ge> r \<Longrightarrow> h < Suc (length cs) \<Longrightarrow> index < sg_index (lg_segments l ! h)"
    using findSegment_loop_spec [OF _ order_refl _ _ mono, of 0 index] len
    by (auto simp: findSegment_def)
  have "r \<noteq> 0" using r(4) [of 0] idx [of 0] len assms(2) by auto
  then obtain k where k: "r = Suc k" by (cases r) auto
  have "index < seg_start f cs k + length (cs ! k)" if "k < length cs"
    using r(4) [of "Suc k"] idx [of "Suc k"] len k that seg_start_Suc [OF that, of f] by simp
  moreover have "seg_start f cs k \<le> index" using r(3) [of k] idx [of k] len k r(2) by simp
  ultimately show ?thesis using r(1,2) k by (intro exI [of _ k]) simp
qed

section \<open>The cache does not change what the log holds\<close>

text \<open>Two handles that differ only in what is cached of the full segments.\<close>

lemma log_rel_segments:
  assumes rel: "log_rel lru l f cs es ps" and len: "length ss = length (lg_segments l)"
    and ok: "\<And>k. k < length cs \<Longrightarrow> seg_ok (lg_dir l) (ss ! k) (seg_start f cs k) (cs ! k)"
    and tl: "ss ! length cs = lg_segments l ! length cs"
    and keys: "set (lru_keys lru c) \<subseteq> {..<length cs}"
  shows "log_rel lru (l\<lparr>lg_segments := ss, lg_scache := c\<rparr>) f cs es ps"
  using rel len ok tl keys by (simp add: log_rel_def)

lemma seg_ok_drop: "seg_ok d s i es \<Longrightarrow> seg_ok d (dropEntries s) i es"
  by (simp add: seg_ok_def dropEntries_def)

lemma seg_ok_loaded: "seg_ok d s i es \<Longrightarrow> sg_epos s \<noteq> [] \<Longrightarrow> loaded s es"
  by (simp add: seg_ok_def)

text \<open>Caching a full segment whose entries are in memory.\<close>

lemma pushCache_rel:
  assumes lru: "lru_ok lru" and rel: "log_rel lru l f cs es ps" and k: "k < length cs"
  shows "log_rel lru (pushCache lru k l) f cs es ps \<and>
         lg_segments (pushCache lru k l) ! k = lg_segments l ! k \<and>
         k \<in> set (lru_keys lru (lg_scache (pushCache lru k l)))"
proof -
  obtain ev c where s: "lru_set lru k (lg_scache l) = (ev, c)" by fastforce
  with lru have c: "k \<in> set (lru_keys lru c)"
      "set (lru_keys lru c) \<subseteq> insert k (set (lru_keys lru (lg_scache l)))"
    and ev: "\<And>v. ev = Some v \<Longrightarrow> v \<noteq> k \<and> v \<in> set (lru_keys lru (lg_scache l))"
    unfolding lru_ok_def by metis+
  then have keys: "set (lru_keys lru c) \<subseteq> {..<length cs}" using log_relD(10) [OF rel] k by auto
  show ?thesis
  proof (cases ev)
    case None
    then have "pushCache lru k l = l\<lparr>lg_segments := lg_segments l, lg_scache := c\<rparr>"
      by (simp add: pushCache_def s)
    then show ?thesis using log_rel_segments [OF rel refl _ refl keys] log_relD(2) [OF rel] c(1) by simp
  next
    case (Some v)
    let ?ss = "(lg_segments l)[v := dropEntries (lg_segments l ! v)]"
    have v: "v \<noteq> k" "v < length cs" using ev [OF Some] log_relD(10) [OF rel] by auto
    have "pushCache lru k l = l\<lparr>lg_segments := ?ss, lg_scache := c\<rparr>"
      by (simp add: pushCache_def s Some setSegment_def)
    moreover have "seg_ok (lg_dir l) (?ss ! j) (seg_start f cs j) (cs ! j)" if "j < length cs" for j
      using log_relD(1,2) [OF rel] that seg_ok_drop by (cases "j = v") auto
    ultimately show ?thesis using log_rel_segments [OF rel _ _ _ keys, of ?ss] v c(1) by simp
  qed
qed

lemma clearCache_fold:
  assumes "set vs \<subseteq> {..<length cs}" and "log_rel lru l f cs es ps"
  shows "log_rel lru (fold (\<lambda>v l. setSegment v (dropEntries (lg_segments l ! v)) l) vs l) f cs es ps"
  using assms
proof (induction vs arbitrary: l)
  case Nil
  then show ?case by simp
next
  case (Cons v vs)
  let ?ss = "(lg_segments l)[v := dropEntries (lg_segments l ! v)]"
  have v: "v < length cs" using Cons.prems by simp
  have "seg_ok (lg_dir l) (?ss ! j) (seg_start f cs j) (cs ! j)" if "j < length cs" for j
    using log_relD(1,2) [OF Cons.prems(2)] that seg_ok_drop by (cases "j = v") auto
  then have "log_rel lru (l\<lparr>lg_segments := ?ss, lg_scache := lg_scache l\<rparr>) f cs es ps"
    using log_rel_segments [OF Cons.prems(2), of ?ss "lg_scache l"] v log_relD(10) [OF Cons.prems(2)]
    by simp
  then have "log_rel lru (setSegment v (dropEntries (lg_segments l ! v)) l) f cs es ps"
    by (simp add: setSegment_def)
  with Cons show ?case by simp
qed

lemma clearCache_rel:
  assumes lru: "lru_ok lru" and rel: "log_rel lru l f cs es ps"
  shows "log_rel lru (clearCache lru l) f cs es ps"
proof -
  let ?l = "fold (\<lambda>v l. setSegment v (dropEntries (lg_segments l ! v)) l) (lru_keys lru (lg_scache l)) l"
  have r: "log_rel lru ?l f cs es ps" using clearCache_fold [OF log_relD(10) [OF rel] rel] .
  have "set (lru_keys lru (lru_empty lru n)) \<subseteq> {..<length cs}" for n
    using lru by (simp add: lru_ok_def)
  from log_rel_segments [OF r refl _ refl this] log_relD(2) [OF r] show ?thesis
    by (simp add: clearCache_def)
qed

section \<open>Loading a segment\<close>

definition entries_of :: "bytes list list \<Rightarrow> bytes list \<Rightarrow> nat \<Rightarrow> bytes list" where
  "entries_of cs es k = (if k < length cs then cs ! k else es)"

definition same_disk :: "'c Log \<Rightarrow> 'c Log \<Rightarrow> bool" where
  "same_disk l l' \<longleftrightarrow> lg_dir l' = lg_dir l \<and> lg_SegmentSize l' = lg_SegmentSize l \<and>
     lg_CacheSize l' = lg_CacheSize l"

lemma same_disk_simps [simp]:
  "same_disk l l" "same_disk l (setSegment k s l') \<longleftrightarrow> same_disk l l'"
  "same_disk l (pushCache lru k l') \<longleftrightarrow> same_disk l l'"
  by (auto simp: same_disk_def setSegment_def pushCache_def Let_def split: prod.splits option.splits)

lemma seg_unique:
  assumes "\<forall>k < length cs. cs ! k \<noteq> []" and "j < length cs" "k < length cs"
    and "seg_start f cs j \<le> index" "index < seg_start f cs j + length (cs ! j)"
    and "seg_start f cs k \<le> index" "index < seg_start f cs k + length (cs ! k)"
  shows "j = k"
proof (rule ccontr)
  assume "j \<noteq> k"
  then consider "j < k" | "k < j" by linarith
  then show False
  proof cases
    case 1
    then have "seg_start f cs (Suc j) \<le> seg_start f cs k"
      using seg_start_mono [OF assms(1), of "Suc j" k f] assms(3) by (cases "Suc j = k") auto
    with assms seg_start_Suc [OF assms(2), of f] show False by simp
  next
    case 2
    then have "seg_start f cs (Suc k) \<le> seg_start f cs j"
      using seg_start_mono [OF assms(1), of "Suc k" j f] assms(2) by (cases "Suc k = j") auto
    with assms seg_start_Suc [OF assms(3), of f] show False by simp
  qed
qed

lemma loadSegmentEntries_ok:
  assumes "seg_ok d s i es" and "\<forall>e \<in> set es. small e"
  shows "loadSegmentEntries d s = Inr (s\<lparr>sg_ebuf := enc_all es, sg_epos := layout 0 es\<rparr>)"
  using assms loadEntries_all by (simp add: loadSegmentEntries_def seg_ok_def)

text \<open>A segment whose entries were not in memory is read from its file.\<close>

lemma loadSegment_read:
  assumes lru: "lru_ok lru" and rel: "log_rel lru l f cs es ps" and k: "k < length cs"
    and s': "(if sg_epos (lg_segments l ! k) = [] then loadSegmentEntries (lg_dir l) (lg_segments l ! k)
              else Inr (lg_segments l ! k)) = Inr s'"
  shows "log_rel lru (pushCache lru k (setSegment k s' l)) f cs es ps \<and>
         loaded (lg_segments (pushCache lru k (setSegment k s' l)) ! k) (cs ! k) \<and>
         k \<in> set (lru_keys lru (lg_scache (pushCache lru k (setSegment k s' l))))"
proof -
  note ok = log_relD(2) [OF rel k]
  have sm: "\<forall>e \<in> set (cs ! k). small e" by (rule log_rel_small [OF rel k])
  have s'ok: "seg_ok (lg_dir l) s' (seg_start f cs k) (cs ! k) \<and> loaded s' (cs ! k)"
    using ok s' loadSegmentEntries_ok [OF ok sm]
    by (auto simp: seg_ok_def loaded_def split: if_splits)
  let ?ss = "(lg_segments l)[k := s']"
  have "seg_ok (lg_dir l) (?ss ! j) (seg_start f cs j) (cs ! j)" if "j < length cs" for j
    using log_relD(1,2) [OF rel] that s'ok by (cases "j = k") auto
  then have "log_rel lru (l\<lparr>lg_segments := ?ss, lg_scache := lg_scache l\<rparr>) f cs es ps"
    using log_rel_segments [OF rel, of ?ss "lg_scache l"] k log_relD(10) [OF rel] by simp
  then have r: "log_rel lru (setSegment k s' l) f cs es ps" by (simp add: setSegment_def)
  have "lg_segments (setSegment k s' l) ! k = s'"
    using k log_relD(1) [OF rel] by (simp add: setSegment_def)
  with pushCache_rel [OF lru r k] s'ok show ?thesis by simp
qed

lemma loadSegment_spec:
  assumes lru: "lru_ok lru" and rel: "log_rel lru l f cs es []"
    and idx: "f \<le> index" "index < f + length (concat cs @ es)"
  shows "\<exists>k l1. loadSegment lru index l = Some (Inr k, l1) \<and> k \<le> length cs \<and>
     findSegment l index = int k \<and> log_rel lru l1 f cs es [] \<and> same_disk l l1 \<and>
     seg_start f cs k \<le> index \<and> index < seg_start f cs k + length (entries_of cs es k) \<and>
     loaded (lg_segments l1 ! k) (entries_of cs es k) \<and>
     (k < length cs \<longrightarrow> k \<in> set (lru_keys lru (lg_scache l1)))"
proof -
  obtain k where k: "k \<le> length cs" "findSegment l index = int k" "seg_start f cs k \<le> index"
      "k < length cs \<Longrightarrow> index < seg_start f cs k + length (cs ! k)"
    using findSegment_spec [OF rel idx(1)] by blast
  note len = log_relD(1) [OF rel]
  have lseg: "at (lg_segments l) (int (length (lg_segments l)) - 1) = Some (lg_segments l ! length cs)"
    using len by (simp add: at_def)
  have lidx: "sg_index (lg_segments l ! length cs) = f + length (concat cs)"
    using log_rel_index [OF rel, of "length cs"] by simp
  show ?thesis
  proof (cases "k = length cs")
    case True
    then have "loadSegment lru index l = Some (Inr (length cs), l)"
      using lseg lidx k(3) len by (simp add: loadSegment_def)
    with True k idx(2) rel log_relD(3) [OF rel] show ?thesis
      by (simp add: entries_of_def tail_ok_def)
  next
    case False
    then have kl: "k < length cs" using k(1) by simp
    then have lt: "\<not> index \<ge> f + length (concat cs)"
      using k(4) seg_start_Suc [OF kl, of f] seg_start_bound [of "Suc k" cs f] by simp
    define cached where "cached = (case lru_front lru (lg_scache l) of None \<Rightarrow> None
        | Some k \<Rightarrow> (let s = lg_segments l ! k in
             if index \<ge> sg_index s \<and> index < sg_index s + length (sg_epos s) then Some k else None))"
    have un: "j = k \<and> loaded (lg_segments l ! j) (cs ! j) \<and> j \<in> set (lru_keys lru (lg_scache l))"
      if "cached = Some j" for j
    proof -
      from that have fr: "lru_front lru (lg_scache l) = Some j"
        and r: "sg_index (lg_segments l ! j) \<le> index"
          "index < sg_index (lg_segments l ! j) + length (sg_epos (lg_segments l ! j))"
        by (auto simp: cached_def Let_def split: option.splits if_splits)
      from fr lru have jk: "j \<in> set (lru_keys lru (lg_scache l))" by (simp add: lru_ok_def)
      then have j: "j < length cs" using log_relD(10) [OF rel] by auto
      have ld: "loaded (lg_segments l ! j) (cs ! j)"
        using log_relD(2) [OF rel j] r by (auto simp: seg_ok_def)
      with r log_rel_index [OF rel, of j] j
      have "seg_start f cs j \<le> index" "index < seg_start f cs j + length (cs ! j)"
        by (simp_all add: loaded_def)
      with seg_unique [OF log_rel_nonempty [OF rel] j kl _ _ k(3) k(4) [OF kl]] jk ld show ?thesis
        by simp
    qed
    show ?thesis
    proof (cases cached)
      case (Some j)
      then have "loadSegment lru index l = Some (Inr j, l)"
        using lseg lidx lt by (simp add: loadSegment_def flip: cached_def)
      with un [OF Some] k kl rel show ?thesis by (auto simp: entries_of_def)
    next
      case None
      have at_k: "at (lg_segments l) (int k) = Some (lg_segments l ! k)" using kl len by simp
      obtain s' where
        s': "(if sg_epos (lg_segments l ! k) = [] then loadSegmentEntries (lg_dir l) (lg_segments l ! k)
              else Inr (lg_segments l ! k)) = Inr s'"
        using loadSegmentEntries_ok [OF log_relD(2) [OF rel kl] log_rel_small [OF rel kl]]
        by (cases "sg_epos (lg_segments l ! k) = []") simp_all
      have "loadSegment lru index l = Some (Inr k, pushCache lru k (setSegment k s' l))"
        using lseg lidx lt None k(2) at_k s' by (simp add: loadSegment_def flip: cached_def)
      with loadSegment_read [OF lru rel kl s'] k kl show ?thesis by (simp add: entries_of_def)
    qed
  qed
qed

section \<open>Reading\<close>

lemma enc_slice:
  assumes "j < length xs"
  shows "drop (length (enc_all (take j xs))) (take (length (enc_all (take (Suc j) xs))) (enc_all xs)) = enc (xs ! j)"
    and "length (enc_all (take (Suc j) xs)) \<le> length (enc_all xs)"
    and "length (enc_all (take j xs)) \<le> length (enc_all (take (Suc j) xs))"
proof -
  have "enc_all xs = enc_all (take (Suc j) xs) @ enc_all (drop (Suc j) xs)"
    by (metis append_take_drop_id enc_all_simps(3))
  moreover have "enc_all (take (Suc j) xs) = enc_all (take j xs) @ enc (xs ! j)"
    using assms by (simp add: take_Suc_conv_app_nth)
  ultimately show "drop (length (enc_all (take j xs))) (take (length (enc_all (take (Suc j) xs))) (enc_all xs)) = enc (xs ! j)"
    and "length (enc_all (take (Suc j) xs)) \<le> length (enc_all xs)"
    and "length (enc_all (take j xs)) \<le> length (enc_all (take (Suc j) xs))"
    by simp_all
qed

lemma entries_nth:
  assumes "k \<le> length cs" and "seg_start f cs k \<le> index"
    and "index < seg_start f cs k + length (entries_of cs es k)"
  shows "entries_of cs es k ! (index - seg_start f cs k) = (concat cs @ es) ! (index - f)"
proof -
  let ?j = "index - seg_start f cs k"
  have i: "index - f = length (concat (take k cs)) + ?j" using assms(2) by (simp add: seg_start_def)
  have j: "?j < length (entries_of cs es k)" using assms(2,3) by simp
  show ?thesis
  proof (cases "k < length cs")
    case True
    with concat_nth [OF True, of ?j es] j i show ?thesis by (simp add: entries_of_def)
  next
    case False
    with assms(1) i show ?thesis by (simp add: entries_of_def nth_append)
  qed
qed

lemma Read_rel:
  assumes lru: "lru_ok lru" and rel: "log_rel lru l f cs es []"
    and idx: "f \<le> index" "index < f + length (concat cs @ es)"
  shows "\<exists>l1. Read lru index l = Some (Inr ((concat cs @ es) ! (index - f)), l1) \<and>
           log_rel lru l1 f cs es [] \<and> same_disk l l1"
proof -
  obtain k l1 where load: "loadSegment lru index l = Some (Inr k, l1)"
    and k: "k \<le> length cs" and l1: "log_rel lru l1 f cs es []" "same_disk l l1"
    and r: "seg_start f cs k \<le> index" "index < seg_start f cs k + length (entries_of cs es k)"
    and ld: "loaded (lg_segments l1 ! k) (entries_of cs es k)"
    using loadSegment_spec [OF assms] by blast
  let ?xs = "entries_of cs es k" and ?j = "index - seg_start f cs k" and ?s = "lg_segments l1 ! k"
  have j: "?j < length ?xs" using r by simp
  have small: "small (?xs ! ?j)"
  proof -
    have "?xs ! ?j \<in> set (concat cs @ es)"
      using entries_nth [OF k r] idx nth_mem [of "index - f" "concat cs @ es"] by simp
    with log_relD(6) [OF rel] show ?thesis by simp
  qed
  note sl = enc_slice [OF j]
  have open_l: "\<not> lg_corrupt l" "\<not> lg_closed l" "\<not> (index = 0 \<or> index < lg_firstIndex l \<or> index > lg_lastIndex l)"
    using log_relD(4,7,8,12,13) [OF rel] idx by auto
  have pos: "at (sg_epos ?s) (int index - int (sg_index ?s)) =
      Some (length (enc_all (take ?j ?xs)), length (enc_all (take (Suc ?j) ?xs)))"
    using ld j r layout_nth [OF j, of 0] log_rel_index [OF l1(1) k]
    by (simp add: loaded_def at_def flip: of_nat_diff)
  have up: "slice_to (sg_ebuf ?s) (int (length (enc_all (take (Suc ?j) ?xs)))) =
      Some (take (length (enc_all (take (Suc ?j) ?xs))) (enc_all ?xs))"
    using ld sl(2) by (simp add: loaded_def slice_to_def)
  have fr: "slice_from (take (length (enc_all (take (Suc ?j) ?xs))) (enc_all ?xs))
      (int (length (enc_all (take ?j ?xs)))) = Some (enc (?xs ! ?j))"
    using sl by (simp add: slice_from_def)
  have uv: "Uvarint (enc (?xs ! ?j)) = (length (?xs ! ?j), int (length (putUvarint (length (?xs ! ?j)))))"
    using Uvarint_enc [OF small, of "[]"] by simp
  have "Read lru index l = Some (Inr (?xs ! ?j), l1)"
    using open_l load pos up fr uv by (simp add: Read_def Let_def enc_def)
  with entries_nth [OF k r] l1 show ?thesis by simp
qed

end
