(* ===== verification/WalWrite.thy ===== *)
theory WalWrite
  imports WalLog
begin

text \<open>Writing a batch extends the sequence a log holds; an index out of order changes nothing.\<close>

section \<open>Changes of the directory\<close>

lemma update_names: "fst ` set (AList.update n b d) = insert n (fst ` set d)"
proof -
  have "set (map fst (AList.update n b d)) = insert n (set (map fst d))" by (auto simp: update_keys)
  then show ?thesis by simp
qed

lemma seg_ok_update:
  "seg_ok d s i es \<Longrightarrow> i \<noteq> j \<Longrightarrow> i < 2 ^ 64 \<Longrightarrow> j < 2 ^ 64 \<Longrightarrow>
   seg_ok (AList.update (segmentName j) b d) s i es"
  by (simp add: seg_ok_def update_conv' segmentName_inject)

lemma log_rel_bound:
  assumes "log_rel lru l f cs es ps" and "k \<le> length cs"
  shows "seg_start f cs k < 2 ^ 64"
  using seg_start_bound [OF assms(2), of f] log_relD(5) [OF assms(1)] by simp

lemma log_rel_distinct:
  assumes "log_rel lru l f cs es ps" and "k < length cs"
  shows "seg_start f cs k \<noteq> f + length (concat cs)"
  using seg_start_mono [OF log_rel_nonempty [OF assms(1)], of k "length cs" f] assms(2) by simp

lemma tail_nth:
  assumes "log_rel lru l f cs es ps"
  shows "Wal.tail l = lg_segments l ! length cs"
proof -
  have "lg_segments l \<noteq> []" using log_relD(1) [OF assms] by auto
  then show ?thesis using log_relD(1) [OF assms] by (simp add: Wal.tail_def last_conv_nth)
qed

lemma names_ok_update:
  "names_ok d is \<Longrightarrow> set is' = insert j (set is) \<Longrightarrow> names_ok (AList.update (segmentName j) b d) is'"
  by (auto simp: names_ok_def update_names distinct_update)

lemma starts_last: "f + length (concat cs) \<in> set (starts f cs)"
  by (simp add: starts_def)

section \<open>Steps of a write\<close>

text \<open>Writing out the part of the tail that is only in memory.\<close>

lemma flush_rel:
  assumes rel: "log_rel lru l f cs es ps"
    and last: "i = f + length (concat cs) + length es + length ps - 1"
  shows "log_rel lru ((sfile_Write (drop (length (enc_all es)) (sg_ebuf (Wal.tail l))) l)\<lparr>lg_lastIndex := i\<rparr>)
           f cs (es @ ps) []"
proof -
  let ?j = "f + length (concat cs)" and ?b = "enc_all es @ enc_all ps"
  note t = log_relD(3) [OF rel]
  have d: "snd (fs_do (Append (lg_sfile l) (drop (length (enc_all es)) (sg_ebuf (Wal.tail l)))) (lg_dir l)) =
      AList.update (segmentName ?j) ?b (lg_dir l)"
    using t log_relD(9) [OF rel] tail_nth [OF rel] by (simp add: tail_ok_def loaded_def)
  have "seg_ok (AList.update (segmentName ?j) ?b (lg_dir l)) (lg_segments l ! k) (seg_start f cs k) (cs ! k)"
    if "k < length cs" for k
    using log_relD(2) [OF rel that] log_rel_distinct [OF rel that] log_rel_bound [OF rel, of k]
      log_rel_bound [OF rel, of "length cs"] that by (intro seg_ok_update) simp_all
  moreover have "tail_ok (AList.update (segmentName ?j) ?b (lg_dir l)) (lg_segments l ! length cs) ?j (es @ ps) []"
    using t by (simp add: tail_ok_def update_conv')
  moreover have "names_ok (AList.update (segmentName ?j) ?b (lg_dir l)) (starts f cs)"
    using log_relD(11) [OF rel] by (rule names_ok_update) (use starts_last in \<open>auto simp: insert_absorb\<close>)
  ultimately show ?thesis
    unfolding sfile_Write_def d using log_relD [OF rel] last by (simp add: log_rel_def add.assoc)
qed

text \<open>Adding an entry to the tail in memory.\<close>

lemma addEntry_rel:
  assumes rel: "log_rel lru l f cs es ps" and "small data"
    and "f + length (concat cs) + length es + length ps < 2 ^ 63"
    and app: "appendBinaryEntry (sg_ebuf (Wal.tail l)) data = (ebuf, epos)"
    and l': "l' = setTail ((Wal.tail l)\<lparr>sg_ebuf := ebuf, sg_epos := sg_epos (Wal.tail l) @ [epos]\<rparr>) l"
  shows "log_rel lru l' f cs es (ps @ [data])"
    and "sg_ebuf (Wal.tail l') = ebuf"
    and "ebuf = enc_all (es @ ps @ [data])"
proof -
  note t = log_relD(3) [OF rel] and len = log_relD(1) [OF rel]
  show e: "ebuf = enc_all (es @ ps @ [data])"
    using app t tail_nth [OF rel] by (auto simp: appendBinaryEntry_def tail_ok_def loaded_def enc_def)
  have "epos = (length (enc_all (es @ ps)), length (enc_all (es @ ps @ [data])))"
    using app t tail_nth [OF rel] by (auto simp: appendBinaryEntry_def tail_ok_def loaded_def enc_def)
  then have "loaded ((Wal.tail l)\<lparr>sg_ebuf := ebuf, sg_epos := sg_epos (Wal.tail l) @ [epos]\<rparr>)
      (es @ ps @ [data])"
    using t tail_nth [OF rel] e by (simp add: tail_ok_def loaded_def layout_append)
  with log_relD [OF rel] assms(2,3) t tail_nth [OF rel] show rel': "log_rel lru l' f cs es (ps @ [data])"
    by (simp add: l' log_rel_def setTail_def setSegment_def tail_ok_def)
  show "sg_ebuf (Wal.tail l') = ebuf"
    using len tail_nth [OF rel'] by (simp add: l' setTail_def setSegment_def)
qed

text \<open>Beginning a new tail.\<close>

lemma starts_snoc: "starts f (cs @ [es]) = starts f cs @ [f + length (concat cs) + length es]"
  by (simp add: starts_def seg_start_def)

lemma cycle_rel:
  assumes lru: "lru_ok lru" and rel: "log_rel lru l f cs es []" and ne: "es \<noteq> []"
  shows "log_rel lru (cycle lru l) f (cs @ [es]) [] []"
proof -
  let ?j = "f + length (concat cs) + length es"
  let ?d = "AList.update (segmentName ?j) [] (lg_dir l)"
  let ?new = "\<lparr>sg_path = segmentName ?j, sg_index = ?j, sg_ebuf = [], sg_epos = []\<rparr>"
  define l0 where "l0 = l\<lparr>lg_sfile := segmentName ?j, lg_dir := ?d,
      lg_segments := lg_segments l @ [?new]\<rparr>"
  note len = log_relD(1) [OF rel]
  have last: "lg_lastIndex l + 1 = ?j" using log_relD(8) [OF rel] ne by (cases es) auto
  have jb: "?j < 2 ^ 64" using log_relD(5) [OF rel] by simp
  have cyc: "cycle lru l = pushCache lru (length cs) l0"
  proof -
    obtain ev c where s: "lru_set lru (length cs) (lg_scache l) = (ev, c)" by fastforce
    have "v < length (lg_segments l)" if "ev = Some v" for v
      using lru s that log_relD(10) [OF rel] len unfolding lru_ok_def by fastforce
    then show ?thesis
      using s last len
      by (cases ev; cases l)
         (auto simp: cycle_def pushCache_def l0_def setSegment_def nth_append list_update_append Let_def)
  qed
  have ok: "seg_ok ?d (lg_segments l ! k) (seg_start f (cs @ [es]) k) ((cs @ [es]) ! k)"
    if "k < Suc (length cs)" for k
  proof (cases "k < length cs")
    case True
    then have "seg_start f cs k < f + length (concat cs)"
      using seg_start_mono [OF log_rel_nonempty [OF rel] True order_refl, of f] by simp
    with seg_ok_update [OF log_relD(2) [OF rel True] _ log_rel_bound [OF rel] jb] True show ?thesis
      by (simp add: nth_append)
  next
    case False
    with that have k: "k = length cs" by simp
    have "map_of (lg_dir l) (segmentName (f + length (concat cs))) = Some (enc_all es)"
      using log_relD(3) [OF rel] by (simp add: tail_ok_def)
    moreover have "f + length (concat cs) < 2 ^ 64" "0 < length es" using jb ne by simp_all
    ultimately show ?thesis
      using log_relD(3) [OF rel] jb ne k
      by (simp add: seg_ok_def tail_ok_def update_conv' segmentName_inject)
  qed
  have tl: "tail_ok ?d ?new ?j [] []" by (simp add: tail_ok_def update_conv' loaded_def)
  have nm: "names_ok ?d (starts f (cs @ [es]))"
    using log_relD(11) [OF rel] by (rule names_ok_update) (simp add: starts_snoc)
  have keys: "set (lru_keys lru (lg_scache l)) \<subseteq> {..<Suc (length cs)}"
    using log_relD(10) [OF rel] by auto
  have "seg_ok ?d ((lg_segments l @ [?new]) ! k) (seg_start f (cs @ [es]) k) ((cs @ [es]) ! k)"
    if "k < Suc (length cs)" for k
    using ok [OF that] that len by (simp add: nth_append)
  then have "log_rel lru l0 f (cs @ [es]) [] []"
    using tl nm keys log_relD [OF rel] ne len
    by (simp add: log_rel_def l0_def nth_append add.assoc)
  from pushCache_rel [OF lru this, of "length cs"] show ?thesis by (simp add: cyc)
qed

section \<open>Batches\<close>

fun entries_from :: "nat \<Rightarrow> bytes list \<Rightarrow> (nat \<times> nat) list" where
  "entries_from i [] = []"
| "entries_from i (d # ds) = (i, length d) # entries_from (Suc i) ds"

text \<open>The batch with the data \<open>ds\<close> for the indices from \<open>i\<close> on.\<close>

definition batch_from :: "nat \<Rightarrow> bytes list \<Rightarrow> Batch" where
  "batch_from i ds = \<lparr>b_entries = entries_from i ds, b_datas = concat ds\<rparr>"

lemma length_entries_from [simp]: "length (entries_from i ds) = length ds"
  by (induction ds arbitrary: i) simp_all

lemma entries_from_nth: "k < length ds \<Longrightarrow> entries_from i ds ! k = (i + k, length (ds ! k))"
  by (induction ds arbitrary: i k) (auto simp: nth_Cons split: nat.split)

lemma checkOrder_from: "checkOrder n (entries_from (Suc n) ds) = None"
  by (induction ds arbitrary: n) simp_all

lemma writeEntries_rel:
  assumes lru: "lru_ok lru" and "log_rel lru l f cs es ps"
    and "\<forall>d \<in> set ds. small d" and "f + length (concat cs @ es @ ps @ ds) \<le> 2 ^ 63"
  shows "\<exists>l' cs' es' ps'.
     writeEntries lru (entries_from (f + length (concat cs @ es @ ps)) ds) (concat ds) (length (enc_all es)) l =
       Some (length (enc_all es'), l') \<and>
     log_rel lru l' f cs' es' ps' \<and> concat cs' @ es' @ ps' = concat cs @ es @ ps @ ds \<and>
     (ds = [] \<longrightarrow> ps' = ps)"
  using assms(2-4)
proof (induction ds arbitrary: l cs es ps)
  case Nil
  then show ?case by auto
next
  case (Cons d ds)
  let ?i = "f + length (concat cs @ es @ ps)"
  obtain ebuf epos where app: "appendBinaryEntry (sg_ebuf (Wal.tail l)) d = (ebuf, epos)"
    by (metis surj_pair)
  define l1 where "l1 = setTail ((Wal.tail l)\<lparr>sg_ebuf := ebuf, sg_epos := sg_epos (Wal.tail l) @ [epos]\<rparr>) l"
  have sm: "small d" and b: "f + length (concat cs) + length es + length ps < 2 ^ 63"
    using Cons.prems(2,3) by simp_all
  note add = addEntry_rel [OF Cons.prems(1) sm b app l1_def]
  have sl: "slice_to (concat (d # ds)) (int (length d)) = Some d"
      "slice_from (concat (d # ds)) (int (length d)) = Some (concat ds)"
    by (simp_all add: slice_to_def slice_from_def)
  show ?case
  proof (cases "length ebuf \<ge> lg_SegmentSize l1")
    case True
    define l2 where "l2 = (sfile_Write (drop (length (enc_all es)) ebuf) l1)\<lparr>lg_lastIndex := ?i\<rparr>"
    have "log_rel lru l2 f cs (es @ ps @ [d]) []"
      using flush_rel [OF add(1), of ?i] add(2) by (simp add: l2_def)
    from cycle_rel [OF lru this]
    have r3: "log_rel lru (cycle lru l2) f (cs @ [es @ ps @ [d]]) [] []" by simp
    have eq: "writeEntries lru (entries_from ?i (d # ds)) (concat (d # ds)) (length (enc_all es)) l =
        writeEntries lru (entries_from (Suc ?i) ds) (concat ds) (length (enc_all [])) (cycle lru l2)"
      using sl app True by (simp add: l2_def flip: l1_def)
    have i: "f + length (concat (cs @ [es @ ps @ [d]]) @ [] @ []) = Suc ?i" by simp
    from Cons.IH [OF r3] Cons.prems(2,3) show ?thesis unfolding eq i by (simp add: add.assoc) blast
  next
    case False
    have eq: "writeEntries lru (entries_from ?i (d # ds)) (concat (d # ds)) (length (enc_all es)) l =
        writeEntries lru (entries_from (Suc ?i) ds) (concat ds) (length (enc_all es)) l1"
      using sl app False by (simp flip: l1_def)
    have i: "f + length (concat cs @ es @ ps @ [d]) = Suc ?i" by simp
    from Cons.IH [OF add(1)] Cons.prems(2,3) show ?thesis unfolding eq i by simp blast
  qed
qed

lemma writeBatch_rel:
  assumes lru: "lru_ok lru" and rel: "log_rel lru l f cs es []"
    and sm: "\<forall>d \<in> set ds. small d" and b: "f + length (concat cs @ es @ ds) \<le> 2 ^ 63"
  shows "\<exists>l' cs' es'. writeBatch lru (batch_from (lg_lastIndex l + 1) ds) l =
       Some (Inr (), \<lparr>b_entries = [], b_datas = []\<rparr>, l') \<and>
     log_rel lru l' f cs' es' [] \<and> concat cs' @ es' = concat cs @ es @ ds"
proof -
  define l1 where "l1 = (if length (sg_ebuf (Wal.tail l)) > lg_SegmentSize l then cycle lru l else l)"
  have seg: "at (lg_segments l) (int (length (lg_segments l)) - 1) = Some (Wal.tail l)"
    using log_relD(1) [OF rel] tail_nth [OF rel] by (simp add: at_def)
  have next_i: "lg_lastIndex l + 1 = f + length (concat cs @ es)"
    using log_relD(4,8) [OF rel] by simp
  have "es \<noteq> []" if "length (sg_ebuf (Wal.tail l)) > lg_SegmentSize l"
    using that log_relD(3) [OF rel] tail_nth [OF rel] by (auto simp: tail_ok_def loaded_def)
  then obtain cs1 es1 where r1: "log_rel lru l1 f cs1 es1 []" and c1: "concat cs1 @ es1 = concat cs @ es"
    using rel cycle_rel [OF lru rel] unfolding l1_def
    by (cases "length (sg_ebuf (Wal.tail l)) > lg_SegmentSize l") fastforce+
  have m1: "length (sg_ebuf (Wal.tail l1)) = length (enc_all es1)"
    using log_relD(3) [OF r1] tail_nth [OF r1] by (simp add: tail_ok_def loaded_def)
  have len1: "length (concat cs1) + length es1 = length (concat cs) + length es"
    using c1 by (metis length_append)
  obtain l2 cs2 es2 ps2 where w: "writeEntries lru (entries_from (lg_lastIndex l + 1) ds) (concat ds)
        (length (enc_all es1)) l1 = Some (length (enc_all es2), l2)"
    and r2: "log_rel lru l2 f cs2 es2 ps2" and c2: "concat cs2 @ es2 @ ps2 = concat cs1 @ es1 @ ds"
    and ds: "ds = [] \<Longrightarrow> ps2 = []"
    using writeEntries_rel [OF lru r1 sm] b next_i len1 by (auto simp: add.assoc)
  have c2': "concat cs2 @ es2 @ ps2 = concat cs @ es @ ds" using c1 c2 by (metis append.assoc)
  have len2: "length (concat cs2) + length es2 + length ps2 = length (concat cs) + length es + length ds"
    using c2' by (metis add.assoc length_append)
  have rest: "drop (length (enc_all es2)) (sg_ebuf (Wal.tail l2)) = enc_all ps2"
    using log_relD(3) [OF r2] tail_nth [OF r2] by (simp add: tail_ok_def loaded_def)
  have pre: "writeBatch lru (batch_from (lg_lastIndex l + 1) ds) l =
      (if enc_all ps2 \<noteq> [] then do {
           e \<leftarrow> at (entries_from (lg_lastIndex l + 1) ds) (int (length ds) - 1);
           Some (Inr (), \<lparr>b_entries = [], b_datas = []\<rparr>, (sfile_Write (enc_all ps2) l2)\<lparr>lg_lastIndex := fst e\<rparr>)
         } else Some (Inr (), \<lparr>b_entries = [], b_datas = []\<rparr>, l2))"
    using seg w rest m1 checkOrder_from [of "lg_lastIndex l" ds]
    by (simp add: writeBatch_def batch_from_def Batch_Clear_def Let_def
        del: drop_eq_Nil flip: l1_def)
  show ?thesis
  proof (cases "ps2 = []")
    case True
    with pre r2 c2' show ?thesis by auto
  next
    case False
    then have "ds \<noteq> []" using ds by blast
    then have e: "at (entries_from (lg_lastIndex l + 1) ds) (int (length ds) - 1) =
        Some (lg_lastIndex l + length ds, length (last ds))"
      by (cases "length ds") (simp_all add: at_def entries_from_nth last_conv_nth nat_diff_distrib)
    have "log_rel lru ((sfile_Write (enc_all ps2) l2)\<lparr>lg_lastIndex := lg_lastIndex l + length ds\<rparr>) f cs2 (es2 @ ps2) []"
    proof -
      have "lg_lastIndex l + length ds = f + length (concat cs2) + length es2 + length ps2 - 1"
        using next_i len2 by simp
      from flush_rel [OF r2 this] rest show ?thesis by simp
    qed
    with pre e False c2' show ?thesis by auto
  qed
qed

section \<open>The promise of reading and writing\<close>

lemma Write_next:
  assumes "lru_ok lru" and "holds lru l f xs" and "small data" and "f + length xs < 2 ^ 63"
  shows "\<exists>l'. Write lru (f + length xs) data l = Some (Inr (), l') \<and> holds lru l' f (xs @ [data])"
proof -
  from assms(2) obtain cs es where rel: "log_rel lru l f cs es []" and xs: "xs = concat cs @ es"
    by (auto simp: holds_def)
  have next_i: "lg_lastIndex l + 1 = f + length xs" using log_relD(4,8) [OF rel] xs by simp
  from writeBatch_rel [OF assms(1) rel, of "[data]"] assms(3,4) xs next_i obtain l1 cs' es' where
    "writeBatch lru (batch_from (f + length xs) [data]) l = Some (Inr (), \<lparr>b_entries = [], b_datas = []\<rparr>, l1)"
    "log_rel lru l1 f cs' es' []" "concat cs' @ es' = xs @ [data]"
    by (auto simp: add.assoc)
  moreover have "batch_from i [data] = Batch_Write i data \<lparr>b_entries = [], b_datas = []\<rparr>" for i
    by (simp add: batch_from_def Batch_Write_def)
  ultimately show ?thesis using log_relD(12,13) [OF rel] by (simp add: Write_def holds_def) metis
qed

lemma Write_other:
  assumes "holds lru l f xs" and "index \<noteq> f + length xs"
  shows "Write lru index data l = Some (Inl (OutOfOrder (f + length xs) index), l)"
proof -
  from assms(1) obtain cs es where rel: "log_rel lru l f cs es []" and xs: "xs = concat cs @ es"
    by (auto simp: holds_def)
  have "Suc (lg_lastIndex l) = f + length xs" using log_relD(4,8) [OF rel] xs by simp
  with log_relD(12,13) [OF rel] assms(2) show ?thesis
    by (simp add: Write_def writeBatch_def Batch_Write_def)
qed

lemma Read_holds:
  assumes "lru_ok lru" and "holds lru l f xs" and "f \<le> index" and "index < f + length xs"
  shows "\<exists>l'. Read lru index l = Some (Inr (xs ! (index - f)), l') \<and> holds lru l' f xs \<and> same_disk l l'"
proof -
  from assms(2) obtain cs es where rel: "log_rel lru l f cs es []" and xs: "xs = concat cs @ es"
    by (auto simp: holds_def)
  from Read_rel [OF assms(1) rel] assms(3,4) xs show ?thesis unfolding holds_def xs by blast
qed

text \<open>
  C10: a batch for the indices that follow the last one appends its entries to the log, and every
  entry, old or new, is read back under its index, whichever segments are in memory. Batches may
  span segments. The cache is assumed to keep what is stored last and to report what it drops.
\<close>

theorem WriteBatch_then_Read:
  assumes "lru_ok lru" and "holds lru l f xs"
    and "\<forall>d \<in> set ds. small d" and "f + length xs + length ds \<le> 2 ^ 63"
    and "f \<le> index" and "index < f + length xs + length ds"
  shows "\<exists>l1 l2 b. WriteBatch lru (batch_from (lg_lastIndex l + 1) ds) l = Some (Inr (), b, l1) \<and>
           holds lru l1 f (xs @ ds) \<and>
           Read lru index l1 = Some (Inr ((xs @ ds) ! (index - f)), l2) \<and> holds lru l2 f (xs @ ds)"
proof -
  from assms(2) obtain cs es where rel: "log_rel lru l f cs es []" and xs: "xs = concat cs @ es"
    by (auto simp: holds_def)
  from writeBatch_rel [OF assms(1) rel assms(3)] assms(4) xs obtain l1 cs' es' where
    w: "writeBatch lru (batch_from (lg_lastIndex l + 1) ds) l = Some (Inr (), \<lparr>b_entries = [], b_datas = []\<rparr>, l1)"
    and r1: "log_rel lru l1 f cs' es' []" and c: "concat cs' @ es' = xs @ ds"
    by (auto simp: add.assoc)
  have "\<exists>b l1'. WriteBatch lru (batch_from (lg_lastIndex l + 1) ds) l = Some (Inr (), b, l1') \<and>
      (\<exists>cs' es'. log_rel lru l1' f cs' es' [] \<and> concat cs' @ es' = xs @ ds)"
    using w r1 c rel xs log_relD(12,13) [OF rel]
    by (cases ds) (auto simp: WriteBatch_def batch_from_def)
  then obtain b l1' cs2 es2 where wb: "WriteBatch lru (batch_from (lg_lastIndex l + 1) ds) l = Some (Inr (), b, l1')"
    and r2: "log_rel lru l1' f cs2 es2 []" and c2: "concat cs2 @ es2 = xs @ ds" by blast
  from Read_rel [OF assms(1) r2 assms(5)] assms(6) c2 obtain l2 where
    "Read lru index l1' = Some (Inr ((xs @ ds) ! (index - f)), l2)" "log_rel lru l2 f cs2 es2 []"
    by (metis add.assoc length_append)
  with wb r2 c2 show ?thesis unfolding holds_def by metis
qed

text \<open>A cache of one segment, and an empty log on it that begins a new segment after every entry.\<close>

definition one_lru :: "nat option lru" where
  "one_lru = \<lparr>lru_set = (\<lambda>k c. (if c = Some k then None else c, Some k)), lru_front = (\<lambda>c. c),
     lru_keys = (\<lambda>c. case c of None \<Rightarrow> [] | Some k \<Rightarrow> [k]), lru_empty = (\<lambda>n. None)\<rparr>"

definition sample_log :: "nat option Log" where
  "sample_log = \<lparr>lg_SegmentSize = 1, lg_CacheSize = 1, lg_closed = False, lg_corrupt = False,
     lg_segments = [\<lparr>sg_path = segmentName 1, sg_index = 1, sg_ebuf = [], sg_epos = []\<rparr>],
     lg_firstIndex = 1, lg_lastIndex = 0, lg_sfile = segmentName 1, lg_scache = None,
     lg_dir = [(segmentName 1, [])]\<rparr>"

lemma one_lru_ok: "lru_ok one_lru"
  by (auto simp: lru_ok_def one_lru_def split: option.splits if_splits)

lemma sample_log_holds: "holds one_lru sample_log 1 []"
proof -
  have "log_rel one_lru sample_log 1 [] [] []"
    by (simp add: log_rel_def sample_log_def tail_ok_def loaded_def names_ok_def starts_def one_lru_def)
  then show ?thesis unfolding holds_def by fastforce
qed

theorem WriteBatch_then_Read_witness:
  "\<exists>l1 l2 b. WriteBatch one_lru (batch_from 1 [[1], [2, 3]]) sample_log = Some (Inr (), b, l1) \<and>
     Read one_lru 2 l1 = Some (Inr [2, 3], l2)"
proof -
  have "\<exists>l1 l2 b. WriteBatch one_lru (batch_from (lg_lastIndex sample_log + 1) [[1], [2, 3]]) sample_log =
        Some (Inr (), b, l1) \<and> holds one_lru l1 1 ([] @ [[1], [2, 3]]) \<and>
      Read one_lru 2 l1 = Some (Inr (([] @ [[1], [2, 3]]) ! (2 - 1)), l2) \<and>
      holds one_lru l2 1 ([] @ [[1], [2, 3]])"
    by (rule WriteBatch_then_Read [OF one_lru_ok sample_log_holds]) (simp_all add: small_def)
  then show ?thesis by (fastforce simp: sample_log_def)
qed

text \<open>
  A write under any index but the one after the last is refused, and the log is unchanged. A
  write to a closed log is refused too.
\<close>

theorem Write_out_of_order:
  assumes "holds lru l f xs" and "index \<noteq> f + length xs"
  shows "Write lru index data l = Some (Inl (OutOfOrder (f + length xs) index), l) \<and>
         Write lru index data (snd (Close l)) = Some (Inl ErrClosed, snd (Close l))"
proof -
  from assms(1) have "\<not> lg_corrupt l" by (auto simp: holds_def dest: log_relD(13))
  then have "Write lru index data (snd (Close l)) = Some (Inl ErrClosed, snd (Close l))"
    by (simp add: Write_def Close_def)
  with Write_other [OF assms] show ?thesis by simp
qed

theorem Write_out_of_order_witness:
  "Write one_lru 5 [1] sample_log = Some (Inl (OutOfOrder 1 5), sample_log)"
  using Write_out_of_order [OF sample_log_holds, of 5 "[1]"] by simp

end
