(* ===== verification/WalRecovery.thy ===== *)
theory WalRecovery
  imports WalWrite
begin

text \<open>
  Opening a log: what a directory holds is what \<^verbatim>\<open>Open\<close> finds, whether or not a truncation
  was under way when the process stopped.
\<close>

section \<open>Directories\<close>

definition mkseg :: "nat \<Rightarrow> segment" where
  "mkseg i = \<lparr>sg_path = segmentName i, sg_index = i, sg_ebuf = [], sg_epos = []\<rparr>"

lemma mkseg_sel [simp]: "sg_path (mkseg i) = segmentName i" "sg_index (mkseg i) = i"
  by (simp_all add: mkseg_def)

text \<open>The entries a directory holds, in full segments and a last one.\<close>

definition disk_ok :: "dir \<Rightarrow> nat \<Rightarrow> bytes list list \<Rightarrow> bytes list \<Rightarrow> bool" where
  "disk_ok d f cs es \<longleftrightarrow>
     (\<forall>k < length cs. map_of d (segmentName (seg_start f cs k)) = Some (enc_all (cs ! k)) \<and> cs ! k \<noteq> []) \<and>
     map_of d (segmentName (f + length (concat cs))) = Some (enc_all es) \<and>
     names_ok d (starts f cs) \<and> 0 < f \<and> f + length (concat cs) + length es \<le> 2 ^ 63 \<and>
     (\<forall>e \<in> set (concat cs @ es). small e)"

lemma log_rel_disk:
  "log_rel lru l f cs es [] \<Longrightarrow> disk_ok (lg_dir l) f cs es"
  by (simp add: log_rel_def disk_ok_def seg_ok_def tail_ok_def)

lemma starts_sorted:
  assumes "\<forall>k < length cs. cs ! k \<noteq> []"
  shows "sorted_wrt (<) (starts f cs)"
proof -
  have "starts f cs ! i < starts f cs ! j" if "i < j" "j < length (starts f cs)" for i j
    using seg_start_mono [OF assms that(1)] that by (simp add: starts_def del: upt_Suc)
  then show ?thesis by (simp add: sorted_wrt_iff_nth_less)
qed

lemma length_starts [simp]: "length (starts f cs) = Suc (length cs)"
  by (simp add: starts_def)

lemma starts_nth: "k \<le> length cs \<Longrightarrow> starts f cs ! k = seg_start f cs k"
  by (simp add: starts_def del: upt_Suc)

lemma starts_bounds:
  assumes "i \<in> set (starts f cs)"
  shows "f \<le> i" and "i \<le> f + length (concat cs)"
  using assms seg_start_bound [of _ cs f] by (auto simp: starts_def seg_start_def simp del: upt_Suc)

section \<open>Listing\<close>

lemma wal_name_segment: "0 < i \<Longrightarrow> i < 2 ^ 64 \<Longrightarrow> wal_name (segmentName i)"
  by (simp add: wal_name_def ParseUint_segmentName)

lemma wal_name_marked:
  "0 < i \<Longrightarrow> i < 2 ^ 64 \<Longrightarrow> wal_name (segmentName i @ START)"
  "0 < i \<Longrightarrow> i < 2 ^ 64 \<Longrightarrow> wal_name (segmentName i @ END)"
  by (simp_all add: wal_name_def ParseUint_segmentName hasSuffix_def)

lemma scan_filter: "scan ns a b segs = scan (filter wal_name ns) a b segs"
  by (induction ns a b segs rule: scan.induct)
     (auto simp: wal_name_def Let_def split: option.splits)

lemma scan_segments:
  "\<forall>i \<in> set is. 0 < i \<and> i < 2 ^ 64 \<Longrightarrow>
   scan (map segmentName is @ ns) a b segs = scan ns a b (segs @ map mkseg is)"
  by (induction "is" arbitrary: segs) (simp_all add: ParseUint_segmentName mkseg_def)

lemma scan_start:
  "0 < j \<Longrightarrow> j < 2 ^ 64 \<Longrightarrow> scan ((segmentName j @ START) # ns) a b segs =
     scan ns (int (length segs)) b (segs @ [(mkseg j)\<lparr>sg_path := segmentName j @ START\<rparr>])"
  by (simp add: ParseUint_segmentName mkseg_def hasSuffix_def)

lemma scan_end:
  "0 < j \<Longrightarrow> j < 2 ^ 64 \<Longrightarrow> scan ((segmentName j @ END) # ns) a (-1) segs =
     scan ns a (int (length segs)) (segs @ [(mkseg j)\<lparr>sg_path := segmentName j @ END\<rparr>])"
  by (simp add: ParseUint_segmentName mkseg_def hasSuffix_def)

lemma ReadDir_filter:
  assumes "distinct (map fst d)" and "sorted_wrt (<) ns" and "set ns = {n \<in> fst ` set d. wal_name n}"
  shows "filter wal_name (ReadDir d) = ns"
proof (rule sorted_distinct_set_unique)
  show "sorted (filter wal_name (ReadDir d))" "distinct (filter wal_name (ReadDir d))"
    using assms(1) by (simp_all add: ReadDir_def sorted_wrt_filter)
  show "sorted ns" "distinct ns" using assms(2) by (simp_all add: strict_sorted_iff)
  show "set (filter wal_name (ReadDir d)) = set ns" using assms(3) by (auto simp: ReadDir_def)
qed

lemma segmentName_sorted:
  assumes "sorted_wrt (<) is" and "\<forall>i \<in> set is. i < 2 ^ 64"
  shows "sorted_wrt (<) (map segmentName is)"
  using assms segmentName_less [of _ _ "[]" "[]"] by (induction "is") auto

lemma disk_iff:
  "disk_ok d f cs es \<longleftrightarrow>
     (\<forall>k \<le> length cs. map_of d (segmentName (seg_start f cs k)) = Some (enc_all (entries_of cs es k))) \<and>
     (\<forall>k < length cs. cs ! k \<noteq> []) \<and>
     names_ok d (starts f cs) \<and> 0 < f \<and> f + length (concat cs) + length es \<le> 2 ^ 63 \<and>
     (\<forall>e \<in> set (concat cs @ es). small e)"
  by (auto simp: disk_ok_def entries_of_def le_less)

lemma disk_starts:
  assumes "disk_ok d f cs es"
  shows "sorted_wrt (<) (starts f cs)" and "\<forall>i \<in> set (starts f cs). 0 < i \<and> i < 2 ^ 64"
  using assms starts_sorted [of cs f] starts_bounds [of _ f cs] by (fastforce simp: disk_ok_def)+

lemma disk_names:
  assumes disk: "disk_ok d f cs es"
  shows "{n \<in> fst ` set d. wal_name n} = segmentName ` set (starts f cs)"
proof -
  have "segmentName i \<in> fst ` set d" if "i \<in> set (starts f cs)" for i
  proof -
    from that obtain k where "k \<le> length cs" "i = seg_start f cs k"
      by (auto simp: starts_def less_Suc_eq_le simp del: upt_Suc)
    then have "map_of d (segmentName i) \<noteq> None" using disk by (simp add: disk_iff)
    then show ?thesis by (simp add: map_of_eq_None_iff)
  qed
  then show ?thesis
    using disk disk_starts(2) [OF disk] wal_name_segment by (auto simp: disk_ok_def names_ok_def)
qed

section \<open>Loading\<close>

lemma starts_split: "starts f cs = map (seg_start f cs) [0..<length cs] @ [f + length (concat cs)]"
  by (simp add: starts_def)

lemma load_finish:
  assumes disk: "disk_ok d f cs es"
    and l: "lru_keys lru (lg_scache l) = []" "\<not> lg_closed l" "\<not> lg_corrupt l"
  shows "\<exists>s. loadSegmentEntries d (last (map mkseg (starts f cs))) = Inr s \<and>
     log_rel lru (l\<lparr>lg_dir := d, lg_segments := butlast (map mkseg (starts f cs)) @ [s],
        lg_firstIndex := sg_index (hd (map mkseg (starts f cs))), lg_sfile := sg_path s,
        lg_lastIndex := sg_index s + length (sg_epos s) - 1\<rparr>) f cs es []"
proof -
  let ?i = "f + length (concat cs)"
  let ?s = "(mkseg ?i)\<lparr>sg_ebuf := enc_all es, sg_epos := layout 0 es\<rparr>"
  have last: "last (map mkseg (starts f cs)) = mkseg ?i" by (simp add: starts_split)
  have butl: "butlast (map mkseg (starts f cs)) = map mkseg (map (seg_start f cs) [0..<length cs])"
    by (simp add: starts_split butlast_append)
  have hd: "sg_index (hd (map mkseg (starts f cs))) = f"
    by (cases cs) (simp_all add: starts_def mkseg_def upt_conv_Cons del: upt_Suc)
  have "loadSegmentEntries d (mkseg ?i) = Inr ?s"
    using disk loadEntries_all [of es 0] by (simp add: loadSegmentEntries_def mkseg_def disk_ok_def)
  moreover have "seg_ok d ((map mkseg (map (seg_start f cs) [0..<length cs]) @ [?s]) ! k) (seg_start f cs k) (cs ! k)"
    if "k < length cs" for k
    using disk that by (simp add: nth_append seg_ok_def mkseg_def disk_ok_def)
  moreover have "tail_ok d ?s ?i es []"
    using disk by (simp add: tail_ok_def mkseg_def disk_ok_def loaded_def)
  ultimately show ?thesis
    using disk l unfolding last butl hd by (simp add: log_rel_def disk_ok_def nth_append mkseg_def)
qed

lemma scan_plain:
  assumes "distinct (map fst d)" and "sorted_wrt (<) is" and "\<forall>i \<in> set is. 0 < i \<and> i < 2 ^ 64"
    and "{n \<in> fst ` set d. wal_name n} = segmentName ` set is"
  shows "scan (ReadDir d) (-1) (-1) [] = (-1, -1, map mkseg is)"
  using scan_filter [of "ReadDir d"] scan_segments [OF assms(3), of "[]"]
    ReadDir_filter [OF assms(1) segmentName_sorted [OF assms(2)]] assms(3,4) by simp

lemma load_plain:
  assumes disk: "disk_ok (lg_dir l) f cs es"
    and l: "lru_keys lru (lg_scache l) = []" "\<not> lg_closed l" "\<not> lg_corrupt l"
  shows "\<exists>l'. load l = (Inr (), l') \<and> log_rel lru l' f cs es [] \<and> lg_dir l' = lg_dir l"
proof -
  have "distinct (map fst (lg_dir l))" using disk by (simp add: disk_ok_def names_ok_def)
  note scan_plain [OF this disk_starts [OF disk] disk_names [OF disk]]
  moreover have "starts f cs \<noteq> []" by (simp add: starts_def)
  ultimately show ?thesis
    using load_finish [OF disk l] by (auto simp: load_def)
qed

text \<open>A directory with a segment marked START, and the directory it is turned into.\<close>

lemma load_start:
  assumes dist: "distinct (map fst (lg_dir l))"
    and names: "{n \<in> fst ` set (lg_dir l). wal_name n} =
                  set (map segmentName vs @ (segmentName j @ START) # map segmentName rest)"
    and sorted: "sorted_wrt (<) vs" "\<forall>i \<in> set vs. i \<le> j" "sorted_wrt (<) (j # rest)"
    and bnd: "\<forall>i \<in> set (vs @ j # rest). 0 < i \<and> i < 2 ^ 64"
    and run: "fs_run (map (\<lambda>i. Remove (segmentName i)) vs @ [Rename (segmentName j @ START) (segmentName j)])
                (lg_dir l) = (True, d')"
    and disk: "disk_ok d' j cs es" "starts j cs = j # rest"
    and l: "lru_keys lru (lg_scache l) = []" "\<not> lg_closed l" "\<not> lg_corrupt l"
  shows "\<exists>l'. load l = (Inr (), l') \<and> log_rel lru l' j cs es []"
proof -
  let ?m = "(mkseg j)\<lparr>sg_path := segmentName j @ START\<rparr>"
  let ?names = "map segmentName vs @ (segmentName j @ START) # map segmentName rest"
  have pre: "segmentName i < segmentName j @ START" if "i \<in> set vs" for i
    using that sorted(2) bnd segmentName_less [of i j "[]" START] string_less_prefix [of START "segmentName j"]
    by (cases "i = j") auto
  have post: "segmentName j @ START < segmentName i" if "i \<in> set rest" for i
    using that sorted(3) bnd segmentName_less [of j i START "[]"] by auto
  have mid: "segmentName i < segmentName k" if "i \<in> set vs" "k \<in> set rest" for i k
    using pre [OF that(1)] post [OF that(2)] by (rule less_trans)
  have "sorted_wrt (<) ?names"
    using segmentName_sorted [of vs] segmentName_sorted [of rest] sorted bnd pre post mid
    by (auto simp: sorted_wrt_append)
  from ReadDir_filter [OF dist this] names
  have "scan (ReadDir (lg_dir l)) (-1) (-1) [] = scan ?names (-1) (-1) []"
    using scan_filter [of "ReadDir (lg_dir l)"] by simp
  also have "\<dots> = (int (length vs), -1, map mkseg vs @ ?m # map mkseg rest)"
    using scan_segments [of vs "(segmentName j @ START) # map segmentName rest"]
      scan_segments [of rest "[]"] scan_start [of j] bnd by simp
  finally have sc: "scan (ReadDir (lg_dir l)) (-1) (-1) [] = \<dots>" .
  have un: "unmark (length START) ?m = mkseg j" by (simp add: unmark_def mkseg_def)
  have rm: "(\<lambda>s. Remove (sg_path s)) \<circ> mkseg = (\<lambda>i. Remove (segmentName i))"
    by (rule ext) (simp add: mkseg_def)
  have "cleanStart (length vs) (map mkseg vs @ ?m # map mkseg rest) (lg_dir l) =
      (Inr (map mkseg (starts j cs)), d')"
    using run un by (simp add: cleanStart_def nth_append rm disk(2) Let_def)
  then show ?thesis
    using load_finish [OF disk(1) l] sc by (auto simp: load_def)
qed

text \<open>A directory with a segment marked END.\<close>

lemma load_end:
  assumes dist: "distinct (map fst (lg_dir l))"
    and names: "{n \<in> fst ` set (lg_dir l). wal_name n} =
                  set (map segmentName vs @ (segmentName j @ END) # map segmentName rest)"
    and sorted: "sorted_wrt (<) vs" "\<forall>i \<in> set vs. i \<le> j" "sorted_wrt (<) (j # rest)"
    and bnd: "\<forall>i \<in> set (vs @ j # rest). 0 < i \<and> i < 2 ^ 64"
    and run: "fs_run (map (\<lambda>i. Remove (segmentName i)) (rev rest) @ [Rename (segmentName j @ END) (segmentName j)])
                (lg_dir l) = (True, d')"
    and disk: "disk_ok d' f cs es"
      "starts f cs = (if vs \<noteq> [] \<and> last vs = j then butlast vs else vs) @ [j]"
    and l: "lru_keys lru (lg_scache l) = []" "\<not> lg_closed l" "\<not> lg_corrupt l"
  shows "\<exists>l'. load l = (Inr (), l') \<and> log_rel lru l' f cs es []"
proof -
  let ?m = "(mkseg j)\<lparr>sg_path := segmentName j @ END\<rparr>"
  let ?names = "map segmentName vs @ (segmentName j @ END) # map segmentName rest"
  have pre: "segmentName i < segmentName j @ END" if "i \<in> set vs" for i
    using that sorted(2) bnd segmentName_less [of i j "[]" END] string_less_prefix [of END "segmentName j"]
    by (cases "i = j") auto
  have post: "segmentName j @ END < segmentName i" if "i \<in> set rest" for i
    using that sorted(3) bnd segmentName_less [of j i END "[]"] by auto
  have mid: "segmentName i < segmentName k" if "i \<in> set vs" "k \<in> set rest" for i k
    using pre [OF that(1)] post [OF that(2)] by (rule less_trans)
  have "sorted_wrt (<) ?names"
    using segmentName_sorted [of vs] segmentName_sorted [of rest] sorted bnd pre post mid
    by (auto simp: sorted_wrt_append)
  from ReadDir_filter [OF dist this] names
  have "scan (ReadDir (lg_dir l)) (-1) (-1) [] = scan ?names (-1) (-1) []"
    using scan_filter [of "ReadDir (lg_dir l)"] by simp
  also have "\<dots> = (-1, int (length vs), map mkseg vs @ ?m # map mkseg rest)"
    using scan_segments [of vs "(segmentName j @ END) # map segmentName rest"]
      scan_segments [of rest "[]"] scan_end [of j] bnd by simp
  finally have sc: "scan (ReadDir (lg_dir l)) (-1) (-1) [] = \<dots>" .
  have un: "unmark (length END) ?m = mkseg j" by (simp add: unmark_def mkseg_def)
  have rm: "(\<lambda>s. Remove (sg_path s)) \<circ> mkseg = (\<lambda>i. Remove (segmentName i))"
    by (rule ext) simp
  have kept: "(if map mkseg vs \<noteq> [] \<and> sg_index (last (map mkseg vs)) = j
      then butlast (map mkseg vs) else map mkseg vs) @ [mkseg j] = map mkseg (starts f cs)"
    by (cases "vs = []") (simp_all add: disk(2) last_map map_butlast)
  have "cleanEnd (length vs) (map mkseg vs @ ?m # map mkseg rest) (lg_dir l) =
      (Inr (map mkseg (starts f cs)), d')"
    using run un kept by (simp add: cleanEnd_def nth_append rm rev_map Let_def)
  then show ?thesis
    using load_finish [OF disk(1) l] sc by (auto simp: load_def)
qed

end
