(* ===== verification/WalCrash.thy ===== *)
theory WalCrash
  imports WalRecovery
begin

text \<open>
  Truncation. A truncated log holds the entries that were to stay, and a process that stops at
  any point of a truncation finds, when it opens the log again, either all the entries there were
  or exactly those that were to stay.
\<close>

section \<open>Crashes\<close>

text \<open>
  The directories a sequence of system calls may leave behind when the process stops: after any
  of the calls, or with part of what an append was to write.
\<close>

fun torn :: "fs_op \<Rightarrow> dir \<Rightarrow> dir \<Rightarrow> bool" where
  "torn (Append n b) d d' \<longleftrightarrow> (\<exists>m. d' = snd (fs_do (Append n (take m b)) d))"
| "torn _ d d' \<longleftrightarrow> False"

fun crashed :: "fs_op list \<Rightarrow> dir \<Rightarrow> dir \<Rightarrow> bool" where
  "crashed [] d d' \<longleftrightarrow> d' = d"
| "crashed (c # cs) d d' \<longleftrightarrow> d' = d \<or> torn c d d' \<or> (fst (fs_do c d) \<and> crashed cs (snd (fs_do c d)) d')"

lemma map_of_update: "map_of (AList.update n b d) = (map_of d)(n \<mapsto> b)"
  by (rule update_conv')

lemma map_of_delete: "map_of (AList.delete n d) = (map_of d)(n := None)"
  by (rule delete_conv')

lemma map_of_deletes:
  "map_of (fold AList.delete ns d) = (\<lambda>n. if n \<in> set ns then None else map_of d n)"
  by (induction ns arbitrary: d) (auto simp: map_of_delete)

lemma distinct_deletes: "distinct (map fst d) \<Longrightarrow> distinct (map fst (fold AList.delete ns d))"
  by (induction ns arbitrary: d) (simp_all add: distinct_delete)

lemma fs_run_removes:
  "distinct ns \<Longrightarrow> \<forall>n \<in> set ns. map_of d n \<noteq> None \<Longrightarrow>
   fs_run (map Remove ns @ cs) d = fs_run cs (fold AList.delete ns d)"
proof (induction ns arbitrary: d)
  case Nil
  then show ?case by simp
next
  case (Cons n ns)
  then have "\<forall>m \<in> set ns. map_of (AList.delete n d) m \<noteq> None" by (auto simp: map_of_delete)
  with Cons show ?case by (auto split: option.split)
qed

lemma crashed_removes:
  "distinct ns \<Longrightarrow> \<forall>n \<in> set ns. map_of d n \<noteq> None \<Longrightarrow> crashed (map Remove ns @ cs) d d' \<Longrightarrow>
   (\<exists>m. d' = fold AList.delete (take m ns) d) \<or> crashed cs (fold AList.delete ns d) d'"
proof (induction ns arbitrary: d)
  case Nil
  then show ?case by simp
next
  case (Cons n ns)
  have pres: "\<forall>m \<in> set ns. map_of (AList.delete n d) m \<noteq> None"
    using Cons.prems by (auto simp: map_of_delete)
  have rm: "fs_do (Remove n) d = (True, AList.delete n d)" using Cons.prems(2) by auto
  from Cons.prems(3) rm consider "d' = d" | "crashed (map Remove ns @ cs) (AList.delete n d) d'" by auto
  then show ?case
  proof cases
    case 1
    then show ?thesis by (intro disjI1 exI [of _ 0]) simp
  next
    case 2
    have "(\<exists>m. d' = fold AList.delete (take m ns) (AList.delete n d)) \<or>
        crashed cs (fold AList.delete ns (AList.delete n d)) d'"
      using Cons.IH [OF _ pres 2] Cons.prems(1) by simp
    then show ?thesis
    proof (elim disjE exE)
      fix m assume "d' = fold AList.delete (take m ns) (AList.delete n d)"
      then show ?thesis by (intro disjI1 exI [of _ "Suc m"]) simp
    qed simp_all
  qed
qed

text \<open>The directory after the marked file has its name.\<close>

definition marked_dir :: "bytes \<Rightarrow> string \<Rightarrow> dir \<Rightarrow> dir" where
  "marked_dir ebuf marked d =
     AList.update marked ebuf (AList.delete TEMP (AList.update TEMP ebuf (AList.update TEMP [] d)))"

lemma marked_dir_map:
  "marked \<noteq> TEMP \<Longrightarrow> map_of (marked_dir ebuf marked d) = (map_of d)(TEMP := None, marked \<mapsto> ebuf)"
  by (auto simp: marked_dir_def map_of_update map_of_delete)

lemma marked_dir_distinct: "distinct (map fst d) \<Longrightarrow> distinct (map fst (marked_dir ebuf marked d))"
  by (simp add: marked_dir_def distinct_update distinct_delete)

lemma truncOps_run:
  assumes "distinct victims" and "\<forall>n \<in> set victims. n \<noteq> TEMP \<and> n \<noteq> marked \<and> map_of d n \<noteq> None"
    and "marked \<noteq> TEMP"
  shows "fs_run (truncOps ebuf marked victims name) d =
     (True, AList.update name ebuf (AList.delete marked (fold AList.delete victims (marked_dir ebuf marked d))))"
proof -
  let ?d = "marked_dir ebuf marked d"
  have pre: "fs_run (truncOps ebuf marked victims name) d = fs_run (map Remove victims @ [Rename marked name]) ?d"
    by (simp add: truncOps_def marked_dir_def map_of_update)
  have "\<forall>n \<in> set victims. map_of ?d n \<noteq> None" using assms by (simp add: marked_dir_map)
  moreover have "map_of (fold AList.delete victims ?d) marked = Some ebuf"
    using assms by (auto simp: map_of_deletes marked_dir_map)
  ultimately show ?thesis unfolding pre using fs_run_removes [OF assms(1)] by simp
qed

lemma truncOps_crashed:
  assumes "distinct victims" and "\<forall>n \<in> set victims. n \<noteq> TEMP \<and> n \<noteq> marked \<and> map_of d n \<noteq> None"
    and "marked \<noteq> TEMP" and "crashed (truncOps ebuf marked victims name) d d'"
  shows "(\<exists>b. d' = d \<or> d' = AList.update TEMP b (AList.update TEMP [] d) \<or> d' = AList.update TEMP b d) \<or>
     (\<exists>m. d' = fold AList.delete (take m victims) (marked_dir ebuf marked d)) \<or>
     (True, d') = fs_run (truncOps ebuf marked victims name) d"
proof -
  let ?d = "marked_dir ebuf marked d"
  have vict: "\<forall>n \<in> set victims. map_of ?d n \<noteq> None" using assms by (simp add: marked_dir_map)
  have m: "map_of (fold AList.delete victims ?d) marked = Some ebuf"
    using assms by (auto simp: map_of_deletes marked_dir_map)
  have "(\<exists>b. d' = d \<or> d' = AList.update TEMP b (AList.update TEMP [] d) \<or> d' = AList.update TEMP b d) \<or>
      crashed (map Remove victims @ [Rename marked name]) ?d d'"
    using assms(4) unfolding truncOps_def marked_dir_def by (auto simp: map_of_update)
  then show ?thesis
  proof
    assume "crashed (map Remove victims @ [Rename marked name]) ?d d'"
    from crashed_removes [OF assms(1) vict this] show ?thesis
      using truncOps_run [OF assms(1-3)] m
      by (auto intro: exI [of _ "length victims"])
  qed blast
qed

lemma length_neq: "length xs \<noteq> length ys \<Longrightarrow> xs \<noteq> ys"
  by auto

lemma segmentName_neq [simp]:
  "segmentName a \<noteq> TEMP" "segmentName a \<noteq> segmentName b @ START" "segmentName a \<noteq> segmentName b @ END"
  "segmentName b @ START \<noteq> TEMP" "segmentName b @ END \<noteq> TEMP"
  by (rule length_neq, simp)+

lemma segmentName_notin:
  assumes "i \<notin> A" and "i < 2 ^ 64" and "\<And>a. a \<in> A \<Longrightarrow> a < 2 ^ 64"
  shows "segmentName i \<notin> segmentName ` A"
  using assms segmentName_inject by (metis imageE)

lemma names_ok_subset:
  assumes "names_ok d is" and "distinct (map fst d')"
    and "\<And>n. wal_name n \<Longrightarrow> map_of d' n \<noteq> None \<Longrightarrow> map_of d n \<noteq> None"
  shows "names_ok d' is"
  unfolding names_ok_def
proof (intro conjI ballI impI)
  fix n assume "n \<in> fst ` set d'" "wal_name n"
  then have "map_of d n \<noteq> None" using assms(3) [of n] by (simp add: map_of_eq_None_iff)
  then show "n \<in> segmentName ` set is"
    using assms(1) \<open>wal_name n\<close> by (auto simp: names_ok_def map_of_eq_None_iff)
qed (rule assms(2))

lemma disk_temp:
  assumes "disk_ok d f cs es" and "distinct (map fst d')" and "\<And>n. n \<noteq> TEMP \<Longrightarrow> map_of d' n = map_of d n"
  shows "disk_ok d' f cs es"
proof -
  have "\<not> wal_name TEMP" by (simp add: wal_name_def)
  then have "names_ok d' (starts f cs)"
    using assms(1,3) names_ok_subset [OF _ assms(2)] unfolding disk_ok_def by metis
  moreover have "map_of d' (segmentName i) = map_of d (segmentName i)" for i
    by (rule assms(3)) simp
  ultimately show ?thesis using assms(1) by (simp add: disk_ok_def)
qed

lemma temp_states:
  assumes "disk_ok d f cs es"
    and "d' = d \<or> d' = AList.update TEMP b (AList.update TEMP [] d) \<or> d' = AList.update TEMP b d"
  shows "disk_ok d' f cs es"
proof (rule disk_temp [OF assms(1)])
  have "distinct (map fst d)" using assms(1) by (simp add: disk_ok_def names_ok_def)
  then show "distinct (map fst d')" using assms(2) by (auto simp: distinct_update)
  show "map_of d' n = map_of d n" if "n \<noteq> TEMP" for n using assms(2) that by (auto simp: map_of_update)
qed

section \<open>Cutting off the front\<close>

definition frontCs :: "bytes list list \<Rightarrow> nat \<Rightarrow> nat \<Rightarrow> bytes list list" where
  "frontCs cs k j = (if k < length cs then drop j (cs ! k) # drop (Suc k) cs else [])"

definition frontEs :: "bytes list list \<Rightarrow> bytes list \<Rightarrow> nat \<Rightarrow> nat \<Rightarrow> bytes list" where
  "frontEs cs es k j = (if k < length cs then es else drop j es)"

lemma front_concat:
  assumes "k \<le> length cs" and "j \<le> length (entries_of cs es k)"
  shows "concat (frontCs cs k j) @ frontEs cs es k j = drop (length (concat (take k cs)) + j) (concat cs @ es)"
proof (cases "k < length cs")
  case True
  have "concat cs = concat (take k cs) @ cs ! k @ concat (drop (Suc k) cs)"
    using True by (metis concat.simps(2) concat_append id_take_nth_drop)
  with True assms show ?thesis by (simp add: frontCs_def frontEs_def entries_of_def)
next
  case False
  with assms show ?thesis by (simp add: frontCs_def frontEs_def entries_of_def)
qed

lemma front_seg_start:
  assumes "k < length cs" and "j \<le> length (cs ! k)" and "i \<le> length cs - Suc k"
  shows "seg_start (seg_start f cs k + j) (frontCs cs k j) (Suc i) = seg_start f cs (Suc k + i)"
proof -
  have "take (Suc k + i) cs = take k cs @ cs ! k # take i (drop (Suc k) cs)"
    using assms(1) by (metis append.assoc append_Cons append_Nil take_Suc_conv_app_nth take_add)
  with assms show ?thesis by (simp add: seg_start_def frontCs_def)
qed

lemma front_entries:
  assumes "k \<le> length cs" and "i \<le> length (frontCs cs k j)"
  shows "entries_of (frontCs cs k j) (frontEs cs es k j) i =
           (if i = 0 then drop j (entries_of cs es k) else entries_of cs es (k + i))"
  using assms by (cases i) (auto simp: entries_of_def frontCs_def frontEs_def)

lemma front_start_index:
  assumes "k \<le> length cs" and "j < length (entries_of cs es k)" and "i \<le> length (frontCs cs k j)" and "0 < i"
  shows "seg_start (seg_start f cs k + j) (frontCs cs k j) i = seg_start f cs (k + i)"
proof -
  from assms have k: "k < length cs" by (cases "k < length cs") (auto simp: frontCs_def)
  from assms(4) obtain i' where i: "i = Suc i'" by (cases i) auto
  show ?thesis
    using front_seg_start [OF k, of j i' f] assms(2,3) k
    by (simp add: i entries_of_def frontCs_def)
qed

lemma front_starts:
  assumes "k \<le> length cs" and "j < length (entries_of cs es k)"
  shows "starts (seg_start f cs k + j) (frontCs cs k j) = (seg_start f cs k + j) # drop (Suc k) (starts f cs)"
proof (rule nth_equalityI)
  show len: "length (starts (seg_start f cs k + j) (frontCs cs k j)) =
      length ((seg_start f cs k + j) # drop (Suc k) (starts f cs))"
    using assms(1) by (auto simp: frontCs_def)
  fix i assume "i < length (starts (seg_start f cs k + j) (frontCs cs k j))"
  then have i: "i \<le> length (frontCs cs k j)" by simp
  have "k + i \<le> length cs" using i assms(1) by (auto simp: frontCs_def split: if_splits)
  then show "starts (seg_start f cs k + j) (frontCs cs k j) ! i =
      ((seg_start f cs k + j) # drop (Suc k) (starts f cs)) ! i"
    using front_start_index [OF assms i, of f] i by (cases i) (simp_all add: starts_nth)
qed

text \<open>The directory a completed \<^verbatim>\<open>truncateFront\<close> leaves.\<close>

lemma front_nonempty:
  assumes "\<forall>i < length cs. cs ! i \<noteq> []" and "k \<le> length cs" and "j < length (entries_of cs es k)"
  shows "\<forall>i < length (frontCs cs k j). frontCs cs k j ! i \<noteq> []"
  using assms by (auto simp: frontCs_def entries_of_def nth_Cons split: nat.splits)

text \<open>The segments after the one that is cut.\<close>

lemma front_later:
  assumes disk: "disk_ok d f cs es" and k: "k \<le> length cs" and j: "j < length (entries_of cs es k)"
    and index: "index = seg_start f cs k + j" and i: "i \<in> set (drop (Suc k) (starts f cs))"
  shows "index < i" and "i \<notin> set (take (Suc k) (starts f cs))" and "i < 2 ^ 64"
    and "sorted_wrt (<) (index # drop (Suc k) (starts f cs))"
proof -
  note st = disk_starts [OF disk]
  have "\<forall>i < length cs. cs ! i \<noteq> []" using disk by (simp add: disk_ok_def)
  from starts_sorted [OF front_nonempty [OF this k j], of index]
  show s: "sorted_wrt (<) (index # drop (Suc k) (starts f cs))"
    using front_starts [OF k j, of f] index by simp
  then show "index < i" using i by simp
  have "sorted_wrt (<) (take (Suc k) (starts f cs) @ drop (Suc k) (starts f cs))" using st(1) by simp
  then show "i \<notin> set (take (Suc k) (starts f cs))"
    using i unfolding sorted_wrt_append by blast
  show "i < 2 ^ 64" using st(2) i by (meson in_set_dropD)
qed

lemma front_length:
  assumes "k \<le> length cs" and "j \<le> length (entries_of cs es k)"
  shows "length (concat (take k cs)) + j \<le> length (concat cs @ es)"
proof (cases "k < length cs")
  case True
  then have "concat cs = concat (take k cs) @ cs ! k @ concat (drop (Suc k) cs)"
    by (metis concat.simps(2) concat_append id_take_nth_drop)
  then have "length (concat cs) = length (concat (take k cs)) + (length (cs ! k) + length (concat (drop (Suc k) cs)))"
    by (metis length_append)
  with True assms(2) show ?thesis by (simp add: entries_of_def)
qed (use assms in \<open>simp add: entries_of_def\<close>)

lemma front_disk:
  assumes disk: "disk_ok d f cs es" and k: "k \<le> length cs" and j: "j < length (entries_of cs es k)"
    and index: "index = seg_start f cs k + j"
    and dist: "distinct (map fst d')"
    and map: "\<And>n. map_of d' n = (if n = segmentName index then Some (enc_all (drop j (entries_of cs es k)))
        else if n \<in> segmentName ` set (take (Suc k) (starts f cs)) \<or> n = segmentName index @ START \<or> n = TEMP
        then None else map_of d n)"
  shows "disk_ok d' index (frontCs cs k j) (frontEs cs es k j)"
proof -
  let ?cs = "frontCs cs k j" and ?es = "frontEs cs es k j"
  note st = disk_starts [OF disk] and later = front_later [OF disk k j index]
  have ne: "\<forall>i < length cs. cs ! i \<noteq> []" using disk by (simp add: disk_ok_def)
  have con: "concat ?cs @ ?es = drop (index - f) (concat cs @ es)"
    using front_concat [OF k, of j es] j by (simp add: index seg_start_def)
  have len: "index + length (concat ?cs @ ?es) = f + length (concat cs @ es)"
    unfolding con using front_length [OF k, of j es] j by (simp add: index seg_start_def)
  have starts': "starts index ?cs = index # drop (Suc k) (starts f cs)"
    using front_starts [OF k j, of f] index by simp
  have keep: "map_of d' (segmentName i) = map_of d (segmentName i)" if "i \<in> set (drop (Suc k) (starts f cs))" for i
  proof -
    have "segmentName i \<notin> segmentName ` set (take (Suc k) (starts f cs))"
      using later(2,3) [OF that] st(2) by (intro segmentName_notin) (auto dest: in_set_takeD)
    moreover have "segmentName i \<noteq> segmentName index"
      using later(1,3) [OF that] segmentName_inject [of i index] by simp
    ultimately show ?thesis using map [of "segmentName i"] by simp
  qed
  have content: "map_of d' (segmentName (seg_start index ?cs i)) = Some (enc_all (entries_of ?cs ?es i))"
    if i: "i \<le> length ?cs" for i
  proof (cases i)
    case 0
    then show ?thesis using front_entries [OF k, of 0 j es] map [of "segmentName index"] by simp
  next
    case (Suc i')
    have ki: "k + i \<le> length cs" using i k by (auto simp: frontCs_def split: if_splits)
    have e: "seg_start index ?cs i = seg_start f cs (k + i)"
      using front_start_index [OF k j i, of f] index Suc by simp
    have "seg_start f cs (k + i) \<in> set (drop (Suc k) (starts f cs))"
      using nth_mem [of i' "drop (Suc k) (starts f cs)"] ki Suc by (simp add: starts_nth)
    from keep [OF this] have "map_of d' (segmentName (seg_start index ?cs i)) = Some (enc_all (entries_of cs es (k + i)))"
      using disk ki by (simp add: disk_iff e)
    then show ?thesis using front_entries [OF k i] Suc by simp
  qed
  have "names_ok d' (starts index ?cs)"
    unfolding names_ok_def
  proof (intro conjI dist ballI impI)
    fix n assume n: "n \<in> fst ` set d'" "wal_name n"
    then have "map_of d' n \<noteq> None" by (simp add: map_of_eq_None_iff)
    with map [of n] consider "n = segmentName index"
      | "map_of d n \<noteq> None" "n \<notin> segmentName ` set (take (Suc k) (starts f cs))" by (auto split: if_splits)
    then show "n \<in> segmentName ` set (starts index ?cs)"
    proof cases
      case 2
      then have "n \<in> segmentName ` set (starts f cs)"
        using disk_names [OF disk] n(2) by (auto simp: map_of_eq_None_iff)
      moreover have "set (starts f cs) = set (take (Suc k) (starts f cs)) \<union> set (drop (Suc k) (starts f cs))"
        by (metis append_take_drop_id set_append)
      ultimately show ?thesis using 2(2) unfolding starts' by auto
    qed (simp add: starts')
  qed
  moreover have "index + length (concat ?cs) + length ?es \<le> 2 ^ 63"
    using len disk by (simp add: disk_ok_def add.assoc)
  moreover have "\<forall>e \<in> set (concat ?cs @ ?es). small e"
    unfolding con using disk by (meson disk_ok_def in_set_dropD)
  moreover have "0 < index" using disk by (simp add: index seg_start_def disk_ok_def)
  ultimately show ?thesis
    unfolding disk_iff using content front_nonempty [OF ne k j] by blast
qed

text \<open>The directory while segments are being deleted: which names it has.\<close>

lemma segmentName_inj: "inj_on segmentName {i. i < 2 ^ 64}"
  by (auto simp: inj_on_def segmentName_inject)

lemma marked_names:
  assumes disk: "disk_ok d f cs es" and S: "starts f cs = us @ ws @ rest" and i: "0 < i" "i < 2 ^ 64"
    and marked: "marked = segmentName i @ START \<or> marked = segmentName i @ END"
    and d': "d' = fold AList.delete (map segmentName ws) (marked_dir ebuf marked d)"
  shows "{n \<in> fst ` set d'. wal_name n} = insert marked (segmentName ` set (us @ rest))"
proof -
  note st = disk_starts [OF disk]
  have mt: "marked \<noteq> TEMP" and mw: "wal_name marked" and tw: "\<not> wal_name TEMP"
    and ms: "marked \<notin> segmentName ` set ws"
    using marked i wal_name_marked by (auto simp: wal_name_def dest: sym)
  have dist: "set ws \<inter> set (us @ rest) = {}"
    using st(1) unfolding S strict_sorted_iff by auto
  have sub: "set ws \<subseteq> {i. i < 2 ^ 64}" "set (us @ rest) \<subseteq> {i. i < 2 ^ 64}" using st(2) S by auto
  have diff: "segmentName ` set (us @ ws @ rest) - segmentName ` set ws = segmentName ` set (us @ rest)"
    using inj_on_image_Int [OF segmentName_inj sub] dist by auto
  have "fst ` set d' = dom (map_of d')" by (rule dom_map_of_conv_image_fst [symmetric])
  also have "\<dots> = insert marked (dom (map_of d) - {TEMP}) - segmentName ` set ws"
    by (auto simp: d' map_of_deletes marked_dir_map [OF mt] split: if_splits)
  finally have "{n \<in> fst ` set d'. wal_name n} =
      insert marked ({n \<in> dom (map_of d). wal_name n} - segmentName ` set ws)"
    using mw tw ms by auto
  then show ?thesis
    using disk_names [OF disk] diff by (simp add: S dom_map_of_conv_image_fst)
qed

lemma starts_present:
  assumes "disk_ok d f cs es" and "i \<in> set (starts f cs)"
  shows "map_of d (segmentName i) \<noteq> None"
  using disk_names [OF assms(1)] assms(2) by (auto simp: map_of_eq_None_iff)

lemma starts_names_distinct:
  assumes "disk_ok d f cs es" and "starts f cs = us @ ws @ rest"
  shows "distinct (map segmentName ws)"
  using disk_starts [OF assms(1)] assms(2)
  by (auto simp: distinct_map strict_sorted_iff intro!: inj_on_subset [OF segmentName_inj])

text \<open>Deleting the other segments and removing the mark, after some have been deleted before.\<close>

lemma resume_run:
  assumes disk: "disk_ok d f cs es" and sub: "set ws \<union> set xs \<subseteq> set (starts f cs)"
    and xs: "distinct xs" "set ws \<inter> set xs = {}"
    and marked: "marked = segmentName i @ START \<or> marked = segmentName i @ END"
    and d': "d' = fold AList.delete (map segmentName ws) (marked_dir ebuf marked d)"
  shows "\<exists>d2. fs_run (map (\<lambda>i. Remove (segmentName i)) xs @ [Rename marked (segmentName i)]) d' = (True, d2) \<and>
     distinct (map fst d2) \<and>
     (\<forall>n. map_of d2 n = (if n = segmentName i then Some ebuf
        else if n \<in> segmentName ` (set ws \<union> set xs) \<or> n = marked \<or> n = TEMP then None else map_of d n))"
proof -
  have mt: "marked \<noteq> TEMP" and ms: "marked \<noteq> segmentName a" for a
    using marked segmentName_neq by metis+
  have small: "a < 2 ^ 64" if "a \<in> set ws \<union> set xs" for a using disk_starts(2) [OF disk] sub that by auto
  have map_d': "map_of d' n = (if n \<in> segmentName ` set ws then None
      else ((map_of d)(TEMP := None, marked \<mapsto> ebuf)) n)" for n
    unfolding d' map_of_deletes marked_dir_map [OF mt] by simp
  have dist: "distinct (map fst d')"
    unfolding d' using disk by (intro distinct_deletes marked_dir_distinct) (simp add: disk_ok_def names_ok_def)
  have dm: "distinct (map segmentName xs)"
    using xs(1) small by (auto simp: distinct_map inj_on_def segmentName_inject)
  have pres: "map_of d' (segmentName a) \<noteq> None" if "a \<in> set xs" for a
  proof -
    have "segmentName a \<notin> segmentName ` set ws"
      using that xs(2) small by (intro segmentName_notin) auto
    moreover have "map_of d (segmentName a) \<noteq> None" using starts_present [OF disk] sub that by auto
    ultimately show ?thesis using ms [of a] by (auto simp: map_d')
  qed
  let ?d = "fold AList.delete (map segmentName xs) d'"
  have mk: "map_of ?d marked = Some ebuf" using ms by (auto simp: map_of_deletes map_d')
  let ?d2 = "AList.update (segmentName i) ebuf (AList.delete marked ?d)"
  have "fs_run (map Remove (map segmentName xs) @ [Rename marked (segmentName i)]) d' = (True, ?d2)"
    using fs_run_removes [OF dm] pres mk by simp
  then have run: "fs_run (map (\<lambda>i. Remove (segmentName i)) xs @ [Rename marked (segmentName i)]) d' = (True, ?d2)"
    by (simp add: comp_def)
  have "distinct (map fst ?d2)" using dist by (simp add: distinct_update distinct_delete distinct_deletes)
  moreover have "map_of ?d2 n = (if n = segmentName i then Some ebuf
      else if n \<in> segmentName ` (set ws \<union> set xs) \<or> n = marked \<or> n = TEMP then None else map_of d n)" for n
    by (auto simp: map_of_update map_of_delete map_of_deletes map_d')
  ultimately show ?thesis using run by blast
qed


lemma disk_index_bound:
  assumes "disk_ok d f cs es" and "k \<le> length cs" and "j \<le> length (entries_of cs es k)"
  shows "0 < seg_start f cs k + j" and "seg_start f cs k + j < 2 ^ 64"
  using front_length [OF assms(2,3)] assms(1) by (auto simp: disk_ok_def seg_start_def)

lemma starts_before:
  assumes "disk_ok d f cs es" and "k \<le> length cs" and "i \<in> set (take (Suc k) (starts f cs))"
  shows "i \<le> seg_start f cs k"
proof -
  obtain h where "h \<le> k" "i = seg_start f cs h"
    using assms(2,3) by (auto simp: in_set_conv_nth starts_nth less_Suc_eq_le)
  then show ?thesis
    using seg_start_mono [of cs h k f] assms(1,2) by (cases "h = k") (auto simp: disk_ok_def)
qed

text \<open>Opening a log after \<^verbatim>\<open>truncateFront\<close> has deleted some of the segments it replaces.\<close>

lemma front_removed:
  assumes disk: "disk_ok d f cs es" and k: "k \<le> length cs" and j: "j < length (entries_of cs es k)"
    and index: "index = seg_start f cs k + j"
    and d': "d' = fold AList.delete (map segmentName (take m (take (Suc k) (starts f cs))))
        (marked_dir (enc_all (drop j (entries_of cs es k))) (segmentName index @ START) d)"
    and l: "lg_dir l = d'" "lru_keys lru (lg_scache l) = []" "\<not> lg_closed l" "\<not> lg_corrupt l"
  shows "\<exists>l'. load l = (Inr (), l') \<and> log_rel lru l' index (frontCs cs k j) (frontEs cs es k j) []"
proof -
  define V where "V = take (Suc k) (starts f cs)"
  define rest where "rest = drop (Suc k) (starts f cs)"
  note st = disk_starts [OF disk]
  have S: "starts f cs = take m V @ drop m V @ rest"
    unfolding V_def rest_def by (metis append.assoc append_take_drop_id)
  have VV: "set (take m V) \<union> set (drop m V) = set V" by (metis append_take_drop_id set_append)
  have sorted: "sorted_wrt (<) (take m V)" "sorted_wrt (<) (drop m V)" "set (take m V) \<inter> set (drop m V) = {}"
    using st(1) unfolding S by (auto simp: sorted_wrt_append)
  have starts': "starts index (frontCs cs k j) = index # rest"
    using front_starts [OF k j, of f] index by (simp add: rest_def)
  have sorted2: "sorted_wrt (<) (index # rest)"
    using starts_sorted [OF front_nonempty [OF _ k j], of index] disk by (simp add: disk_ok_def starts')
  have ib: "0 < index" "index < 2 ^ 64" using disk_index_bound [OF disk k, of j] j index by simp_all
  obtain d2 where run: "fs_run (map (\<lambda>i. Remove (segmentName i)) (drop m V) @
      [Rename (segmentName index @ START) (segmentName index)]) d' = (True, d2)"
    and d2: "distinct (map fst d2)"
      "\<And>n. map_of d2 n = (if n = segmentName index then Some (enc_all (drop j (entries_of cs es k)))
        else if n \<in> segmentName ` set V \<or> n = segmentName index @ START \<or> n = TEMP then None else map_of d n)"
  proof -
    have "set (take m V) \<union> set (drop m V) \<subseteq> set (starts f cs)" unfolding S by auto
    moreover have "distinct (drop m V)" using sorted(2) by (simp add: strict_sorted_iff)
    ultimately show ?thesis
      using resume_run [OF disk _ _ sorted(3) disjI1 [OF refl] d' [folded V_def]] that
      unfolding VV by blast
  qed
  show ?thesis
  proof (rule load_start)
    show "distinct (map fst (lg_dir l))"
      unfolding l d' using disk by (intro distinct_deletes marked_dir_distinct) (simp add: disk_ok_def names_ok_def)
    show "{n \<in> fst ` set (lg_dir l). wal_name n} =
        set (map segmentName (drop m V) @ (segmentName index @ START) # map segmentName rest)"
      using marked_names [OF disk, of "[]" "take m V" "drop m V @ rest", OF _ ib _ d' [folded V_def]] S
      by (auto simp: l(1))
    show "\<forall>i \<in> set (drop m V). i \<le> index"
      using starts_before [OF disk k] VV by (fastforce simp: index V_def)
    show "\<forall>i \<in> set (drop m V @ index # rest). 0 < i \<and> i < 2 ^ 64"
      using st(2) ib unfolding S by auto
    show "disk_ok d2 index (frontCs cs k j) (frontEs cs es k j)"
      using front_disk [OF disk k j index d2(1)] d2(2) by (simp add: V_def)
  qed (use sorted sorted2 run l starts' in simp_all)
qed

text \<open>The directory after all the calls, and the log found in it.\<close>

lemma truncOps_finished:
  assumes disk: "disk_ok d f cs es" and S: "starts f cs = us @ V @ ws"
    and marked: "marked = segmentName i @ START \<or> marked = segmentName i @ END"
  shows "\<exists>d2. fs_run (truncOps ebuf marked (map segmentName V) (segmentName i)) d = (True, d2) \<and>
     distinct (map fst d2) \<and>
     (\<forall>n. map_of d2 n = (if n = segmentName i then Some ebuf
        else if n \<in> segmentName ` set V \<or> n = marked \<or> n = TEMP then None else map_of d n))"
proof -
  have mt: "marked \<noteq> TEMP" and ms: "segmentName a \<noteq> marked" for a
    using marked segmentName_neq by metis+
  let ?d = "fold AList.delete (map segmentName V) (marked_dir ebuf marked d)"
  have vict: "distinct (map segmentName V)"
    "\<forall>n \<in> set (map segmentName V). n \<noteq> TEMP \<and> n \<noteq> marked \<and> map_of d n \<noteq> None"
    using starts_names_distinct [OF disk S] starts_present [OF disk] ms by (auto simp: S)
  have "map_of ?d marked = Some ebuf" using ms by (auto simp: map_of_deletes marked_dir_map [OF mt])
  then have eq: "fs_run (truncOps ebuf marked (map segmentName V) (segmentName i)) d =
      fs_run (map (\<lambda>i. Remove (segmentName i)) [] @ [Rename marked (segmentName i)]) ?d"
    using truncOps_run [OF vict mt] by simp
  have "set V \<union> set [] \<subseteq> set (starts f cs)" "distinct ([] :: nat list)" "set V \<inter> set [] = {}"
    by (auto simp: S)
  from resume_run [OF disk this marked refl, of ebuf] show ?thesis
    unfolding eq by (simp only: list.set Un_empty_right)
qed

lemma front_finished:
  assumes disk: "disk_ok d f cs es" and k: "k \<le> length cs" and j: "j < length (entries_of cs es k)"
    and index: "index = seg_start f cs k + j"
    and run: "(True, d') = fs_run (truncOps (enc_all (drop j (entries_of cs es k))) (segmentName index @ START)
        (map segmentName (take (Suc k) (starts f cs))) (segmentName index)) d"
  shows "disk_ok d' index (frontCs cs k j) (frontEs cs es k j)"
proof -
  have "starts f cs = [] @ take (Suc k) (starts f cs) @ drop (Suc k) (starts f cs)" by simp
  from truncOps_finished [OF disk this, of "segmentName index @ START" index "enc_all (drop j (entries_of cs es k))"] run
  have "distinct (map fst d')" "\<And>n. map_of d' n = (if n = segmentName index
      then Some (enc_all (drop j (entries_of cs es k)))
      else if n \<in> segmentName ` set (take (Suc k) (starts f cs)) \<or> n = segmentName index @ START \<or> n = TEMP
      then None else map_of d n)" by auto
  then show ?thesis by (rule front_disk [OF disk k j index])
qed

lemma front_crash:
  assumes disk: "disk_ok d f cs es" and k: "k \<le> length cs" and j: "j < length (entries_of cs es k)"
    and index: "index = seg_start f cs k + j"
    and crash: "crashed (truncOps (enc_all (drop j (entries_of cs es k))) (segmentName index @ START)
        (map segmentName (take (Suc k) (starts f cs))) (segmentName index)) d d'"
    and l: "lg_dir l = d'" "lru_keys lru (lg_scache l) = []" "\<not> lg_closed l" "\<not> lg_corrupt l"
  shows "\<exists>l'. load l = (Inr (), l') \<and>
    (log_rel lru l' f cs es [] \<or> log_rel lru l' index (frontCs cs k j) (frontEs cs es k j) [])"
proof -
  define V where "V = take (Suc k) (starts f cs)"
  have S: "starts f cs = [] @ V @ drop (Suc k) (starts f cs)" by (simp add: V_def)
  have vict: "distinct (map segmentName V)"
    "\<forall>n \<in> set (map segmentName V). n \<noteq> TEMP \<and> n \<noteq> segmentName index @ START \<and> map_of d n \<noteq> None"
    using starts_names_distinct [OF disk S] starts_present [OF disk] unfolding V_def by (auto dest!: in_set_takeD)
  from truncOps_crashed [OF vict segmentName_neq(4) crash [folded V_def]]
  consider (temp) b where "d' = d \<or> d' = AList.update TEMP b (AList.update TEMP [] d) \<or> d' = AList.update TEMP b d"
    | (removing) m where "d' = fold AList.delete (take m (map segmentName V))
        (marked_dir (enc_all (drop j (entries_of cs es k))) (segmentName index @ START) d)"
    | (finished) "(True, d') = fs_run (truncOps (enc_all (drop j (entries_of cs es k))) (segmentName index @ START)
        (map segmentName V) (segmentName index)) d"
    by blast
  then show ?thesis
  proof cases
    case temp
    from load_plain [of l f cs es lru] temp_states [OF disk temp] l show ?thesis by auto
  next
    case removing
    with front_removed [OF disk k j index _ l, of m] show ?thesis by (auto simp: take_map V_def)
  next
    case finished
    have "disk_ok d' index (frontCs cs k j) (frontEs cs es k j)"
      by (rule front_finished [OF disk k j index]) (use finished in \<open>simp add: V_def\<close>)
    from load_plain [of l index _ _ lru, unfolded l(1), OF this l(2-4)] show ?thesis by auto
  qed
qed

end
