(* ===== verification/Snapshotter.thy ===== *)
theory Snapshotter
  imports RaftTypes WalCrash
begin

text \<open>
  The snapshot files of \<^verbatim>\<open>src/persister/snapshotter.go\<close>, the messages of
  \<^verbatim>\<open>snapshot.proto\<close> and the helpers of \<^verbatim>\<open>util.go\<close> and \<^verbatim>\<open>state.go\<close> they need.

  Files are those of the write-ahead log (\<open>dir\<close>, \<open>fs_op\<close>); a directory that may be missing is an
  option. Marshalling is done by a library: \<open>codec\<close> stands for it and \<open>proto_codec\<close> states what
  is used of it. Log messages are not modelled.
\<close>

section \<open>The messages and their encoding\<close>

record Snapshot =
  sn_RowData :: bytes
  sn_LastIndex :: int
  sn_LastTerm :: int

record IndexState =
  is_FirstIndex :: int
  is_LastIndex :: int
  is_LastCommitIndex :: int
  is_RaftSate :: "State option"

text \<open>\<^verbatim>\<open>proto.Marshal\<close> and \<^verbatim>\<open>proto.Unmarshal\<close> of the three messages; \<^const>\<open>None\<close> is an error.\<close>

record codec =
  pb_Entry :: "Entry \<Rightarrow> bytes option"
  un_Entry :: "bytes \<Rightarrow> Entry option"
  pb_IndexState :: "IndexState \<Rightarrow> bytes option"
  un_IndexState :: "bytes \<Rightarrow> IndexState option"
  pb_Snapshot :: "Snapshot \<Rightarrow> bytes option"
  un_Snapshot :: "bytes \<Rightarrow> Snapshot option"

text \<open>
  What is relied on: a message that was encoded is decoded to itself, and the encoding of a
  message with a field that is set is not empty.
\<close>

locale proto_codec =
  fixes c :: codec
  assumes entry_roundtrip: "pb_Entry c e = Some b \<Longrightarrow> un_Entry c b = Some e"
    and state_roundtrip: "pb_IndexState c st = Some b \<Longrightarrow> un_IndexState c b = Some st"
    and state_nonempty: "pb_IndexState c st = Some b \<Longrightarrow> is_RaftSate st \<noteq> None \<Longrightarrow> b \<noteq> []"
    and snapshot_roundtrip: "pb_Snapshot c s = Some b \<Longrightarrow> un_Snapshot c b = Some s"
    and snapshot_nonempty: "pb_Snapshot c s = Some b \<Longrightarrow> sn_LastIndex s \<noteq> 0 \<Longrightarrow> b \<noteq> []"

definition IsEmptySnap :: "Snapshot \<Rightarrow> bool" where
  "IsEmptySnap sp \<longleftrightarrow> sn_LastIndex sp = 0"

definition isEmptyState :: "State \<Rightarrow> State \<Rightarrow> bool" where
  "isEmptyState a b \<longleftrightarrow> st_VotedFor a = st_VotedFor b \<and> st_CurrentTerm a = st_CurrentTerm b"

definition IsEmptyState :: "State \<Rightarrow> bool" where
  "IsEmptyState a = isEmptyState a \<lparr>st_VotedFor = 0, st_CurrentTerm = 0\<rparr>"

definition MustSync :: "State \<Rightarrow> State \<Rightarrow> int \<Rightarrow> bool" where
  "MustSync st prevst entsnum \<longleftrightarrow> entsnum \<noteq> 0 \<or> st_VotedFor st \<noteq> st_VotedFor prevst \<or>
     st_CurrentTerm st \<noteq> st_CurrentTerm prevst"

section \<open>Writing a file\<close>

text \<open>
  The file is truncated when it is opened and written afterwards; the result is \<^const>\<open>None\<close> if the
  directory does not exist.
\<close>

definition WriteAndSyncOps :: "string \<Rightarrow> bytes \<Rightarrow> fs_op list" where
  "WriteAndSyncOps filename data = [Create filename, Append filename data]"

definition WriteAndSyncFile :: "string \<Rightarrow> bytes \<Rightarrow> dir option \<Rightarrow> dir option" where
  "WriteAndSyncFile filename data d =
     map_option (\<lambda>d. snd (fs_run (WriteAndSyncOps filename data) d)) d"

section \<open>Snapshot files\<close>

datatype snap_err = ErrNoSnapshot | ErrEmptySnapshot | ErrSnapFile | ErrUnmarshal

abbreviation snapSuffix :: string where "snapSuffix \<equiv> ''.snap''"

text \<open>\<^verbatim>\<open>%016x\<close> of a 64 bit integer.\<close>

definition hex16 :: "int \<Rightarrow> string" where
  "hex16 n = (if n < 0 then ''-'' @ digits 16 15 (nat (- n)) else digits 16 16 (nat n))"

definition snapName :: "Snapshot \<Rightarrow> string" where
  "snapName s = hex16 (sn_LastTerm s) @ ''-'' @ hex16 (sn_LastIndex s) @ snapSuffix"

definition save_snap :: "codec \<Rightarrow> Snapshot \<Rightarrow> dir option \<Rightarrow> ((snap_err + unit) \<times> dir option) option" where
  "save_snap c s d = do {
     b \<leftarrow> pb_Snapshot c s;
     (case WriteAndSyncFile (snapName s) b d of
        None \<Rightarrow> Some (Inl ErrSnapFile, d)
      | Some d' \<Rightarrow> Some (Inr (), Some d'))
   }"

definition SaveSnap :: "codec \<Rightarrow> Snapshot \<Rightarrow> dir option \<Rightarrow> ((snap_err + unit) \<times> dir option) option" where
  "SaveSnap c s d = (if IsEmptySnap s then Some (Inr (), d) else save_snap c s d)"

definition ReadSnapFile :: "codec \<Rightarrow> string \<Rightarrow> dir \<Rightarrow> snap_err + Snapshot" where
  "ReadSnapFile c snapname d = (case map_of d snapname of
       None \<Rightarrow> Inl ErrSnapFile
     | Some b \<Rightarrow> (if b = [] then Inl ErrEmptySnapshot
         else (case un_Snapshot c b of None \<Rightarrow> Inl ErrUnmarshal | Some s \<Rightarrow> Inr s)))"

text \<open>A file that cannot be read is renamed.\<close>

definition loadSnap :: "codec \<Rightarrow> string \<Rightarrow> dir \<Rightarrow> (snap_err + Snapshot) \<times> dir" where
  "loadSnap c name d = (case ReadSnapFile c name d of
       Inr s \<Rightarrow> (Inr s, d)
     | Inl e \<Rightarrow> (Inl e, snd (fs_do (Rename name (name @ ''.broken'')) d)))"

definition hasPrefix :: "string \<Rightarrow> string \<Rightarrow> bool" where
  "hasPrefix s p \<longleftrightarrow> take (length p) s = p"

fun cleanupSnapdir :: "string list \<Rightarrow> dir \<Rightarrow> string list \<times> dir" where
  "cleanupSnapdir [] d = ([], d)"
| "cleanupSnapdir (f # fs) d =
     (if hasPrefix f ''db.tmp'' then cleanupSnapdir fs (snd (fs_do (Remove f) d))
      else (let (names, d') = cleanupSnapdir fs d in (f # names, d')))"

definition checkSuffix :: "string list \<Rightarrow> string list" where
  "checkSuffix names = filter (\<lambda>n. hasSuffix n snapSuffix) names"

definition snapNames :: "dir option \<Rightarrow> (snap_err + string list) \<times> dir option" where
  "snapNames d = (case d of
       None \<Rightarrow> (Inl ErrSnapFile, None)
     | Some d \<Rightarrow>
         (let (filenames, d') = cleanupSnapdir (map fst d) d;
              snaps = checkSuffix filenames
          in if snaps = [] then (Inl ErrNoSnapshot, Some d')
             else (Inr (rev (sort snaps)), Some d')))"

fun loadNames :: "codec \<Rightarrow> (Snapshot \<Rightarrow> bool) \<Rightarrow> string list \<Rightarrow> dir \<Rightarrow> (snap_err + Snapshot) \<times> dir" where
  "loadNames c matchFn [] d = (Inl ErrNoSnapshot, d)"
| "loadNames c matchFn (name # names) d = (case loadSnap c name d of
       (Inr s, d') \<Rightarrow> if matchFn s then (Inr s, d') else loadNames c matchFn names d'
     | (Inl e, d') \<Rightarrow> loadNames c matchFn names d')"

definition loadMatching :: "codec \<Rightarrow> (Snapshot \<Rightarrow> bool) \<Rightarrow> dir option \<Rightarrow> (snap_err + Snapshot) \<times> dir option" where
  "loadMatching c matchFn d = (case snapNames d of
       (Inl e, d') \<Rightarrow> (Inl e, d')
     | (Inr names, d') \<Rightarrow> (case d' of
           None \<Rightarrow> (Inl ErrSnapFile, None)
         | Some d1 \<Rightarrow> (let (r, d2) = loadNames c matchFn names d1 in (r, Some d2))))"

definition Load :: "codec \<Rightarrow> dir option \<Rightarrow> (snap_err + Snapshot) \<times> dir option" where
  "Load c d = loadMatching c (\<lambda>_. True) d"

section \<open>The newest snapshot is the one that is loaded\<close>

lemma cleanup_names: "fst (cleanupSnapdir fs d) = filter (\<lambda>f. \<not> hasPrefix f ''db.tmp'') fs"
  by (induction fs d rule: cleanupSnapdir.induct) (auto split: prod.splits)

lemma cleanup_files:
  "\<not> hasPrefix n ''db.tmp'' \<Longrightarrow> map_of (snd (cleanupSnapdir fs d)) n = map_of d n"
proof (induction fs d rule: cleanupSnapdir.induct)
  case (1 d)
  then show ?case by simp
next
  case (2 f fs d)
  then have "map_of (snd (fs_do (Remove f) d)) n = map_of d n" if "hasPrefix f ''db.tmp''"
    using that by (auto simp: map_of_delete split: option.splits)
  with 2 show ?case by (auto split: prod.splits)
qed

lemma hex16_length: "length (hex16 n) = 16"
  by (simp add: hex16_def)

lemma hex16_less:
  assumes "0 \<le> m" and "m < n" and "n < 2 ^ 63"
  shows "hex16 m < hex16 n"
proof -
  have "nat n < 16 ^ 16" using assms by (simp add: nat_less_iff)
  with assms digits_less [of "nat m" "nat n" 16 16] show ?thesis by (simp add: hex16_def)
qed

text \<open>Names are ordered as term and index are.\<close>

lemma snapName_less:
  assumes "0 \<le> sn_LastTerm s" "0 \<le> sn_LastIndex s" "sn_LastTerm t < 2 ^ 63" "sn_LastIndex t < 2 ^ 63"
    and "sn_LastTerm s < sn_LastTerm t \<or> sn_LastTerm s = sn_LastTerm t \<and> sn_LastIndex s < sn_LastIndex t"
  shows "snapName s < snapName t"
proof (cases "sn_LastTerm s < sn_LastTerm t")
  case True
  with assms(1,3) have "hex16 (sn_LastTerm s) < hex16 (sn_LastTerm t)" by (intro hex16_less)
  then show ?thesis unfolding snapName_def by (rule string_less_append) (simp add: hex16_length)
next
  case False
  with assms have "hex16 (sn_LastIndex s) < hex16 (sn_LastIndex t)" by (intro hex16_less) auto
  then have "hex16 (sn_LastIndex s) @ snapSuffix < hex16 (sn_LastIndex t) @ snapSuffix"
    by (rule string_less_append) (simp add: hex16_length)
  with False assms(5) show ?thesis unfolding snapName_def by (simp add: list_less_def lexord_append_leftI)
qed

lemma hasSuffix_append: "hasSuffix (s @ suf) suf"
  by (simp add: hasSuffix_def)

lemma snapName_suffix [simp]: "hasSuffix (snapName s) snapSuffix"
  using hasSuffix_append [of "hex16 (sn_LastTerm s) @ ''-'' @ hex16 (sn_LastIndex s)" snapSuffix]
  by (simp add: snapName_def)

lemma last_greatest: "x \<in> set xs \<Longrightarrow> (\<And>y. y \<in> set xs \<Longrightarrow> y \<noteq> x \<Longrightarrow> y < x) \<Longrightarrow> \<exists>ys. rev (sort xs) = x # ys"
  for x :: "'a :: linorder"
proof -
  assume x: "x \<in> set xs" and gt: "\<And>y. y \<in> set xs \<Longrightarrow> y \<noteq> x \<Longrightarrow> y < x"
  have ne: "sort xs \<noteq> []" using x by (metis empty_iff list.set(1) set_sort)
  then have "last (sort xs) \<in> set xs" by (metis last_in_set set_sort)
  moreover have "x \<le> last (sort xs)"
    using x ne by (metis in_set_conv_nth last_conv_nth length_0_conv less_Suc_eq_le diff_Suc_1 Suc_pred
        length_greater_0_conv set_sort sorted_nth_mono sorted_sort diff_less zero_less_one)
  ultimately have "last (sort xs) = x" using gt by fastforce
  with ne show ?thesis by (metis hd_rev list.exhaust_sel rev_is_Nil_conv)
qed

lemma digits_no_dot: "0 < b \<Longrightarrow> b \<le> 16 \<Longrightarrow> CHR ''.'' \<notin> set (digits b w n)"
proof (induction w arbitrary: n)
  case (Suc w)
  have "n mod b < 16" using Suc.prems mod_less_divisor [of b n] by linarith
  then have "(of_char (digit (n mod b)) :: nat) \<noteq> of_char (CHR ''.'')"
    by (simp add: digit_def of_char_of)
  then have "digit (n mod b) \<noteq> CHR ''.''" by metis
  with Suc show ?case by simp
qed simp

lemma snapName_prefix [simp]: "\<not> hasPrefix (snapName s) ''db.tmp''"
proof
  assume "hasPrefix (snapName s) ''db.tmp''"
  then have "take 6 (hex16 (sn_LastTerm s)) = ''db.tmp''"
    by (simp add: hasPrefix_def snapName_def hex16_length eval_nat_numeral)
  then have "CHR ''.'' \<in> set (hex16 (sn_LastTerm s))"
    using set_take_subset [of 6 "hex16 (sn_LastTerm s)"] by simp
  then show False using digits_no_dot [of 16] by (auto simp: hex16_def split: if_splits)
qed

definition older :: "Snapshot \<Rightarrow> Snapshot \<Rightarrow> bool" where
  "older t s \<longleftrightarrow> 0 \<le> sn_LastTerm t \<and> 0 \<le> sn_LastIndex t \<and>
     (sn_LastTerm t < sn_LastTerm s \<or> sn_LastTerm t = sn_LastTerm s \<and> sn_LastIndex t < sn_LastIndex s)"

text \<open>No other snapshot file in the directory is as new as that of \<open>s\<close>.\<close>

definition newest :: "Snapshot \<Rightarrow> dir \<Rightarrow> bool" where
  "newest s d \<longleftrightarrow> sn_LastTerm s < 2 ^ 63 \<and> sn_LastIndex s < 2 ^ 63 \<and>
     (\<forall>n \<in> fst ` set d. hasSuffix n snapSuffix \<longrightarrow> n = snapName s \<or> (\<exists>t. n = snapName t \<and> older t s))"

lemma saved_is_loaded:
  assumes "proto_codec c" and "pb_Snapshot c s = Some b" and "\<not> IsEmptySnap s" and "newest s d"
  shows "\<exists>d1 d2. SaveSnap c s (Some d) = Some (Inr (), Some d1) \<and> Load c (Some d1) = (Inr s, Some d2)"
proof -
  let ?n = "snapName s"
  define d1 where "d1 = AList.update ?n b (AList.update ?n [] d)"
  have saved: "SaveSnap c s (Some d) = Some (Inr (), Some d1)"
    using assms(2,3)
    by (simp add: SaveSnap_def save_snap_def WriteAndSyncFile_def WriteAndSyncOps_def d1_def map_of_update)
  obtain d2 where clean: "cleanupSnapdir (map fst d1) d1 = (filter (\<lambda>f. \<not> hasPrefix f ''db.tmp'') (map fst d1), d2)"
    using cleanup_names [of "map fst d1" d1] by (metis prod.collapse)
  have dom: "fst ` set d1 = insert ?n (fst ` set d)"
    unfolding d1_def dom_map_of_conv_image_fst [symmetric] map_of_update by auto
  let ?names = "checkSuffix (filter (\<lambda>f. \<not> hasPrefix f ''db.tmp'') (map fst d1))"
  have mem: "?n \<in> set ?names" using dom by (simp add: checkSuffix_def)
  have "m < ?n" if "m \<in> set ?names" "m \<noteq> ?n" for m
  proof -
    from that dom assms(4) obtain t where "m = snapName t" "older t s" by (auto simp: newest_def checkSuffix_def)
    with assms(4) show ?thesis by (auto simp: newest_def older_def intro: snapName_less)
  qed
  from last_greatest [OF mem this] obtain ys where ys: "rev (sort ?names) = ?n # ys" by blast
  have "map_of d2 ?n = Some b"
    using cleanup_files [of ?n "map fst d1" d1] clean by (simp add: d1_def map_of_update)
  then have "loadSnap c ?n d2 = (Inr s, d2)"
    using proto_codec.snapshot_roundtrip [OF assms(1,2)] proto_codec.snapshot_nonempty [OF assms(1,2)] assms(3)
    by (simp add: loadSnap_def ReadSnapFile_def IsEmptySnap_def)
  moreover have "?names \<noteq> []" using mem by (metis empty_iff list.set(1))
  ultimately have "Load c (Some d1) = (Inr s, Some d2)"
    using clean ys by (simp add: Load_def loadMatching_def snapNames_def Let_def)
  with saved show ?thesis by blast
qed

section \<open>An encoding\<close>

text \<open>
  An encoding with the properties of \<open>proto_codec\<close>, for messages with small numbers and no
  command but the empty one; other messages are errors.
\<close>

definition small_byte :: "int \<Rightarrow> bool" where
  "small_byte n \<longleftrightarrow> -1 \<le> n \<and> n < 100"

definition put_byte :: "int \<Rightarrow> byte" where "put_byte n = word_of_int (n + 1)"
definition get_byte :: "byte \<Rightarrow> int" where "get_byte b = uint b - 1"

lemma get_put_byte [simp]: "small_byte n \<Longrightarrow> get_byte (put_byte n) = n"
  by (simp add: small_byte_def put_byte_def get_byte_def uint_word_of_int del: of_int_add)

definition sample_codec :: codec where
  "sample_codec = \<lparr>
     pb_Entry = (\<lambda>e. if small_byte (e_Term e) then (case e_Command e of
           None \<Rightarrow> Some [put_byte (e_Term e)]
         | Some op \<Rightarrow> if op = empty_op then Some [put_byte (e_Term e), 0] else None) else None),
     un_Entry = (\<lambda>b. case b of [t] \<Rightarrow> Some \<lparr>e_Term = get_byte t, e_Command = None\<rparr>
       | [t, _] \<Rightarrow> Some \<lparr>e_Term = get_byte t, e_Command = Some empty_op\<rparr> | _ \<Rightarrow> None),
     pb_IndexState = (\<lambda>s. case is_RaftSate s of
         Some r \<Rightarrow> (if small_byte (is_FirstIndex s) \<and> small_byte (is_LastIndex s) \<and> small_byte (is_LastCommitIndex s) \<and>
             small_byte (st_VotedFor r) \<and> small_byte (st_CurrentTerm r)
           then Some (map put_byte [is_FirstIndex s, is_LastIndex s, is_LastCommitIndex s, st_VotedFor r, st_CurrentTerm r])
           else None)
       | None \<Rightarrow> None),
     un_IndexState = (\<lambda>b. case map get_byte b of
         [f, l, k, v, t] \<Rightarrow> Some \<lparr>is_FirstIndex = f, is_LastIndex = l, is_LastCommitIndex = k,
             is_RaftSate = Some \<lparr>st_VotedFor = v, st_CurrentTerm = t\<rparr>\<rparr>
       | _ \<Rightarrow> None),
     pb_Snapshot = (\<lambda>s. if small_byte (sn_LastIndex s) \<and> small_byte (sn_LastTerm s)
         then Some (put_byte (sn_LastIndex s) # put_byte (sn_LastTerm s) # sn_RowData s) else None),
     un_Snapshot = (\<lambda>b. case b of
         i # t # r \<Rightarrow> Some \<lparr>sn_RowData = r, sn_LastIndex = get_byte i, sn_LastTerm = get_byte t\<rparr>
       | _ \<Rightarrow> None)\<rparr>"

interpretation sample: proto_codec sample_codec
  by unfold_locales (auto simp: sample_codec_def split: if_splits option.splits)

end
