(* ===== verification/WalTruncate.thy ===== *)
theory WalTruncate
  imports WalCrash
begin

text \<open>
  Cutting off the back of a log, and the two truncations as operations on the sequence of entries,
  with and without a crash.
\<close>

section \<open>Cutting off the back\<close>

lemma back_starts: "k \<le> length cs \<Longrightarrow> starts f (take k cs) = take (Suc k) (starts f cs)"
  by (auto simp: starts_def seg_start_def take_map take_upt min_def simp del: upt_Suc)

lemma back_concat:
  assumes "k \<le> length cs" and "j < length (entries_of cs es k)"
  shows "concat (take k cs) @ take (Suc j) (entries_of cs es k) =
           take (Suc (length (concat (take k cs)) + j)) (concat cs @ es)"
proof (cases "k < length cs")
  case True
  have "concat cs = concat (take k cs) @ cs ! k @ concat (drop (Suc k) cs)"
    using True by (metis concat.simps(2) concat_append id_take_nth_drop)
  with True assms show ?thesis by (simp add: entries_of_def)
next
  case False
  with assms show ?thesis by (simp add: entries_of_def)
qed

lemma starts_drop_Suc:
  "k \<le> length cs \<Longrightarrow> drop k (starts f cs) = seg_start f cs k # drop (Suc k) (starts f cs)"
  by (simp add: Cons_nth_drop_Suc [symmetric] starts_nth)

lemma starts_take_Suc:
  "k \<le> length cs \<Longrightarrow> take (Suc k) (starts f cs) = take k (starts f cs) @ [seg_start f cs k]"
  by (simp add: take_Suc_conv_app_nth starts_nth)

text \<open>The directory a completed \<^verbatim>\<open>truncateBack\<close> leaves.\<close>

lemma back_disk:
  assumes disk: "disk_ok d f cs es" and k: "k \<le> length cs" and j: "j < length (entries_of cs es k)"
    and dist: "distinct (map fst d')"
    and map: "\<And>n. map_of d' n = (if n = segmentName (seg_start f cs k)
        then Some (enc_all (take (Suc j) (entries_of cs es k)))
        else if n \<in> segmentName ` set (drop k (starts f cs)) \<or> n = segmentName (seg_start f cs k) @ END \<or> n = TEMP
        then None else map_of d n)"
  shows "disk_ok d' f (take k cs) (take (Suc j) (entries_of cs es k))"
proof -
  let ?es = "take (Suc j) (entries_of cs es k)"
  note st = disk_starts [OF disk]
  have con: "concat (take k cs) @ ?es = take (Suc (length (concat (take k cs)) + j)) (concat cs @ es)"
    by (rule back_concat [OF k j])
  have content: "map_of d' (segmentName (seg_start f (take k cs) i)) = Some (enc_all (entries_of (take k cs) ?es i))"
    if i: "i \<le> length (take k cs)" for i
  proof (cases "i = k")
    case True
    then show ?thesis using map [of "segmentName (seg_start f cs k)"] k by (simp add: entries_of_def seg_start_def)
  next
    case False
    then have ik: "i < k" using i k by simp
    have e: "seg_start f (take k cs) i = seg_start f cs i" using ik by (simp add: seg_start_def)
    have "seg_start f cs i \<in> set (take k (starts f cs))"
      using ik k nth_mem [of i "take k (starts f cs)"] by (simp add: starts_nth)
    moreover have "set (take k (starts f cs)) \<inter> set (drop k (starts f cs)) = {}"
      using st(1) by (intro set_take_disj_set_drop_if_distinct) (simp_all add: strict_sorted_iff)
    ultimately have out: "seg_start f cs i \<notin> set (drop k (starts f cs))" "seg_start f cs i \<in> set (starts f cs)"
      by (auto dest: in_set_takeD)
    have "segmentName (seg_start f cs i) \<notin> segmentName ` set (drop k (starts f cs))"
      using out st(2) by (intro segmentName_notin) (auto dest: in_set_dropD)
    moreover have "segmentName (seg_start f cs i) \<noteq> segmentName (seg_start f cs k)"
      using calculation k by (auto simp: starts_drop_Suc)
    ultimately have "map_of d' (segmentName (seg_start f cs i)) = map_of d (segmentName (seg_start f cs i))"
      using map [of "segmentName (seg_start f cs i)"] by simp
    then show ?thesis using disk ik k by (simp add: disk_iff e entries_of_def)
  qed
  have "names_ok d' (starts f (take k cs))"
    unfolding names_ok_def
  proof (intro conjI dist ballI impI)
    fix n assume n: "n \<in> fst ` set d'" "wal_name n"
    then have "map_of d' n \<noteq> None" by (simp add: map_of_eq_None_iff)
    with map [of n] consider "n = segmentName (seg_start f cs k)"
      | "map_of d n \<noteq> None" "n \<notin> segmentName ` set (drop k (starts f cs))" by (auto split: if_splits)
    then show "n \<in> segmentName ` set (starts f (take k cs))"
    proof cases
      case 2
      then have "n \<in> segmentName ` set (starts f cs)"
        using disk_names [OF disk] n(2) by (auto simp: map_of_eq_None_iff)
      moreover have "set (starts f cs) = set (take k (starts f cs)) \<union> set (drop k (starts f cs))"
        by (metis append_take_drop_id set_append)
      ultimately show ?thesis using 2(2) k by (auto simp: back_starts starts_take_Suc)
    qed (use k in \<open>simp add: back_starts starts_take_Suc\<close>)
  qed
  moreover have "f + length (concat (take k cs)) + length ?es \<le> 2 ^ 63"
  proof -
    have "length (concat (take k cs) @ ?es) \<le> length (concat cs @ es)" unfolding con by simp
    then show ?thesis using disk by (simp add: disk_ok_def)
  qed
  moreover have "\<forall>e \<in> set (concat (take k cs) @ ?es). small e"
    unfolding con using disk by (meson disk_ok_def in_set_takeD)
  ultimately show ?thesis
    unfolding disk_iff using content disk by (simp add: disk_ok_def)
qed

text \<open>The segments that are left to delete.\<close>

lemma back_rest:
  assumes disk: "disk_ok d f cs es" and k: "k \<le> length cs" and S: "starts f cs = vs @ ws @ rest"
    and split: "vs = take (Suc k) (starts f cs) \<and> ws = [] \<or> vs = take k (starts f cs) \<and> ws \<noteq> []"
  shows "insert (seg_start f cs k) (set ws \<union> set rest) = set (drop k (starts f cs))"
    and "\<forall>i \<in> set rest. seg_start f cs k < i"
proof -
  let ?i = "seg_start f cs k"
  have tail_S: "drop k (starts f cs) = ?i # drop (Suc k) (starts f cs)" using k by (simp add: starts_drop_Suc)
  have so: "sorted_wrt (<) (drop k (starts f cs))" using disk_starts(1) [OF disk] by (rule sorted_wrt_drop)
  have "drop (length vs) (starts f cs) = ws @ rest" unfolding S by simp
  with split k have "ws = [] \<and> rest = drop (Suc k) (starts f cs) \<or> ws \<noteq> [] \<and> ws @ rest = drop k (starts f cs)"
    by (auto simp: Suc_le_eq)
  then obtain us where us: "drop (Suc k) (starts f cs) = us @ rest" "ws = [] \<and> us = [] \<or> ws = ?i # us"
    unfolding tail_S append_eq_Cons_conv by fastforce
  with so show "insert ?i (set ws \<union> set rest) = set (drop k (starts f cs))" and "\<forall>i \<in> set rest. ?i < i"
    unfolding tail_S us(1) by (auto simp: sorted_wrt_append)
qed

text \<open>Opening a log after \<^verbatim>\<open>truncateBack\<close> has deleted some of the segments it replaces.\<close>

lemma back_removed:
  assumes disk: "disk_ok d f cs es" and k: "k \<le> length cs" and j: "j < length (entries_of cs es k)"
    and S: "starts f cs = vs @ ws @ rest"
    and split: "vs = take (Suc k) (starts f cs) \<and> ws = [] \<or> vs = take k (starts f cs) \<and> ws \<noteq> []"
    and d': "d' = fold AList.delete (map segmentName ws)
        (marked_dir (enc_all (take (Suc j) (entries_of cs es k))) (segmentName (seg_start f cs k) @ END) d)"
    and l: "lg_dir l = d'" "lru_keys lru (lg_scache l) = []" "\<not> lg_closed l" "\<not> lg_corrupt l"
  shows "\<exists>l'. load l = (Inr (), l') \<and> log_rel lru l' f (take k cs) (take (Suc j) (entries_of cs es k)) []"
proof -
  let ?i = "seg_start f cs k" and ?es = "take (Suc j) (entries_of cs es k)"
  note st = disk_starts [OF disk]
  have ib: "0 < ?i" "?i < 2 ^ 64" using disk_index_bound [OF disk k, of 0] by simp_all
  have sorted: "sorted_wrt (<) vs" "sorted_wrt (<) rest" "set ws \<inter> set (rev rest) = {}"
    using st(1) unfolding S by (auto simp: sorted_wrt_append)
  note rest = back_rest [OF disk k S split]
  obtain d2 where run: "fs_run (map (\<lambda>i. Remove (segmentName i)) (rev rest) @
      [Rename (segmentName ?i @ END) (segmentName ?i)]) d' = (True, d2)"
    and d2: "distinct (map fst d2)"
      "\<And>n. map_of d2 n = (if n = segmentName ?i then Some (enc_all ?es)
        else if n \<in> segmentName ` (set ws \<union> set (rev rest)) \<or> n = segmentName ?i @ END \<or> n = TEMP then None
        else map_of d n)"
  proof -
    have "set ws \<union> set (rev rest) \<subseteq> set (starts f cs)" unfolding S by auto
    moreover have "distinct (rev rest)" using sorted(2) by (simp add: strict_sorted_iff)
    ultimately show ?thesis
      using resume_run [OF disk _ _ sorted(3) disjI2 [OF refl] d'] that by blast
  qed
  show ?thesis
  proof (rule load_end [where j = ?i and vs = vs and rest = rest])
    show "distinct (map fst (lg_dir l))"
      unfolding l d' using disk by (intro distinct_deletes marked_dir_distinct) (simp add: disk_ok_def names_ok_def)
    show "{n \<in> fst ` set (lg_dir l). wal_name n} =
        set (map segmentName vs @ (segmentName ?i @ END) # map segmentName rest)"
      using marked_names [OF disk S ib _ d'] by (auto simp: l(1))
    show "\<forall>i \<in> set vs. i \<le> ?i"
      using starts_before [OF disk k] split k by (auto simp: starts_take_Suc)
    show "\<forall>i \<in> set (vs @ ?i # rest). 0 < i \<and> i < 2 ^ 64" using st(2) ib unfolding S by auto
    show "disk_ok d2 f (take k cs) ?es"
      by (rule back_disk [OF disk k j d2(1)]) (auto simp: d2(2) rest(1) [symmetric])
    have "last (take k (starts f cs)) < ?i" if "take k (starts f cs) \<noteq> []"
      using st(1) last_in_set [OF that] k
      by (subst (asm) append_take_drop_id [of k "starts f cs", symmetric])
         (simp add: sorted_wrt_append starts_drop_Suc)
    then show "starts f (take k cs) = (if vs \<noteq> [] \<and> last vs = ?i then butlast vs else vs) @ [?i]"
      using split k by (auto simp: back_starts starts_take_Suc)
  qed (use sorted rest(2) run l in simp_all)
qed

lemma back_crash:
  assumes disk: "disk_ok d f cs es" and k: "k \<le> length cs" and j: "j < length (entries_of cs es k)"
    and crash: "crashed (truncOps (enc_all (take (Suc j) (entries_of cs es k))) (segmentName (seg_start f cs k) @ END)
        (map segmentName (drop k (starts f cs))) (segmentName (seg_start f cs k))) d d'"
    and l: "lg_dir l = d'" "lru_keys lru (lg_scache l) = []" "\<not> lg_closed l" "\<not> lg_corrupt l"
  shows "\<exists>l'. load l = (Inr (), l') \<and>
    (log_rel lru l' f cs es [] \<or> log_rel lru l' f (take k cs) (take (Suc j) (entries_of cs es k)) [])"
proof -
  define V where "V = drop k (starts f cs)"
  let ?mk = "segmentName (seg_start f cs k) @ END" and ?b = "enc_all (take (Suc j) (entries_of cs es k))"
  have S: "starts f cs = take k (starts f cs) @ V @ []" by (simp add: V_def)
  have vict: "distinct (map segmentName V)"
    "\<forall>n \<in> set (map segmentName V). n \<noteq> TEMP \<and> n \<noteq> ?mk \<and> map_of d n \<noteq> None"
    using starts_names_distinct [OF disk S] starts_present [OF disk] unfolding V_def by (auto dest!: in_set_dropD)
  from truncOps_crashed [OF vict segmentName_neq(5) crash [folded V_def]]
  consider (temp) b where "d' = d \<or> d' = AList.update TEMP b (AList.update TEMP [] d) \<or> d' = AList.update TEMP b d"
    | (removing) m where "d' = fold AList.delete (take m (map segmentName V)) (marked_dir ?b ?mk d)"
    | (finished) "(True, d') = fs_run (truncOps ?b ?mk (map segmentName V) (segmentName (seg_start f cs k))) d"
    by blast
  then show ?thesis
  proof cases
    case temp
    from load_plain [of l f cs es lru] temp_states [OF disk temp] l show ?thesis by auto
  next
    case removing
    have "\<exists>vs ws rest. starts f cs = vs @ ws @ rest \<and> take m V = ws \<and>
        (vs = take (Suc k) (starts f cs) \<and> ws = [] \<or> vs = take k (starts f cs) \<and> ws \<noteq> [])"
    proof (cases "take m V = []")
      case True
      then show ?thesis
        by - (rule exI [of _ "take (Suc k) (starts f cs)"], rule exI [of _ "[]"],
            rule exI [of _ "drop (Suc k) (starts f cs)"], simp)
    next
      case False
      then show ?thesis
        by - (rule exI [of _ "take k (starts f cs)"], rule exI [of _ "take m V"],
            rule exI [of _ "drop m V"], simp add: V_def del: drop_drop)
    qed
    then obtain vs ws rest where p: "starts f cs = vs @ ws @ rest" "take m V = ws"
      "vs = take (Suc k) (starts f cs) \<and> ws = [] \<or> vs = take k (starts f cs) \<and> ws \<noteq> []" by blast
    have "d' = fold AList.delete (map segmentName ws) (marked_dir ?b ?mk d)"
      using removing p(2) by (simp add: take_map)
    from back_removed [OF disk k j p(1,3) this l] show ?thesis by blast
  next
    case finished
    from truncOps_finished [OF disk S, of ?mk "seg_start f cs k" ?b] finished
    have "distinct (map fst d')" "\<And>n. map_of d' n = (if n = segmentName (seg_start f cs k) then Some ?b
        else if n \<in> segmentName ` set V \<or> n = ?mk \<or> n = TEMP then None else map_of d n)" by auto
    then have "disk_ok d' f (take k cs) (take (Suc j) (entries_of cs es k))"
      unfolding V_def by (rule back_disk [OF disk k j])
    from load_plain [of l f _ _ lru, unfolded l(1), OF this l(2-4)] show ?thesis by auto
  qed
qed

section \<open>What is cut\<close>

lemma enc_all_split: "enc_all xs = enc_all (take j xs) @ enc_all (drop j xs)"
  by (metis append_take_drop_id enc_all_simps(3))

lemma frontCut_loaded:
  assumes "loaded s xs" and "sg_index s \<le> index" and "index < sg_index s + length xs"
  shows "frontCut index s = Some (enc_all (drop (index - sg_index s) xs))"
proof -
  let ?j = "index - sg_index s"
  have j: "?j < length xs" using assms(2,3) by simp
  have i: "int index - int (sg_index s) = int ?j" using assms(2) by simp
  have "slice_from (sg_epos s) (int ?j) = Some (drop ?j (layout 0 xs))"
    using assms(1) j by (simp add: loaded_def slice_from_def)
  moreover have "at (drop ?j (layout 0 xs)) 0 = Some (layout 0 xs ! ?j)"
    using j by (simp add: at_def)
  moreover have "slice_from (sg_ebuf s) (int (length (enc_all (take ?j xs)))) = Some (enc_all (drop ?j xs))"
    using assms(1) enc_all_split [of xs ?j] by (simp add: loaded_def slice_from_def)
  ultimately show ?thesis unfolding frontCut_def i by (simp add: layout_nth [OF j])
qed

lemma backCut_loaded:
  assumes "loaded s xs" and "sg_index s \<le> index" and "index < sg_index s + length xs"
  shows "backCut index s = Some (enc_all (take (Suc (index - sg_index s)) xs))"
proof -
  let ?j = "index - sg_index s"
  have j: "?j < length xs" using assms(2,3) by simp
  have i: "int index - int (sg_index s) + 1 = int (Suc ?j)" using assms(2) by simp
  have "slice_to (sg_epos s) (int (Suc ?j)) = Some (take (Suc ?j) (layout 0 xs))"
    using assms(1) j by (simp add: loaded_def slice_to_def del: of_nat_Suc)
  moreover have "at (take (Suc ?j) (layout 0 xs)) (int (length (take (Suc ?j) (layout 0 xs))) - 1) = Some (layout 0 xs ! ?j)"
    using j by (simp add: at_def)
  moreover have "slice_to (sg_ebuf s) (int (length (enc_all (take (Suc ?j) xs)))) = Some (enc_all (take (Suc ?j) xs))"
    using assms(1) enc_all_split [of xs "Suc ?j"] by (simp add: loaded_def slice_to_def)
  ultimately show ?thesis unfolding backCut_def i by (simp add: layout_nth [OF j])
qed

section \<open>The truncations on an open log\<close>

lemma clearCache_fold_segments:
  assumes "j < length (lg_segments l)"
  shows "lg_segments (fold (\<lambda>v l. setSegment v (dropEntries (lg_segments l ! v)) l) vs l) ! j =
     (if j \<in> set vs then dropEntries (lg_segments l ! j) else lg_segments l ! j)"
  using assms
proof (induction vs arbitrary: l)
  case Nil
  then show ?case by simp
next
  case (Cons v vs)
  have "dropEntries (dropEntries s) = dropEntries s" for s by (simp add: dropEntries_def)
  moreover have "lg_segments (setSegment v (dropEntries (lg_segments l ! v)) l) ! j =
      (if j = v then dropEntries (lg_segments l ! j) else lg_segments l ! j)"
    and "j < length (lg_segments (setSegment v (dropEntries (lg_segments l ! v)) l))"
    using Cons.prems by (simp_all add: setSegment_def nth_list_update)
  ultimately show ?case using Cons.IH [of "setSegment v (dropEntries (lg_segments l ! v)) l"]
    by (cases "j = v") simp_all
qed

lemma clearCache_fold_fields:
  "\<exists>ss. fold (\<lambda>v l. setSegment v (dropEntries (lg_segments l ! v)) l) vs l = l\<lparr>lg_segments := ss\<rparr> \<and>
     length ss = length (lg_segments l)"
proof (induction vs arbitrary: l)
  case Nil
  show ?case by (rule exI [of _ "lg_segments l"]) simp
next
  case (Cons v vs)
  from Cons.IH [of "setSegment v (dropEntries (lg_segments l ! v)) l"] show ?case
    by (auto simp: setSegment_def)
qed

lemma clearCache_segments:
  assumes "j < length (lg_segments l)"
  shows "lg_segments (clearCache lru l) ! j =
     (if j \<in> set (lru_keys lru (lg_scache l)) then dropEntries (lg_segments l ! j) else lg_segments l ! j)"
  using clearCache_fold_segments [OF assms] by (simp add: clearCache_def)

lemma clearCache_fields [simp]:
  "length (lg_segments (clearCache lru l)) = length (lg_segments l)"
  "lg_dir (clearCache lru l) = lg_dir l" "lg_firstIndex (clearCache lru l) = lg_firstIndex l"
  "lg_lastIndex (clearCache lru l) = lg_lastIndex l" "lg_sfile (clearCache lru l) = lg_sfile l"
  "lg_closed (clearCache lru l) = lg_closed l" "lg_corrupt (clearCache lru l) = lg_corrupt l"
  "lg_scache (clearCache lru l) = lru_empty lru (lg_CacheSize l)"
  using clearCache_fold_fields [of "lru_keys lru (lg_scache l)" l] by (auto simp: clearCache_def)

text \<open>A handle agrees with its directory if its segments do.\<close>

lemma log_rel_from_disk:
  assumes "disk_ok (lg_dir l) f cs es" and "length (lg_segments l) = Suc (length cs)"
    and "\<And>i. i \<le> length cs \<Longrightarrow> sg_index (lg_segments l ! i) = seg_start f cs i \<and>
           sg_path (lg_segments l ! i) = segmentName (seg_start f cs i) \<and>
           (sg_epos (lg_segments l ! i) \<noteq> [] \<or> i = length cs \<longrightarrow> loaded (lg_segments l ! i) (entries_of cs es i))"
    and "lg_firstIndex l = f" "lg_lastIndex l = f + length (concat cs @ es) - 1"
    and "lg_sfile l = segmentName (f + length (concat cs))" "lru_keys lru (lg_scache l) = []"
    and "\<not> lg_closed l" "\<not> lg_corrupt l"
  shows "log_rel lru l f cs es []"
proof -
  have "seg_ok (lg_dir l) (lg_segments l ! i) (seg_start f cs i) (cs ! i)" if "i < length cs" for i
    using assms(1) assms(3) [of i] that by (simp add: seg_ok_def disk_iff entries_of_def)
  moreover have "tail_ok (lg_dir l) (lg_segments l ! length cs) (f + length (concat cs)) es []"
    using assms(1) assms(3) [of "length cs"] by (simp add: tail_ok_def disk_ok_def entries_of_def)
  ultimately show ?thesis using assms unfolding log_rel_def disk_ok_def by (simp add: add.assoc)
qed

text \<open>The files of the segments are named after their first index.\<close>

lemma log_rel_path:
  assumes "log_rel lru l f cs es []" and "i \<le> length cs"
  shows "sg_path (lg_segments l ! i) = segmentName (seg_start f cs i)"
    and "sg_epos (lg_segments l ! i) \<noteq> [] \<or> i = length cs \<Longrightarrow> loaded (lg_segments l ! i) (entries_of cs es i)"
  using log_relD(2,3) [OF assms(1)] assms(2)
  by (cases "i = length cs"; auto simp: seg_ok_def tail_ok_def entries_of_def)+

lemma log_rel_paths:
  assumes rel: "log_rel lru l f cs es []"
  shows "map sg_path (lg_segments l) = map segmentName (starts f cs)"
  by (rule nth_equalityI)
     (auto simp: log_relD(1) [OF rel] log_rel_path [OF rel] starts_nth)

lemma frontOps_run:
  assumes rel: "log_rel lru l f cs es []" and k: "k \<le> length cs"
    and j: "index = seg_start f cs k + j" "j < length (entries_of cs es k)"
  shows "\<exists>d2. fs_run (frontOps index (enc_all (drop j (entries_of cs es k))) k (lg_segments l)) (lg_dir l) = (True, d2) \<and>
     disk_ok d2 index (frontCs cs k j) (frontEs cs es k j) \<and>
     map_of d2 (segmentName index) = Some (enc_all (drop j (entries_of cs es k)))"
proof -
  note disk = log_rel_disk [OF rel]
  have v: "map sg_path (take (k + 1) (lg_segments l)) = map segmentName (take (Suc k) (starts f cs))"
    using log_rel_paths [OF rel] by (metis Suc_eq_plus1 take_map)
  have "starts f cs = [] @ take (Suc k) (starts f cs) @ drop (Suc k) (starts f cs)" by simp
  from truncOps_finished [OF disk this, of "segmentName index @ START" index "enc_all (drop j (entries_of cs es k))"]
  obtain d2 where d2: "fs_run (truncOps (enc_all (drop j (entries_of cs es k))) (segmentName index @ START)
        (map segmentName (take (Suc k) (starts f cs))) (segmentName index)) (lg_dir l) = (True, d2)"
      "map_of d2 (segmentName index) = Some (enc_all (drop j (entries_of cs es k)))" by auto
  from front_finished [OF disk k j(2,1) d2(1) [symmetric]] d2 show ?thesis
    unfolding frontOps_def v by simp
qed

lemma backOps_run:
  assumes rel: "log_rel lru l f cs es []" and k: "k \<le> length cs" and j: "j < length (entries_of cs es k)"
  shows "\<exists>d2. fs_run (backOps (seg_start f cs k) (enc_all (take (Suc j) (entries_of cs es k))) k (lg_segments l))
       (lg_dir l) = (True, d2) \<and>
     disk_ok d2 f (take k cs) (take (Suc j) (entries_of cs es k)) \<and>
     map_of d2 (segmentName (seg_start f cs k)) = Some (enc_all (take (Suc j) (entries_of cs es k)))"
proof -
  note disk = log_rel_disk [OF rel]
  have v: "map sg_path (drop k (lg_segments l)) = map segmentName (drop k (starts f cs))"
    using log_rel_paths [OF rel] by (metis drop_map)
  have "starts f cs = take k (starts f cs) @ drop k (starts f cs) @ []" by simp
  from truncOps_finished [OF disk this, of "segmentName (seg_start f cs k) @ END" "seg_start f cs k"
      "enc_all (take (Suc j) (entries_of cs es k))"]
  obtain d2 where d2: "fs_run (truncOps (enc_all (take (Suc j) (entries_of cs es k)))
        (segmentName (seg_start f cs k) @ END) (map segmentName (drop k (starts f cs)))
        (segmentName (seg_start f cs k))) (lg_dir l) = (True, d2)" "distinct (map fst d2)"
      "\<And>n. map_of d2 n = (if n = segmentName (seg_start f cs k) then Some (enc_all (take (Suc j) (entries_of cs es k)))
        else if n \<in> segmentName ` set (drop k (starts f cs)) \<or> n = segmentName (seg_start f cs k) @ END \<or> n = TEMP
        then None else map_of (lg_dir l) n)" by auto
  from back_disk [OF disk k j d2(2,3)] d2(1,3) show ?thesis unfolding backOps_def v by simp
qed

text \<open>The segments from the cut on: the first one begins at the cut.\<close>

lemma front_start_Suc:
  assumes "k < length cs" and "index = seg_start f cs k + j" and "j < length (cs ! k)"
  shows "seg_start index (frontCs cs k j) (Suc i) = seg_start f cs (Suc k + i)"
proof -
  have "take (Suc k + i) cs = take (Suc k) cs @ take i (drop (Suc k) cs)" by (rule take_add)
  then have "seg_start f cs (Suc k + i) = seg_start f cs (Suc k) + length (concat (take i (drop (Suc k) cs)))"
    unfolding seg_start_def by simp
  moreover have "seg_start index (drop j (cs ! k) # ds) (Suc i) =
      index + (length (cs ! k) - j) + length (concat (take i ds))" for ds
    by (simp add: seg_start_def)
  ultimately show ?thesis using assms by (simp add: frontCs_def seg_start_Suc)
qed

text \<open>\<^verbatim>\<open>truncateFront\<close> inside a full segment: the segments from it on are kept.\<close>

lemma front_full:
  assumes lru: "lru_ok lru" and rel: "log_rel lru l f cs es []" and k: "k < length cs"
    and j: "index = seg_start f cs k + j" "j < length (cs ! k)"
    and cached: "k \<in> set (lru_keys lru (lg_scache l))"
    and disk: "disk_ok d index (frontCs cs k j) (frontEs cs es k j)"
    and s1: "s1 = (lg_segments l ! k)\<lparr>sg_path := segmentName index, sg_index := index\<rparr>"
    and l4: "l4 = clearCache lru (setSegment k s1 (l\<lparr>lg_dir := d\<rparr>))"
  shows "log_rel lru (l4\<lparr>lg_segments := drop k (lg_segments l4), lg_firstIndex := index\<rparr>) index
      (frontCs cs k j) (frontEs cs es k j) []" (is "log_rel lru ?l index ?cs ?es []")
proof -
  let ?keys = "set (lru_keys lru (lg_scache l))"
  note len = log_relD(1) [OF rel] and st = front_start_Suc [OF k j]
  have cs: "?cs = drop j (cs ! k) # drop (Suc k) cs" using k by (simp add: frontCs_def)
  have con: "concat ?cs @ ?es = drop (length (concat (take k cs)) + j) (concat cs @ es)"
    using k j by (intro front_concat) (simp_all add: entries_of_def)
  have "index + length (concat ?cs) = seg_start index ?cs (Suc (length (drop (Suc k) cs)))"
    by (simp add: seg_start_def cs)
  also have "\<dots> = f + length (concat cs)" unfolding st using k by (simp add: seg_start_def)
  finally have tail: "index + length (concat ?cs) = f + length (concat cs)" .
  have seg: "lg_segments l4 ! i = (if i = k then dropEntries s1 else if i \<in> ?keys
      then dropEntries (lg_segments l ! i) else lg_segments l ! i)" if "i \<le> length cs" for i
    using that len cached k by (auto simp: l4 clearCache_segments setSegment_def nth_list_update)
  have len4: "length (lg_segments l4) = Suc (length cs)" using len by (simp add: l4 setSegment_def)
  have segs: "sg_index (lg_segments ?l ! i) = seg_start index ?cs i \<and>
     sg_path (lg_segments ?l ! i) = segmentName (seg_start index ?cs i) \<and>
     (sg_epos (lg_segments ?l ! i) \<noteq> [] \<or> i = length ?cs \<longrightarrow> loaded (lg_segments ?l ! i) (entries_of ?cs ?es i))"
    if i: "i \<le> length ?cs" for i
  proof (cases i)
    case 0
    then show ?thesis using seg [of k] k len4 by (simp add: s1 dropEntries_def cs)
  next
    case (Suc n)
    have ki: "k + i \<le> length cs" and e: "i = length ?cs \<longleftrightarrow> k + i = length cs"
      using i k by (auto simp: cs)
    have ent: "entries_of ?cs ?es i = entries_of cs es (k + i)"
      using Suc k by (auto simp: cs entries_of_def frontEs_def)
    have "k + i \<notin> ?keys \<or> k + i \<noteq> length cs" using log_relD(10) [OF rel] by auto
    with log_rel_path [OF rel ki] log_rel_index [OF rel ki] seg [OF ki] Suc st [of n] ki len4 ent e
    show ?thesis by (auto simp: dropEntries_def)
  qed
  have "lg_lastIndex l = index + length (concat ?cs @ ?es) - 1"
    using tail log_relD(8) [OF rel] k by (simp add: frontEs_def)
  moreover have "Suc (length ?cs) = Suc (length cs) - k" using k by (simp add: cs)
  ultimately show ?thesis
    by (intro log_rel_from_disk [OF _ _ segs])
       (use disk log_relD(9,12,13) [OF rel] lru len4 tail in \<open>simp_all add: l4 setSegment_def lru_ok_def\<close>)
qed

text \<open>\<^verbatim>\<open>truncateFront\<close> inside the last segment, whose entries are read again.\<close>

lemma front_tail:
  assumes lru: "lru_ok lru" and rel: "log_rel lru l f cs es []"
    and j: "index = f + length (concat cs) + j" "j < length es" and disk: "disk_ok d index [] (drop j es)"
    and l4: "l4 = clearCache lru (setSegment (length cs)
      \<lparr>sg_path = segmentName index, sg_index = index, sg_ebuf = enc_all (drop j es), sg_epos = layout 0 (drop j es)\<rparr>
      (l\<lparr>lg_dir := d, lg_sfile := segmentName index\<rparr>))"
  shows "log_rel lru (l4\<lparr>lg_segments := drop (length cs) (lg_segments l4), lg_firstIndex := index\<rparr>) index [] (drop j es) []"
proof -
  have "length cs \<notin> set (lru_keys lru (lg_scache l))" using log_relD(10) [OF rel] by auto
  then have "lg_segments l4 ! length cs = \<lparr>sg_path = segmentName index, sg_index = index,
      sg_ebuf = enc_all (drop j es), sg_epos = layout 0 (drop j es)\<rparr>"
    using log_relD(1) [OF rel] by (simp add: l4 clearCache_segments setSegment_def)
  with disk j log_relD(1,8,12,13) [OF rel] lru show ?thesis
    by (intro log_rel_from_disk) (simp_all add: l4 setSegment_def lru_ok_def loaded_def entries_of_def)
qed

lemma truncateFront_rel:
  assumes lru: "lru_ok lru" and rel: "log_rel lru l f cs es []"
    and idx: "f < index" "index < f + length (concat cs @ es)"
  shows "\<exists>k j l'. truncateFront lru index l = Some (Inr (), l') \<and> index = seg_start f cs k + j \<and>
     k \<le> length cs \<and> j < length (entries_of cs es k) \<and>
     log_rel lru l' index (frontCs cs k j) (frontEs cs es k j) []"
proof -
  obtain k l1 where k: "loadSegment lru index l = Some (Inr k, l1)" "k \<le> length cs"
      "findSegment l index = int k" "log_rel lru l1 f cs es []"
      "seg_start f cs k \<le> index" "index < seg_start f cs k + length (entries_of cs es k)"
      "loaded (lg_segments l1 ! k) (entries_of cs es k)"
      "k < length cs \<Longrightarrow> k \<in> set (lru_keys lru (lg_scache l1))"
    using loadSegment_spec [OF lru rel less_imp_le [OF idx(1)] idx(2)] by blast
  define j where "j = index - seg_start f cs k"
  have j: "index = seg_start f cs k + j" "j < length (entries_of cs es k)" using k(5,6) by (auto simp: j_def)
  have cut: "frontCut index (lg_segments l1 ! k) = Some (enc_all (drop j (entries_of cs es k)))"
    using frontCut_loaded [OF k(7)] k(5,6) log_rel_index [OF k(4,2)] by (simp add: j_def)
  from frontOps_run [OF k(4,2) j] obtain d where
    d: "fs_run (frontOps index (enc_all (drop j (entries_of cs es k))) k (lg_segments l1)) (lg_dir l1) = (True, d)"
      "disk_ok d index (frontCs cs k j) (frontEs cs es k j)"
      "map_of d (segmentName index) = Some (enc_all (drop j (entries_of cs es k)))" by auto
  have guard: "\<not> (index = 0 \<or> lg_lastIndex l = 0 \<or> index < lg_firstIndex l \<or> index > lg_lastIndex l)"
    "index \<noteq> lg_firstIndex l"
    using idx log_relD(7,8) [OF rel] by auto
  note run = truncateFront_def guard k(1,3) cut d(1,3) setSegment_def Let_def
  show ?thesis
  proof (cases "k = length cs")
    case False
    then have kl: "k < length cs" using k(2) by simp
    let ?s1 = "(lg_segments l1 ! k)\<lparr>sg_path := segmentName index, sg_index := index\<rparr>"
    let ?l4 = "clearCache lru (setSegment k ?s1 (l1\<lparr>lg_dir := d\<rparr>))"
    have "truncateFront lru index l =
        Some (Inr (), ?l4\<lparr>lg_segments := drop k (lg_segments ?l4), lg_firstIndex := index\<rparr>)"
      using kl log_relD(1) [OF k(4)] by (simp add: run)
    moreover from front_full [OF lru k(4) kl j(1) _ k(8) [OF kl] d(2) refl refl] j(2) kl
    have "log_rel lru (?l4\<lparr>lg_segments := drop k (lg_segments ?l4), lg_firstIndex := index\<rparr>) index
        (frontCs cs k j) (frontEs cs es k j) []" by (simp add: entries_of_def)
    ultimately show ?thesis using j k(2) by blast
  next
    case True
    let ?s = "\<lparr>sg_path = segmentName index, sg_index = index, sg_ebuf = enc_all (drop j es),
      sg_epos = layout 0 (drop j es)\<rparr>"
    let ?l4 = "clearCache lru (setSegment (length cs) ?s (l1\<lparr>lg_dir := d, lg_sfile := segmentName index\<rparr>))"
    have "\<forall>e \<in> set (drop j es). small e" using log_relD(6) [OF rel] by (auto dest: in_set_dropD)
    then have "loadSegmentEntries d (s\<lparr>sg_path := segmentName index, sg_index := index\<rparr>) = Inr ?s" for s
      using d(3) True loadEntries_all by (simp add: loadSegmentEntries_def entries_of_def)
    moreover from front_tail [OF lru k(4) _ _ _ refl, of index j d] j d(2) True
    have "log_rel lru (?l4\<lparr>lg_segments := drop (length cs) (lg_segments ?l4), lg_firstIndex := index\<rparr>) index [] (drop j es) []"
      by (simp add: frontCs_def frontEs_def entries_of_def)
    moreover from calculation(1) log_relD(1) [OF k(4), folded True] have "truncateFront lru index l =
        Some (Inr (), ?l4\<lparr>lg_segments := drop k (lg_segments ?l4), lg_firstIndex := index\<rparr>)"
      unfolding True [symmetric] by (simp add: run)
    moreover have "frontCs cs k j = []" "frontEs cs es k j = drop j es"
      using True by (simp_all add: frontCs_def frontEs_def)
    ultimately show ?thesis using True j k(2) by metis
  qed
qed

text \<open>\<^verbatim>\<open>truncateBack\<close>: the segment of the cut becomes the last one and is read again.\<close>

lemma back_segments:
  assumes lru: "lru_ok lru" and rel: "log_rel lru l f cs es []" and k: "k \<le> length cs"
    and j: "index = seg_start f cs k + j" "j < length (entries_of cs es k)"
    and disk: "disk_ok d f (take k cs) (take (Suc j) (entries_of cs es k))"
    and l4: "l4 = clearCache lru (setSegment k (lg_segments l ! k) (l\<lparr>lg_dir := d, lg_sfile := segmentName (seg_start f cs k)\<rparr>))"
    and s: "s = (lg_segments l4 ! k)\<lparr>sg_ebuf := enc_all (take (Suc j) (entries_of cs es k)),
              sg_epos := layout 0 (take (Suc j) (entries_of cs es k))\<rparr>"
  shows "log_rel lru (setSegment k s (l4\<lparr>lg_segments := take (Suc k) (lg_segments l4), lg_lastIndex := index\<rparr>)) f
     (take k cs) (take (Suc j) (entries_of cs es k)) []" (is "log_rel lru ?l f ?cs ?es []")
proof -
  note len = log_relD(1) [OF rel]
  have seg: "lg_segments l4 ! i = (if i \<in> set (lru_keys lru (lg_scache l))
      then dropEntries (lg_segments l ! i) else lg_segments l ! i)" if "i \<le> length cs" for i
    using that len by (auto simp: l4 clearCache_segments setSegment_def nth_list_update)
  have len4: "length (lg_segments l4) = Suc (length cs)" using len by (simp add: l4 setSegment_def)
  have st: "seg_start f (take k cs) i = seg_start f cs i" if "i \<le> k" for i
    using that by (simp add: seg_start_def min_def)
  have segs: "sg_index (lg_segments ?l ! i) = seg_start f ?cs i \<and>
     sg_path (lg_segments ?l ! i) = segmentName (seg_start f ?cs i) \<and>
     (sg_epos (lg_segments ?l ! i) \<noteq> [] \<or> i = length ?cs \<longrightarrow> loaded (lg_segments ?l ! i) (entries_of ?cs ?es i))"
    if i: "i \<le> length ?cs" for i
  proof -
    have ik: "i \<le> length cs" "i \<le> k" using i k by auto
    note old = log_rel_path [OF rel ik(1)] log_rel_index [OF rel ik(1)] seg [OF ik(1)]
    show ?thesis
    proof (cases "i = k")
      case True
      with old k len4 show ?thesis
        by (auto simp: setSegment_def s dropEntries_def loaded_def entries_of_def st)
    next
      case False
      with ik have "i < k" by simp
      with old k len4 show ?thesis
        by (auto simp: setSegment_def dropEntries_def entries_of_def st)
    qed
  qed
  have "f + length (concat ?cs) = seg_start f cs k" by (simp add: seg_start_def)
  moreover have "index = f + length (concat ?cs @ ?es) - 1" using j calculation by simp
  ultimately show ?thesis using disk log_relD(7,12,13) [OF rel] lru len4 k
    by (intro log_rel_from_disk [OF _ _ segs]) (simp_all add: l4 setSegment_def lru_ok_def min_def)
qed

lemma truncateBack_rel:
  assumes lru: "lru_ok lru" and rel: "log_rel lru l f cs es []"
    and idx: "f \<le> index" "index + 1 < f + length (concat cs @ es)"
  shows "\<exists>k j l'. truncateBack lru index l = Some (Inr (), l') \<and> index = seg_start f cs k + j \<and>
     k \<le> length cs \<and> j < length (entries_of cs es k) \<and>
     log_rel lru l' f (take k cs) (take (Suc j) (entries_of cs es k)) []"
proof -
  have lt: "index < f + length (concat cs @ es)" using idx by simp
  obtain k l1 where k: "loadSegment lru index l = Some (Inr k, l1)" "k \<le> length cs"
      "findSegment l index = int k" "log_rel lru l1 f cs es []"
      "seg_start f cs k \<le> index" "index < seg_start f cs k + length (entries_of cs es k)"
      "loaded (lg_segments l1 ! k) (entries_of cs es k)"
    using loadSegment_spec [OF lru rel idx(1) lt] by blast
  define j where "j = index - seg_start f cs k"
  let ?es = "take (Suc j) (entries_of cs es k)"
  have j: "index = seg_start f cs k + j" "j < length (entries_of cs es k)" using k(5,6) by (auto simp: j_def)
  note index = log_rel_index [OF k(4,2)] and path = log_rel_path(1) [OF k(4,2)]
  have cut: "backCut index (lg_segments l1 ! k) = Some (enc_all ?es)"
    using backCut_loaded [OF k(7)] k(5,6) index by (simp add: j_def)
  from backOps_run [OF k(4,2) j(2)] obtain d where
    d: "fs_run (backOps (seg_start f cs k) (enc_all ?es) k (lg_segments l1)) (lg_dir l1) = (True, d)"
      "disk_ok d f (take k cs) ?es" "map_of d (segmentName (seg_start f cs k)) = Some (enc_all ?es)" by auto
  have guard: "\<not> (index = 0 \<or> lg_lastIndex l = 0 \<or> index < lg_firstIndex l \<or> index > lg_lastIndex l)"
    "index \<noteq> lg_lastIndex l"
    using idx log_relD(4,7,8) [OF rel] by auto
  let ?l4 = "clearCache lru (setSegment k (lg_segments l1 ! k) (l1\<lparr>lg_dir := d, lg_sfile := segmentName (seg_start f cs k)\<rparr>))"
  have same: "(lg_segments l1 ! k)\<lparr>sg_path := segmentName (seg_start f cs k)\<rparr> = lg_segments l1 ! k"
    unfolding path [symmetric] by simp
  have "\<forall>e \<in> set ?es. small e" using d(2) by (auto simp: disk_ok_def)
  moreover have "sg_path (lg_segments ?l4 ! k) = segmentName (seg_start f cs k)"
    using path k(2) log_relD(1) [OF k(4)] by (simp add: clearCache_segments setSegment_def dropEntries_def)
  ultimately have "loadSegmentEntries d (lg_segments ?l4 ! k) =
      Inr ((lg_segments ?l4 ! k)\<lparr>sg_ebuf := enc_all ?es, sg_epos := layout 0 ?es\<rparr>)"
    using d(3) loadEntries_all by (simp add: loadSegmentEntries_def)
  then have "truncateBack lru index l = Some (Inr (), setSegment k
      ((lg_segments ?l4 ! k)\<lparr>sg_ebuf := enc_all ?es, sg_epos := layout 0 ?es\<rparr>)
      (?l4\<lparr>lg_segments := take (Suc k) (lg_segments ?l4), lg_lastIndex := index\<rparr>))"
    by (simp add: truncateBack_def guard k(1,3) cut d(1,3) index same Let_def)
  with back_segments [OF lru k(4,2) j d(2) refl refl] j k(2) show ?thesis by blast
qed

end
