(* ===== verification/WalOpen.thy ===== *)
theory WalOpen
  imports WalTruncate WalWrite
begin

text \<open>
  What the log promises over \<^verbatim>\<open>Open\<close>, \<^verbatim>\<open>TruncateFront\<close> and \<^verbatim>\<open>TruncateBack\<close>: opening a
  directory finds the entries that were written, a truncation keeps a suffix or a prefix of
  them, and a crash at any point of a truncation leaves a directory that opens with the entries
  before or after it.
\<close>

section \<open>Opening\<close>

lemma Open_load:
  assumes "lru_ok lru"
    and "\<And>l. lg_dir l = d \<Longrightarrow> lru_keys lru (lg_scache l) = [] \<Longrightarrow> \<not> lg_closed l \<Longrightarrow> \<not> lg_corrupt l \<Longrightarrow>
           \<exists>l'. load l = (Inr (), l') \<and> P l'"
  shows "\<exists>l'. Open lru segSize cacheSize d = (Inr (), l') \<and> P l'"
  unfolding Open_def Let_def by (rule assms(2)) (use assms(1) in \<open>simp_all add: lru_ok_def\<close>)

lemma Open_disk:
  assumes "lru_ok lru" and "disk_ok d f cs es"
  shows "\<exists>l. Open lru segSize cacheSize d = (Inr (), l) \<and> log_rel lru l f cs es []"
  using assms(2) by (intro Open_load [OF assms(1)]) (metis load_plain)

text \<open>A directory with three entries in two segments, and the log that is open on it.\<close>

definition sample_dir :: dir where
  "sample_dir = [(segmentName 3, enc_all [[3]]), (segmentName 1, enc_all [[1], [2]]), (''LOCK'', [])]"

definition sample_log3 :: "nat option Log" where
  "sample_log3 = snd (Open one_lru 1 1 sample_dir)"

lemma sample_dir_ok: "disk_ok sample_dir 1 [[[1], [2]]] [[3]]"
proof -
  have "segmentName (Suc (Suc (Suc 0))) \<noteq> segmentName (Suc 0)" by (simp add: segmentName_inject)
  moreover have "\<not> wal_name ''LOCK''" by (simp add: wal_name_def)
  moreover have "''LOCK'' \<noteq> segmentName i" "segmentName i \<noteq> ''LOCK''" for i
    by (rule length_neq, simp)+
  ultimately show ?thesis
    by (auto simp: disk_ok_def sample_dir_def names_ok_def starts_def seg_start_def small_def numeral_3_eq_3)
qed

lemma sample_log3_holds: "holds one_lru sample_log3 1 [[1], [2], [3]]"
  using Open_disk [OF one_lru_ok sample_dir_ok, of 1 1] by (fastforce simp: sample_log3_def holds_def)

lemma Open_holds:
  assumes "lru_ok lru" and "holds lru l f xs"
  shows "\<exists>l'. Open lru segSize cacheSize (lg_dir l) = (Inr (), l') \<and> holds lru l' f xs"
proof -
  obtain cs es where rel: "log_rel lru l f cs es []" and xs: "xs = concat cs @ es"
    using assms(2) by (auto simp: holds_def)
  from Open_disk [OF assms(1) log_rel_disk [OF rel]] xs show ?thesis unfolding holds_def by blast
qed

text \<open>
  C13: what a log holds survives closing it: \<^verbatim>\<open>Open\<close> on its directory succeeds and finds the same
  entries under the same indices, whatever the options.
\<close>

theorem Open_recovers:
  assumes "lru_ok lru" and "holds lru l f xs"
  shows "\<exists>l'. Open lru segSize cacheSize (lg_dir l) = (Inr (), l') \<and> holds lru l' f xs \<and>
    GetFirstIndex l' = f \<and> GetLastIndex l' = f + length xs - 1"
proof -
  from Open_holds [OF assms] obtain l' where
    l': "Open lru segSize cacheSize (lg_dir l) = (Inr (), l')" "holds lru l' f xs" by blast
  moreover from l'(2) have "lg_firstIndex l' = f" "lg_lastIndex l' = f + length xs - 1"
    by (auto simp: holds_def dest: log_relD(7,8))
  ultimately show ?thesis by (simp add: GetFirstIndex_def GetLastIndex_def)
qed

theorem Open_recovers_witness:
  "\<exists>l'. Open one_lru 0 0 (lg_dir sample_log3) = (Inr (), l') \<and> GetLastIndex l' = 3"
  using Open_recovers [OF one_lru_ok sample_log3_holds, of 0 0] by auto

section \<open>Truncation\<close>

lemma front_holds:
  assumes "log_rel lru l index (frontCs cs k j) (frontEs cs es k j) []" and "index = seg_start f cs k + j"
    and "k \<le> length cs" and "j < length (entries_of cs es k)"
  shows "holds lru l index (drop (index - f) (concat cs @ es))"
proof -
  have "drop (index - f) (concat cs @ es) = concat (frontCs cs k j) @ frontEs cs es k j"
    using front_concat [OF assms(3) less_imp_le [OF assms(4)]] assms(2) by (simp add: seg_start_def)
  with assms(1) show ?thesis unfolding holds_def by blast
qed

lemma back_holds:
  assumes "log_rel lru l f (take k cs) (take (Suc j) (entries_of cs es k)) []" and "index = seg_start f cs k + j"
    and "k \<le> length cs" and "j < length (entries_of cs es k)"
  shows "holds lru l f (take (index - f + 1) (concat cs @ es))"
proof -
  have "take (index - f + 1) (concat cs @ es) = concat (take k cs) @ take (Suc j) (entries_of cs es k)"
    using back_concat [OF assms(3,4)] assms(2) by (simp add: seg_start_def)
  with assms(1) show ?thesis unfolding holds_def by blast
qed

text \<open>The guard of both truncations holds on every index of the log.\<close>

lemma truncation_guard:
  assumes "holds lru l f xs" and "f \<le> index" and "index < f + length xs"
  shows "\<not> (index = 0 \<or> lg_lastIndex l = 0 \<or> index < lg_firstIndex l \<or> index > lg_lastIndex l)"
    and "lg_firstIndex l = f" "lg_lastIndex l = f + length xs - 1" "\<not> lg_closed l" "\<not> lg_corrupt l"
proof -
  obtain cs es where rel: "log_rel lru l f cs es []" and xs: "xs = concat cs @ es"
    using assms(1) by (auto simp: holds_def)
  show first: "lg_firstIndex l = f" and last: "lg_lastIndex l = f + length xs - 1"
    and "\<not> lg_closed l" and "\<not> lg_corrupt l" using log_relD(7,8,12,13) [OF rel] xs by simp_all
  show "\<not> (index = 0 \<or> lg_lastIndex l = 0 \<or> index < lg_firstIndex l \<or> index > lg_lastIndex l)"
    using first last assms(2,3) log_relD(4) [OF rel] by linarith
qed

lemma TruncateFront_holds:
  assumes "lru_ok lru" and "holds lru l f xs" and "f \<le> index" and "index < f + length xs"
  shows "\<exists>l'. TruncateFront lru index l = Some (Inr (), l') \<and> holds lru l' index (drop (index - f) xs)"
proof (cases "index = f")
  case True
  with truncation_guard [OF assms(2-4)] assms(2) show ?thesis
    by (simp add: TruncateFront_def truncateFront_def)
next
  case False
  obtain cs es where rel: "log_rel lru l f cs es []" and xs: "xs = concat cs @ es"
    using assms(2) by (auto simp: holds_def)
  from truncateFront_rel [OF assms(1) rel, of index] False assms(3,4) xs obtain k j l' where
    l': "truncateFront lru index l = Some (Inr (), l')" "index = seg_start f cs k + j" "k \<le> length cs"
      "j < length (entries_of cs es k)" "log_rel lru l' index (frontCs cs k j) (frontEs cs es k j) []" by auto
  from front_holds [OF l'(5,2-4)] l'(1) truncation_guard [OF assms(2-4)] xs show ?thesis
    by (simp add: TruncateFront_def)
qed

lemma TruncateBack_holds:
  assumes "lru_ok lru" and "holds lru l f xs" and "f \<le> index" and "index < f + length xs"
  shows "\<exists>l'. TruncateBack lru index l = Some (Inr (), l') \<and> holds lru l' f (take (index - f + 1) xs)"
proof (cases "index + 1 = f + length xs")
  case True
  then have "index - f + 1 = length xs" "index = f + length xs - 1" using assms(3) by linarith+
  with truncation_guard [OF assms(2-4)] assms(2) show ?thesis
    by (simp add: TruncateBack_def truncateBack_def)
next
  case False
  obtain cs es where rel: "log_rel lru l f cs es []" and xs: "xs = concat cs @ es"
    using assms(2) by (auto simp: holds_def)
  from truncateBack_rel [OF assms(1) rel, of index] False assms(3,4) xs obtain k j l' where
    l': "truncateBack lru index l = Some (Inr (), l')" "index = seg_start f cs k + j" "k \<le> length cs"
      "j < length (entries_of cs es k)" "log_rel lru l' f (take k cs) (take (Suc j) (entries_of cs es k)) []" by auto
  from back_holds [OF l'(5,2-4)] l'(1) truncation_guard [OF assms(2-4)] xs show ?thesis
    by (simp add: TruncateBack_def)
qed

lemma truncation_range:
  assumes "holds lru l f xs" and "index < f \<or> f + length xs \<le> index"
  shows "TruncateFront lru index l = Some (Inl ErrOutOfRange, l)"
    and "TruncateBack lru index l = Some (Inl ErrOutOfRange, l)"
proof -
  obtain cs es where rel: "log_rel lru l f cs es []" and xs: "xs = concat cs @ es"
    using assms(1) by (auto simp: holds_def)
  have "index = 0 \<or> lg_lastIndex l = 0 \<or> index < lg_firstIndex l \<or> index > lg_lastIndex l"
    using assms(2) log_relD(4,7,8) [OF rel] xs by auto
  with log_relD(12,13) [OF rel] show "TruncateFront lru index l = Some (Inl ErrOutOfRange, l)"
    and "TruncateBack lru index l = Some (Inl ErrOutOfRange, l)"
    by (simp_all add: TruncateFront_def TruncateBack_def truncateFront_def truncateBack_def)
qed

text \<open>
  C12: \<^verbatim>\<open>TruncateFront\<close> at an index of the log drops the entries before it and keeps the others under
  their indices; \<^verbatim>\<open>TruncateBack\<close> drops the entries after it. Both succeed, in every segment.
\<close>

theorem truncation_keeps_part:
  assumes "lru_ok lru" and "holds lru l f xs" and "f \<le> index" and "index < f + length xs"
  shows "(\<exists>l'. TruncateFront lru index l = Some (Inr (), l') \<and> holds lru l' index (drop (index - f) xs)) \<and>
         (\<exists>l'. TruncateBack lru index l = Some (Inr (), l') \<and> holds lru l' f (take (index - f + 1) xs))"
  using TruncateFront_holds [OF assms] TruncateBack_holds [OF assms] by simp

theorem truncation_keeps_part_witness:
  "\<exists>l1 l2. TruncateFront one_lru 2 sample_log3 = Some (Inr (), l1) \<and> holds one_lru l1 2 [[2], [3]] \<and>
     TruncateBack one_lru 2 sample_log3 = Some (Inr (), l2) \<and> holds one_lru l2 1 [[1], [2]]"
  using truncation_keeps_part [OF one_lru_ok sample_log3_holds, of 2] by auto

text \<open>
  An index the log does not have, 0 included, is out of range for both truncations, which leave
  the log as it was; so is every index of an empty log.
\<close>

theorem truncation_out_of_range:
  assumes "holds lru l f xs" and "index < f \<or> f + length xs \<le> index"
  shows "TruncateFront lru index l = Some (Inl ErrOutOfRange, l) \<and>
         TruncateBack lru index l = Some (Inl ErrOutOfRange, l)"
  using truncation_range [OF assms] by simp

theorem truncation_out_of_range_witness:
  "TruncateFront one_lru 0 sample_log3 = Some (Inl ErrOutOfRange, sample_log3) \<and>
   TruncateBack one_lru 4 sample_log3 = Some (Inl ErrOutOfRange, sample_log3)"
  using truncation_out_of_range [OF sample_log3_holds, of 0] truncation_out_of_range [OF sample_log3_holds, of 4]
  by simp

section \<open>Crashes\<close>

text \<open>
  The file operations of \<^verbatim>\<open>truncateFront\<close> and \<^verbatim>\<open>truncateBack\<close>, in their order; none if the segment
  of the index cannot be read.
\<close>

definition frontWrites :: "'c lru \<Rightarrow> nat \<Rightarrow> 'c Log \<Rightarrow> fs_op list option" where
  "frontWrites lru index l = do {
     (r, l1) \<leftarrow> loadSegment lru index l;
     (case r of
        Inl e \<Rightarrow> Some []
      | Inr k \<Rightarrow> do {
          ebuf \<leftarrow> frontCut index (lg_segments l1 ! k);
          Some (frontOps index ebuf (nat (findSegment l index)) (lg_segments l1))
        })
   }"

definition backWrites :: "'c lru \<Rightarrow> nat \<Rightarrow> 'c Log \<Rightarrow> fs_op list option" where
  "backWrites lru index l = do {
     (r, l1) \<leftarrow> loadSegment lru index l;
     (case r of
        Inl e \<Rightarrow> Some []
      | Inr k \<Rightarrow> do {
          ebuf \<leftarrow> backCut index (lg_segments l1 ! k);
          Some (backOps (sg_index (lg_segments l1 ! k)) ebuf (nat (findSegment l index)) (lg_segments l1))
        })
   }"

lemma truncation_writes:
  assumes lru: "lru_ok lru" and rel: "log_rel lru l f cs es []"
    and idx: "f \<le> index" "index < f + length (concat cs @ es)"
  shows "\<exists>k j. index = seg_start f cs k + j \<and> k \<le> length cs \<and> j < length (entries_of cs es k) \<and>
     frontWrites lru index l = Some (truncOps (enc_all (drop j (entries_of cs es k))) (segmentName index @ START)
        (map segmentName (take (Suc k) (starts f cs))) (segmentName index)) \<and>
     backWrites lru index l = Some (truncOps (enc_all (take (Suc j) (entries_of cs es k)))
        (segmentName (seg_start f cs k) @ END) (map segmentName (drop k (starts f cs))) (segmentName (seg_start f cs k)))"
proof -
  obtain k l1 where k: "loadSegment lru index l = Some (Inr k, l1)" "k \<le> length cs"
      "findSegment l index = int k" "log_rel lru l1 f cs es []"
      "seg_start f cs k \<le> index" "index < seg_start f cs k + length (entries_of cs es k)"
      "loaded (lg_segments l1 ! k) (entries_of cs es k)"
    using loadSegment_spec [OF lru rel idx] by blast
  note index = log_rel_index [OF k(4,2)] and paths = log_rel_paths [OF k(4)]
  have "map sg_path (take (Suc k) (lg_segments l1)) = map segmentName (take (Suc k) (starts f cs))"
    "map sg_path (drop k (lg_segments l1)) = map segmentName (drop k (starts f cs))"
    using paths by (metis take_map, metis drop_map)
  with k frontCut_loaded [OF k(7)] backCut_loaded [OF k(7)] index show ?thesis
    by (intro exI [of _ k] exI [of _ "index - seg_start f cs k"])
       (simp add: frontWrites_def backWrites_def frontOps_def backOps_def)
qed

text \<open>
  C11: a crash at any point of \<^verbatim>\<open>truncateFront\<close> or \<^verbatim>\<open>truncateBack\<close>, also in the middle of a write,
  leaves a directory that \<^verbatim>\<open>Open\<close> opens without error, with either all the entries the log had
  before or those it has after the truncation; the markers it may find are cleaned up.
\<close>

theorem truncation_crash_safe:
  assumes "lru_ok lru" and "holds lru l f xs" and "f \<le> index" and "index < f + length xs"
    and "frontWrites lru index l = Some fops" and "crashed fops (lg_dir l) d1"
    and "backWrites lru index l = Some bops" and "crashed bops (lg_dir l) d2"
  shows "(\<exists>l'. Open lru segSize cacheSize d1 = (Inr (), l') \<and>
            (holds lru l' f xs \<or> holds lru l' index (drop (index - f) xs))) \<and>
         (\<exists>l'. Open lru segSize cacheSize d2 = (Inr (), l') \<and>
            (holds lru l' f xs \<or> holds lru l' f (take (index - f + 1) xs)))"
proof -
  obtain cs es where rel: "log_rel lru l f cs es []" and xs: "xs = concat cs @ es"
    using assms(2) by (auto simp: holds_def)
  note disk = log_rel_disk [OF rel]
  from truncation_writes [OF assms(1) rel assms(3)] assms(4-8) xs obtain k j where
    j: "index = seg_start f cs k + j" "k \<le> length cs" "j < length (entries_of cs es k)"
    and c1: "crashed (truncOps (enc_all (drop j (entries_of cs es k))) (segmentName index @ START)
        (map segmentName (take (Suc k) (starts f cs))) (segmentName index)) (lg_dir l) d1"
    and c2: "crashed (truncOps (enc_all (take (Suc j) (entries_of cs es k)))
        (segmentName (seg_start f cs k) @ END) (map segmentName (drop k (starts f cs)))
        (segmentName (seg_start f cs k))) (lg_dir l) d2" by auto
  have whole: "log_rel lru l' f cs es [] \<Longrightarrow> holds lru l' f xs" for l' unfolding holds_def xs by blast
  show ?thesis
    using front_crash [OF disk j(2,3,1) c1, of _ lru] back_crash [OF disk j(2,3) c2, of _ lru]
      whole front_holds [OF _ j] back_holds [OF _ j] unfolding xs
    by (intro conjI Open_load [OF assms(1)]) blast+
qed

lemma crashed_take:
  "fst (fs_run (take n ops) d) \<Longrightarrow> crashed ops d (snd (fs_run (take n ops) d))"
proof (induction ops arbitrary: n d)
  case Nil
  then show ?case by simp
next
  case (Cons c cs)
  then show ?case by (cases n) (auto split: if_splits prod.splits)
qed

lemma truncOps_three: "fst (fs_run (take 3 (truncOps b m vs n)) d)"
  by (simp add: truncOps_def map_of_update numeral_3_eq_3)

theorem truncation_crash_safe_witness:
  "\<exists>fops bops l1 l2. frontWrites one_lru 2 sample_log3 = Some fops \<and> backWrites one_lru 2 sample_log3 = Some bops \<and>
     Open one_lru 1 1 (snd (fs_run (take 3 fops) (lg_dir sample_log3))) = (Inr (), l1) \<and>
     Open one_lru 1 1 (snd (fs_run (take 3 bops) (lg_dir sample_log3))) = (Inr (), l2) \<and>
     (holds one_lru l2 1 [[1], [2], [3]] \<or> holds one_lru l2 1 [[1], [2]])"
proof -
  obtain cs es where rel: "log_rel one_lru sample_log3 1 cs es []" and xs: "[[1], [2], [3]] = concat cs @ es"
    using sample_log3_holds by (auto simp: holds_def)
  have "1 \<le> (2 :: nat)" "2 < 1 + length (concat cs @ es)" unfolding xs [symmetric] by simp_all
  from truncation_writes [OF one_lru_ok rel this] obtain b m v n b' m' v' n' where
    w: "frontWrites one_lru 2 sample_log3 = Some (truncOps b m v n)"
       "backWrites one_lru 2 sample_log3 = Some (truncOps b' m' v' n')" by blast
  have "(\<exists>l'. Open one_lru 1 1 (snd (fs_run (take 3 (truncOps b m v n)) (lg_dir sample_log3))) = (Inr (), l') \<and>
            (holds one_lru l' 1 [[1], [2], [3]] \<or> holds one_lru l' 2 (drop (2 - 1) [[1], [2], [3]]))) \<and>
         (\<exists>l'. Open one_lru 1 1 (snd (fs_run (take 3 (truncOps b' m' v' n')) (lg_dir sample_log3))) = (Inr (), l') \<and>
            (holds one_lru l' 1 [[1], [2], [3]] \<or> holds one_lru l' 1 (take (2 - 1 + 1) [[1], [2], [3]])))"
    by (rule truncation_crash_safe [OF one_lru_ok sample_log3_holds _ _ w(1) _ w(2)])
       (simp_all add: crashed_take truncOps_three)
  with w show ?thesis by auto
qed

text \<open>What a crash in the middle of an append leaves of the entries: some of them, and part of the next.\<close>

lemma enc_all_take:
  "\<exists>i \<le> length ps. take m (enc_all ps) = enc_all (take i ps) \<or>
     i < length ps \<and> (\<exists>r. 0 < r \<and> r < length (enc (ps ! i)) \<and> take m (enc_all ps) = enc_all (take i ps) @ take r (enc (ps ! i)))"
proof (induction ps arbitrary: m)
  case Nil
  then show ?case by simp
next
  case (Cons p ps)
  consider (zero) "m = 0" | (part) "0 < m" "m < length (enc p)" | (more) "length (enc p) \<le> m" by linarith
  then show ?case
  proof cases
    case zero
    then show ?thesis by (intro exI [of _ 0]) simp
  next
    case part
    then show ?thesis by (intro exI [of _ 0]) auto
  next
    case more
    then have "take m (enc_all (p # ps)) = enc p @ take (m - length (enc p)) (enc_all ps)" by simp
    moreover from Cons.IH [of "m - length (enc p)"] obtain i where i: "i \<le> length ps"
      "take (m - length (enc p)) (enc_all ps) = enc_all (take i ps) \<or> i < length ps \<and>
        (\<exists>r. 0 < r \<and> r < length (enc (ps ! i)) \<and>
          take (m - length (enc p)) (enc_all ps) = enc_all (take i ps) @ take r (enc (ps ! i)))" by blast
    ultimately show ?thesis by (intro exI [of _ "Suc i"]) auto
  qed
qed

lemma append_disk:
  assumes disk: "disk_ok d f cs es" and "\<forall>e \<in> set ps. small e"
    and "f + length (concat cs @ es) + length ps \<le> 2 ^ 63"
  shows "disk_ok (AList.update (segmentName (f + length (concat cs))) (enc_all (es @ ps)) d) f cs (es @ ps)"
    (is "disk_ok ?d f cs (es @ ps)")
proof -
  let ?i = "f + length (concat cs)"
  have "seg_start f cs k < ?i" if "k < length cs" for k
    using seg_start_mono [of cs k "length cs" f] disk that by (simp add: disk_ok_def)
  moreover have "?i < 2 ^ 64" using assms(3) by simp
  ultimately have "segmentName (seg_start f cs k) \<noteq> segmentName ?i" if "k < length cs" for k
    using that segmentName_inject [of "seg_start f cs k" ?i] by fastforce
  then have full: "\<forall>k < length cs. map_of ?d (segmentName (seg_start f cs k)) = Some (enc_all (cs ! k)) \<and> cs ! k \<noteq> []"
    using disk by (simp add: disk_ok_def map_of_update)
  have "names_ok ?d (starts f cs)"
  proof (rule names_ok_subset)
    show "names_ok d (starts f cs)" using disk by (simp add: disk_ok_def)
    then show "distinct (map fst ?d)" by (simp add: names_ok_def distinct_update)
    show "map_of d n \<noteq> None" if "map_of ?d n \<noteq> None" for n
      using that disk by (cases "n = segmentName ?i") (simp_all add: disk_ok_def map_of_update)
  qed
  with full show ?thesis using assms unfolding disk_ok_def by (simp add: map_of_update ball_Un)
qed

lemma torn_disk:
  assumes disk: "disk_ok d f cs es" and e: "small e" "0 < r" "r < length (enc e)"
    and d': "d' = AList.update (segmentName (f + length (concat cs))) (enc_all es @ take r (enc e)) d"
  shows "\<exists>l'. Open lru segSize cacheSize d' = (Inl ErrCorrupt, l')"
proof -
  let ?n = "segmentName (f + length (concat cs))"
  have "map_of d ?n \<noteq> None" using disk by (simp add: disk_ok_def)
  then have names: "fst ` set d' = fst ` set d"
    unfolding d' dom_map_of_conv_image_fst [symmetric] map_of_update by auto
  have dist: "distinct (map fst d')" using disk by (simp add: d' distinct_update disk_ok_def names_ok_def)
  have scan: "scan (ReadDir d') (-1) (-1) [] = (-1, -1, map mkseg (starts f cs))"
    using disk_names [OF disk] by (intro scan_plain [OF dist disk_starts [OF disk]]) (simp add: names)
  have "loadEntries (enc_all es @ take r (enc e)) 0 = Inl ErrCorrupt"
    using loadEntries_enc [of es "take r (enc e)" 0] loadEntries_torn [OF e] disk by (simp add: disk_ok_def)
  moreover have "last (map mkseg (starts f cs)) = mkseg (f + length (concat cs))" by (simp add: starts_def)
  ultimately have "loadSegmentEntries d' (last (map mkseg (starts f cs))) = Inl ErrCorrupt"
    by (simp add: loadSegmentEntries_def d' map_of_update)
  moreover have "starts f cs \<noteq> []" by (simp add: starts_def)
  ultimately show ?thesis using scan by (simp add: Open_def load_def Let_def)
qed

text \<open>
  C14: a crash while entries are appended to the last segment, after \<open>m\<close> bytes: where these are some
  whole entries, \<^verbatim>\<open>Open\<close> finds the old entries and these; where they end inside an entry, \<^verbatim>\<open>Open\<close>
  reports the log as corrupt. An entry that was in the log is never lost silently.
\<close>

theorem append_crash:
  assumes "lru_ok lru" and "holds lru l f xs" and "\<forall>e \<in> set ps. small e" and "f + length xs + length ps \<le> 2 ^ 63"
    and "d' = snd (fs_do (Append (lg_sfile l) (take m (enc_all ps))) (lg_dir l))"
  shows "(\<exists>i l'. take m (enc_all ps) = enc_all (take i ps) \<and>
            Open lru segSize cacheSize d' = (Inr (), l') \<and> holds lru l' f (xs @ take i ps)) \<or>
         (\<nexists>i. take m (enc_all ps) = enc_all (take i ps)) \<and>
            (\<exists>l'. Open lru segSize cacheSize d' = (Inl ErrCorrupt, l'))"
proof -
  obtain cs es where rel: "log_rel lru l f cs es []" and xs: "xs = concat cs @ es"
    using assms(2) by (auto simp: holds_def)
  note disk = log_rel_disk [OF rel]
  let ?n = "segmentName (f + length (concat cs))"
  have d': "d' = AList.update ?n (enc_all es @ take m (enc_all ps)) (lg_dir l)"
    using disk assms(5) log_relD(9) [OF rel] by (simp add: disk_ok_def)
  have disk': "disk_ok (AList.update ?n (enc_all (es @ take i ps)) (lg_dir l)) f cs (es @ take i ps)" for i
    using assms(3,4) xs by (intro append_disk [OF disk]) (auto dest: in_set_takeD)
  show ?thesis
  proof (cases "\<exists>i. take m (enc_all ps) = enc_all (take i ps)")
    case True
    then obtain i where i: "take m (enc_all ps) = enc_all (take i ps)" ..
    from Open_disk [OF assms(1) disk' [of i], of segSize cacheSize] obtain l' where
      "Open lru segSize cacheSize d' = (Inr (), l')" "log_rel lru l' f cs (es @ take i ps) []"
      by (auto simp: d' i)
    moreover have "xs @ take i ps = concat cs @ (es @ take i ps)" by (simp add: xs)
    ultimately show ?thesis using i unfolding holds_def by blast
  next
    case False
    with enc_all_take [of ps m] obtain i r where r: "i < length ps" "0 < r" "r < length (enc (ps ! i))"
      "take m (enc_all ps) = enc_all (take i ps) @ take r (enc (ps ! i))" by blast
    then have "d' = AList.update ?n (enc_all (es @ take i ps) @ take r (enc (ps ! i)))
        (AList.update ?n (enc_all (es @ take i ps)) (lg_dir l))"
      unfolding d' by simp
    from torn_disk [OF disk' _ r(2,3) this] assms(3) r(1) False show ?thesis by (meson nth_mem)
  qed
qed

theorem append_crash_witness:
  "\<exists>l'. Open one_lru 1 1 (snd (fs_do (Append (lg_sfile sample_log3) [1]) (lg_dir sample_log3))) =
       (Inl ErrCorrupt, l')"
proof -
  have e: "enc [4] = [1, 4]" by (simp add: enc_def putUvarint.simps)
  have "[1] \<noteq> enc_all (take i [[4]])" for i by (cases i) (simp_all add: e)
  with append_crash [OF one_lru_ok sample_log3_holds, of "[[4]]" _ 1 1 1] show ?thesis
    by (simp add: small_def e)
qed

section \<open>The contract of the log\<close>

text \<open>
  What the users of the log rely on: it is a sequence of entries with consecutive indices
  from \<open>f\<close> on. Reading gives the entry of an index; writing appends under the next index and
  refuses any other; the truncations keep a suffix or a prefix and refuse an index that the log
  does not have.
\<close>

locale index_log =
  fixes has :: "'l \<Rightarrow> nat \<Rightarrow> bytes list \<Rightarrow> bool"
    and read :: "nat \<Rightarrow> 'l \<Rightarrow> ((wal_err + bytes) \<times> 'l) option"
    and append :: "nat \<Rightarrow> bytes \<Rightarrow> 'l \<Rightarrow> ((wal_err + unit) \<times> 'l) option"
    and cutFront :: "nat \<Rightarrow> 'l \<Rightarrow> ((wal_err + unit) \<times> 'l) option"
    and cutBack :: "nat \<Rightarrow> 'l \<Rightarrow> ((wal_err + unit) \<times> 'l) option"
    and lastIndex :: "'l \<Rightarrow> nat"
  assumes has_first: "has l f xs \<Longrightarrow> 0 < f"
    and has_last: "has l f xs \<Longrightarrow> lastIndex l = f + length xs - 1"
    and read_at: "has l f xs \<Longrightarrow> f \<le> i \<Longrightarrow> i < f + length xs \<Longrightarrow>
           \<exists>l'. read i l = Some (Inr (xs ! (i - f)), l') \<and> has l' f xs"
    and append_next: "has l f xs \<Longrightarrow> small b \<Longrightarrow> f + length xs < 2 ^ 63 \<Longrightarrow>
           \<exists>l'. append (f + length xs) b l = Some (Inr (), l') \<and> has l' f (xs @ [b])"
    and append_other: "has l f xs \<Longrightarrow> i \<noteq> f + length xs \<Longrightarrow>
           append i b l = Some (Inl (OutOfOrder (f + length xs) i), l)"
    and front_at: "has l f xs \<Longrightarrow> f \<le> i \<Longrightarrow> i < f + length xs \<Longrightarrow>
           \<exists>l'. cutFront i l = Some (Inr (), l') \<and> has l' i (drop (i - f) xs)"
    and back_at: "has l f xs \<Longrightarrow> f \<le> i \<Longrightarrow> i < f + length xs \<Longrightarrow>
           \<exists>l'. cutBack i l = Some (Inr (), l') \<and> has l' f (take (i - f + 1) xs)"
    and range: "has l f xs \<Longrightarrow> i < f \<or> f + length xs \<le> i \<Longrightarrow>
           cutFront i l = Some (Inl ErrOutOfRange, l) \<and> cutBack i l = Some (Inl ErrOutOfRange, l)"
begin

text \<open>An entry but the first is replaced by cutting the log off before it and appending.\<close>

lemma replace:
  assumes "has l f xs" and "f < i" and "i < f + length xs" and "small b" and "f + length xs \<le> 2 ^ 63"
  shows "\<exists>l1 l2. cutBack (i - 1) l = Some (Inr (), l1) \<and> lastIndex l1 = i - 1 \<and>
           append i b l1 = Some (Inr (), l2) \<and> has l2 f (take (i - f) xs @ [b])"
proof -
  have "f \<le> i - 1" "i - 1 < f + length xs" using assms(2,3) by auto
  from back_at [OF assms(1) this] obtain l1 where
    l1: "cutBack (i - 1) l = Some (Inr (), l1)" "has l1 f (take (i - f) xs)"
    using assms(2) by (auto simp: Suc_diff_Suc)
  have len: "f + length (take (i - f) xs) = i" using assms(2,3) by simp
  with has_last [OF l1(2)] append_next [OF l1(2) assms(4)] assms(3,5) l1(1) show ?thesis by auto
qed

text \<open>The first entry cannot be replaced that way.\<close>

lemma replace_first:
  assumes "has l f xs"
  shows "cutBack (f - 1) l = Some (Inl ErrOutOfRange, l)"
  using range [OF assms, of "f - 1"] has_first [OF assms] by simp

end

lemma holds_bounds:
  assumes "holds lru l f xs"
  shows "0 < f" and "GetLastIndex l = f + length xs - 1" and "int f + int (length xs) - 1 = int (GetLastIndex l)"
proof -
  from assms obtain cs es where rel: "log_rel lru l f cs es []" and xs: "xs = concat cs @ es"
    by (auto simp: holds_def)
  show "0 < f" by (rule log_relD(4) [OF rel])
  show "GetLastIndex l = f + length xs - 1" using log_relD(8) [OF rel] xs by (simp add: GetLastIndex_def)
  with \<open>0 < f\<close> show "int f + int (length xs) - 1 = int (GetLastIndex l)" by simp
qed

text \<open>The cache of segments that the log is built on.\<close>

locale segment_cache =
  fixes lru :: "'c lru"
  assumes cache_ok: "lru_ok lru"

sublocale segment_cache \<subseteq> wal: index_log "holds lru" "Read lru" "Write lru" "TruncateFront lru" "TruncateBack lru" GetLastIndex
proof unfold_locales
  show "0 < f" "GetLastIndex l = f + length xs - 1" if "holds lru l f xs" for l f xs
    using holds_bounds [OF that] by simp_all
  show "\<exists>l'. Read lru i l = Some (Inr (xs ! (i - f)), l') \<and> holds lru l' f xs"
    if "holds lru l f xs" "f \<le> i" "i < f + length xs" for l f xs i
    using Read_holds [OF cache_ok that] by blast
qed (rule Write_next [OF cache_ok] Write_other TruncateFront_holds [OF cache_ok] TruncateBack_holds [OF cache_ok]
       conjI [OF truncation_range]; assumption)+

interpretation one: segment_cache one_lru
  by unfold_locales (rule one_lru_ok)

end
