(* ===== verification/Persister.thy ===== *)
theory Persister
  imports Snapshotter WalOpen
begin

text \<open>
  The persister of \<^verbatim>\<open>src/persister/persister.go\<close>: vote, term and indices in a state file, the
  entries in the write-ahead log, snapshots in files of their own. \<^verbatim>\<open>Save\<close> writes the state file
  and sends the entries that are new over a channel to \<^verbatim>\<open>saveLogToDisk\<close>, which writes them.

  Every definition is one critical section. \<open>ps_entryCh\<close> is the content of the channel and
  \<open>ps_taken\<close> the entry that \<^verbatim>\<open>saveLogToDisk\<close> has received before it waits for the mutex. A send on
  a full channel continues only if the receiver has no entry yet; as \<^verbatim>\<open>Save\<close> holds the mutex, it
  never continues otherwise, which is \<^const>\<open>None\<close> like a panic and \<^verbatim>\<open>log.Fatal\<close>. \<open>ps_SnapTimer\<close> is the
  duration the timer was last reset to, in milliseconds.

  A slice expression \<^verbatim>\<open>s[:n]\<close> is checked against the capacity in Go and against the length here;
  the two agree where the code uses it (\<open>covers_log\<close> is an invariant).
\<close>

unbundle bit_operations_syntax

section \<open>Checksums and conversions\<close>

text \<open>\<^verbatim>\<open>crc32.ChecksumIEEE\<close>.\<close>

definition crc_step :: "32 word \<Rightarrow> 32 word" where
  "crc_step c = (if bit c 0 then drop_bit 1 c XOR 0xEDB88320 else drop_bit 1 c)"

definition crc_update :: "32 word \<Rightarrow> byte \<Rightarrow> 32 word" where
  "crc_update c b = crc_step (crc_step (crc_step (crc_step (crc_step (crc_step (crc_step (crc_step (c XOR ucast b))))))))"

definition ChecksumIEEE :: "bytes \<Rightarrow> 32 word" where
  "ChecksumIEEE bs = NOT (foldl crc_update (NOT 0) bs)"

lemma ChecksumIEEE_a: "ChecksumIEEE [97] = 0xE8B7BE43"
  by code_simp

definition uint64 :: "int \<Rightarrow> nat" where
  "uint64 i = nat (i mod 2 ^ 64)"

fun showNat :: "nat \<Rightarrow> string" where
  "showNat n = (if n < 10 then [digit n] else showNat (n div 10) @ [digit (n mod 10)])"

declare showNat.simps [simp del]

definition Itoa :: "int \<Rightarrow> string" where
  "Itoa i = (if i < 0 then ''-'' @ showNat (nat (- i)) else showNat (nat i))"

section \<open>The state\<close>

record logEntry =
  le_Index :: int
  le_Entry :: bytes

record 'l Persister =
  ps_id :: int
  ps_state :: IndexState
  ps_LastIdx :: int
  ps_snapshot :: Snapshot
  ps_log :: "'l Log"
  ps_entryCh :: "logEntry list"
  ps_entryCap :: nat
  ps_taken :: "logEntry option"
  ps_checkSum :: "32 word list"
  ps_SnapTimer :: int
  ps_statDir :: "dir option"
  ps_snapDir :: "dir option"

text \<open>What a crash leaves.\<close>

record disk =
  dk_log :: dir
  dk_stat :: "dir option"
  dk_snap :: "dir option"

definition disk_of :: "'l Persister \<Rightarrow> disk" where
  "disk_of ps = \<lparr>dk_log = lg_dir (ps_log ps), dk_stat = ps_statDir ps, dk_snap = ps_snapDir ps\<rparr>"

definition statName :: "int \<Rightarrow> string" where
  "statName i = Itoa i @ ''state''"

definition PersistTime :: int where "PersistTime = 10000"

definition ResetSnapTimer :: "'l Persister \<Rightarrow> 'l Persister" where
  "ResetSnapTimer ps = ps\<lparr>ps_SnapTimer := PersistTime\<rparr>"

definition newState :: IndexState where
  "newState = \<lparr>is_FirstIndex = 0, is_LastIndex = -1, is_LastCommitIndex = 0,
     is_RaftSate = Some \<lparr>st_VotedFor = -1, st_CurrentTerm = 0\<rparr>\<rparr>"

section \<open>The state file\<close>

definition saveState :: "codec \<Rightarrow> 'l Persister \<Rightarrow> 'l Persister option" where
  "saveState c ps = do {
     b \<leftarrow> pb_IndexState c (ps_state ps);
     d \<leftarrow> WriteAndSyncFile (statName (ps_id ps)) b (ps_statDir ps);
     Some (ps\<lparr>ps_statDir := Some d\<rparr>)
   }"

definition loadState :: "codec \<Rightarrow> 'l Persister \<Rightarrow> 'l Persister option" where
  "loadState c ps = do {
     d \<leftarrow> ps_statDir ps;
     let name = statName (ps_id ps);
     let b = (case map_of d name of None \<Rightarrow> [] | Some b \<Rightarrow> b);
     let ps1 = (if map_of d name = None
                then ps\<lparr>ps_statDir := Some (snd (fs_do (Create name) d)),
                        ps_state := (ps_state ps)\<lparr>is_FirstIndex := 1\<rparr>\<rparr>
                else ps);
     if b = [] then Some ps1
     else do {
       st \<leftarrow> un_IndexState c b;
       Some (ps1\<lparr>ps_state := st\<rparr>)
     }
   }"

section \<open>Starting\<close>

text \<open>The loop that reads \<open>n\<close> entries of the log from \<open>i\<close> on for their checksums.\<close>

fun readSums :: "'l lru \<Rightarrow> nat \<Rightarrow> int \<Rightarrow> 'l Persister \<Rightarrow> 'l Persister option" where
  "readSums lru 0 i ps = Some ps"
| "readSums lru (Suc n) i ps = do {
     (r, l) \<leftarrow> Wal.Read lru (uint64 i) (ps_log ps);
     (case r of
        Inl e \<Rightarrow> None
      | Inr b \<Rightarrow> do {
          let k = i - is_FirstIndex (ps_state ps);
          old \<leftarrow> at (ps_checkSum ps) k;
          readSums lru n (i + 1)
            (ps\<lparr>ps_log := l, ps_checkSum := (ps_checkSum ps)[nat k := ChecksumIEEE b]\<rparr>)
        })
   }"

definition initFromDisk :: "codec \<Rightarrow> 'l lru \<Rightarrow> 'l Persister \<Rightarrow> 'l Persister option" where
  "initFromDisk c lru ps = do {
     let (r, sd) = Load c (ps_snapDir ps);
     let snap = (case r of Inr s \<Rightarrow> s | Inl e \<Rightarrow> \<lparr>sn_RowData = [], sn_LastIndex = 0, sn_LastTerm = 0\<rparr>);
     ps1 \<leftarrow> loadState c (ps\<lparr>ps_snapDir := sd, ps_snapshot := snap\<rparr>);
     let st = ps_state ps1;
     let n = is_LastIndex st - is_FirstIndex st + 1;
     let ps2 = ps1\<lparr>ps_checkSum := replicate (nat (max 16 n)) 0, ps_entryCh := [],
                   ps_entryCap := nat (max 100 n)\<rparr>;
     if is_LastIndex st = -1 then do {
       b \<leftarrow> pb_Entry c \<lparr>e_Term = 0, e_Command = None\<rparr>;
       Some (ps2\<lparr>ps_checkSum := (ps_checkSum ps2)[0 := ChecksumIEEE b],
                 ps_state := st\<lparr>is_LastIndex := 0\<rparr>\<rparr>)
     } else readSums lru (nat (is_LastIndex st - max (is_FirstIndex st) 1 + 1)) (max (is_FirstIndex st) 1) ps2
   }"

definition MakePersister :: "codec \<Rightarrow> 'l lru \<Rightarrow> int \<Rightarrow> disk \<Rightarrow> 'l Persister option" where
  "MakePersister c lru i d =
     (case Open lru (int DefaultSegmentSize) (int DefaultCacheSize) (dk_log d) of
        (Inl e, l) \<Rightarrow> None
      | (Inr _, l) \<Rightarrow> initFromDisk c lru
          \<lparr>ps_id = i,
           ps_state = newState, ps_LastIdx = 0, ps_snapshot = \<lparr>sn_RowData = [], sn_LastIndex = 0, sn_LastTerm = 0\<rparr>,
           ps_log = l, ps_entryCh = [], ps_entryCap = 0, ps_taken = None, ps_checkSum = [],
           ps_SnapTimer = PersistTime, ps_statDir = dk_stat d, ps_snapDir = dk_snap d\<rparr>)"

definition Copy :: "codec \<Rightarrow> 'l lru \<Rightarrow> 'l Persister \<Rightarrow> 'l Persister option" where
  "Copy c lru ps = do {
     np \<leftarrow> MakePersister c lru (ps_id ps) (disk_of ps);
     Some (np\<lparr>ps_snapshot := ps_snapshot ps\<rparr>)
   }"

section \<open>Reading\<close>

fun readEntries :: "codec \<Rightarrow> 'l lru \<Rightarrow> nat \<Rightarrow> int \<Rightarrow> 'l Log \<Rightarrow> (rlog \<times> 'l Log) option" where
  "readEntries c lru 0 start l = Some ([], l)"
| "readEntries c lru (Suc n) start l = do {
     (r, l1) \<leftarrow> Wal.Read lru (uint64 start) l;
     (case r of
        Inl e \<Rightarrow> None
      | Inr b \<Rightarrow> do {
          e \<leftarrow> un_Entry c b;
          (es, l2) \<leftarrow> readEntries c lru n (start + 1) l1;
          Some (Some e # es, l2)
        })
   }"

text \<open>
  The entries, preceded by one that holds the place of the last included one, the vote, the term
  and the commit index. A slice of negative capacity is a panic.
\<close>

definition ReadRaftState :: "codec \<Rightarrow> 'l lru \<Rightarrow> 'l Persister \<Rightarrow> ((rlog \<times> int \<times> int \<times> int) \<times> 'l Persister) option" where
  "ReadRaftState c lru ps =
     (let st = ps_state ps; start = is_FirstIndex st; end = is_LastIndex st in
      if end - start + 1 < 0 then None
      else do {
        (es, l) \<leftarrow> readEntries c lru (if end > 0 then nat (end - start + 1) else 0) start (ps_log ps);
        s \<leftarrow> deref (is_RaftSate st);
        Some ((Some \<lparr>e_Term = max (start - 1) 0, e_Command = None\<rparr> # es, st_VotedFor s, st_CurrentTerm s,
               is_LastCommitIndex st), ps\<lparr>ps_log := l\<rparr>)
      })"

definition RaftStateSize :: "'l Persister \<Rightarrow> int" where
  "RaftStateSize ps = is_LastIndex (ps_state ps) - is_FirstIndex (ps_state ps) + 1"

definition ReadSnapshot :: "'l Persister \<Rightarrow> bytes \<times> int \<times> int" where
  "ReadSnapshot ps = (sn_RowData (ps_snapshot ps), sn_LastIndex (ps_snapshot ps), sn_LastTerm (ps_snapshot ps))"

definition SnapshotSize :: "'l Persister \<Rightarrow> int" where
  "SnapshotSize ps = go_len (sn_RowData (ps_snapshot ps))"

section \<open>Saving\<close>

definition send_entry :: "logEntry \<Rightarrow> 'l Persister \<Rightarrow> 'l Persister option" where
  "send_entry e ps =
     (if length (ps_entryCh ps) < ps_entryCap ps then Some (ps\<lparr>ps_entryCh := ps_entryCh ps @ [e]\<rparr>)
      else (case (ps_taken ps, ps_entryCh ps) of
          (None, x # q) \<Rightarrow> Some (ps\<lparr>ps_taken := Some x, ps_entryCh := q @ [e]\<rparr>)
        | _ \<Rightarrow> None))"

text \<open>The two loops of \<^verbatim>\<open>filter\<close>; \<open>idx\<close> is the index of the first entry.\<close>

fun sendAll :: "codec \<Rightarrow> int \<Rightarrow> Entry list \<Rightarrow> 'l Persister \<Rightarrow> 'l Persister option" where
  "sendAll c idx [] ps = Some ps"
| "sendAll c idx (e # es) ps = do {
     b \<leftarrow> pb_Entry c e;
     ps1 \<leftarrow> send_entry \<lparr>le_Index = idx, le_Entry = b\<rparr> ps;
     sendAll c (idx + 1) es ps1
   }"

fun sendChanged :: "codec \<Rightarrow> int \<Rightarrow> Entry list \<Rightarrow> 'l Persister \<Rightarrow> 'l Persister option" where
  "sendChanged c idx [] ps = Some ps"
| "sendChanged c idx (e # es) ps = do {
     b \<leftarrow> pb_Entry c e;
     changed \<leftarrow> (if idx > is_LastIndex (ps_state ps) then Some True
                 else do {
                   s \<leftarrow> at (ps_checkSum ps) (idx - is_FirstIndex (ps_state ps));
                   Some (ChecksumIEEE b \<noteq> s)
                 });
     ps1 \<leftarrow> (if changed then send_entry \<lparr>le_Index = idx, le_Entry = b\<rparr> ps else Some ps);
     sendChanged c (idx + 1) es ps1
   }"

definition filter_log :: "codec \<Rightarrow> int \<Rightarrow> Entry list \<Rightarrow> 'l Persister \<Rightarrow> 'l Persister option" where
  "filter_log c lastIndex logs ps =
     (if lastIndex \<ge> is_LastIndex (ps_state ps) then sendAll c (lastIndex + 1) logs ps
      else (let i = max 0 (is_LastCommitIndex (ps_state ps) - lastIndex) in
            sendChanged c (i + lastIndex + 1) (drop (nat i) logs) ps))"

definition Save :: "codec \<Rightarrow> 'l Persister save_fn" where
  "Save c snapshot state logs lastIncludeIndex lastTerm commitIndex ps = do {
     ps1 \<leftarrow> saveState c (ps\<lparr>ps_state := (ps_state ps)\<lparr>is_RaftSate := Some state, is_LastCommitIndex := commitIndex\<rparr>\<rparr>);
     let ps2 = ps1\<lparr>ps_snapshot := \<lparr>sn_RowData = snapshot, sn_LastIndex = lastIncludeIndex, sn_LastTerm = lastTerm\<rparr>\<rparr>;
     filter_log c lastIncludeIndex logs ps2
   }"

section \<open>Writing to disk\<close>

definition saveSnapToDisk :: "codec \<Rightarrow> 'l lru \<Rightarrow> 'l Persister \<Rightarrow> 'l Persister option" where
  "saveSnapToDisk c lru ps =
     (let idx = sn_LastIndex (ps_snapshot ps) in
      if idx \<noteq> ps_LastIdx ps then do {
        (r, sd) \<leftarrow> SaveSnap c (ps_snapshot ps) (ps_snapDir ps);
        (case r of
           Inl e \<Rightarrow> None
         | Inr _ \<Rightarrow> do {
             let ps1 = ps\<lparr>ps_snapDir := sd, ps_LastIdx := idx\<rparr>;
             (t, l) \<leftarrow> TruncateFront lru (min (uint64 idx) (GetLastIndex (ps_log ps1))) (ps_log ps1);
             (case t of
                Inl e \<Rightarrow> None
              | Inr _ \<Rightarrow> do {
                  cs \<leftarrow> slice_from (ps_checkSum ps1) (idx - is_FirstIndex (ps_state ps1) + 1);
                  ps2 \<leftarrow> saveState c (ps1\<lparr>ps_log := l, ps_checkSum := cs,
                           ps_state := (ps_state ps1)\<lparr>is_FirstIndex := idx + 1\<rparr>\<rparr>);
                  Some (ResetSnapTimer ps2)
                })
           })
      } else Some (ResetSnapTimer ps))"

text \<open>\<^verbatim>\<open>saveLogToDisk\<close> receives an entry, then waits for the mutex and writes it.\<close>

definition saveLogToDisk_receive :: "'l Persister \<Rightarrow> 'l Persister option" where
  "saveLogToDisk_receive ps = (case (ps_taken ps, ps_entryCh ps) of
       (None, x # q) \<Rightarrow> Some (ps\<lparr>ps_taken := Some x, ps_entryCh := q\<rparr>)
     | _ \<Rightarrow> None)"

definition makeRoom :: "codec \<Rightarrow> 'l lru \<Rightarrow> logEntry \<Rightarrow> 'l Persister \<Rightarrow> 'l Persister option" where
  "makeRoom c lru e ps =
     (if sn_LastIndex (ps_snapshot ps) > is_LastIndex (ps_state ps) then saveSnapToDisk c lru ps
      else if le_Index e < is_LastIndex (ps_state ps) then do {
        (r, l) \<leftarrow> TruncateBack lru (uint64 (le_Index e - 1)) (ps_log ps);
        (case r of
           Inl err \<Rightarrow> None
         | Inr _ \<Rightarrow> do {
             cs \<leftarrow> slice_to (ps_checkSum ps) (le_Index e - is_FirstIndex (ps_state ps));
             Some (ps\<lparr>ps_log := l, ps_checkSum := cs,
                      ps_state := (ps_state ps)\<lparr>is_LastIndex := int (GetLastIndex l)\<rparr>\<rparr>)
           })
      } else Some ps)"

definition saveLogToDisk_write :: "codec \<Rightarrow> 'l lru \<Rightarrow> 'l Persister \<Rightarrow> 'l Persister option" where
  "saveLogToDisk_write c lru ps = do {
     e \<leftarrow> ps_taken ps;
     ps1 \<leftarrow> makeRoom c lru e (ps\<lparr>ps_taken := None\<rparr>);
     (r, l) \<leftarrow> Write lru (uint64 (le_Index e)) (le_Entry e) (ps_log ps1);
     (case r of
        Inl err \<Rightarrow> Some (ps1\<lparr>ps_log := l\<rparr>)
      | Inr _ \<Rightarrow> saveState c (ps1\<lparr>ps_log := l, ps_checkSum := ps_checkSum ps1 @ [ChecksumIEEE (le_Entry e)],
                  ps_state := (ps_state ps1)\<lparr>is_LastIndex := int (GetLastIndex l)\<rparr>\<rparr>))
   }"

text \<open>The vote and term that a restart finds.\<close>

definition stored :: "codec \<Rightarrow> 'l Persister \<Rightarrow> State" where
  "stored c ps = (case loadState c (ps\<lparr>ps_state := newState\<rparr>) of
       None \<Rightarrow> \<lparr>st_VotedFor = -1, st_CurrentTerm = 0\<rparr>
     | Some ps' \<Rightarrow> (case is_RaftSate (ps_state ps') of
           None \<Rightarrow> \<lparr>st_VotedFor = -1, st_CurrentTerm = 0\<rparr> | Some st \<Rightarrow> st))"

end
