(* ===== verification/PersisterState.thy ===== *)
theory PersisterState
  imports Persister
begin

text \<open>
  The vote and term on disk: \<^verbatim>\<open>Save\<close> keeps the promise of \<open>stable_store\<close> that the elections rest
  on, and what runs beside it does not change what it wrote. What the promise does not cover is a
  crash inside the write of the state file.
\<close>

section \<open>What a save leaves in the state file\<close>

text \<open>A call whose error ends the process.\<close>

lemma fatal_Some [simp]:
  "(case r of Inl e \<Rightarrow> None | Inr u \<Rightarrow> f u) = Some x \<longleftrightarrow> (\<exists>u. r = Inr u \<and> f u = Some x)"
  by (cases r) simp_all

lemma WriteAndSyncFile_Some: "WriteAndSyncFile n b (Some d) = Some (AList.update n b d)"
  by (simp add: WriteAndSyncFile_def WriteAndSyncOps_def map_of_update)

lemma saveState_fields:
  assumes "saveState c ps = Some ps'"
  shows "\<exists>b d. pb_IndexState c (ps_state ps) = Some b \<and> ps' = ps\<lparr>ps_statDir := Some d\<rparr> \<and>
           map_of d (statName (ps_id ps)) = Some b"
proof -
  from assms obtain b d where b: "pb_IndexState c (ps_state ps) = Some b" "ps_statDir ps = Some d"
    by (auto simp: saveState_def WriteAndSyncFile_def bind_eq_Some_conv)
  with assms have "ps' = ps\<lparr>ps_statDir := Some (AList.update (statName (ps_id ps)) b d)\<rparr>"
    by (simp add: saveState_def WriteAndSyncFile_Some)
  with b(1) show ?thesis by (metis map_of_update fun_upd_same)
qed

lemma saveState_returns:
  assumes "pb_IndexState c (ps_state ps) \<noteq> None" and "ps_statDir ps \<noteq> None"
  shows "\<exists>d. saveState c ps = Some (ps\<lparr>ps_statDir := Some d\<rparr>)"
  using assms by (auto simp: saveState_def WriteAndSyncFile_def)

text \<open>The state file holds a vote and term.\<close>

definition on_disk :: "codec \<Rightarrow> 'l Persister \<Rightarrow> State \<Rightarrow> bool" where
  "on_disk c ps s \<longleftrightarrow> (\<exists>d b st. ps_statDir ps = Some d \<and> map_of d (statName (ps_id ps)) = Some b \<and> b \<noteq> [] \<and>
     un_IndexState c b = Some st \<and> is_RaftSate st = Some s)"

lemma on_disk_stored: "on_disk c ps s \<Longrightarrow> stored c ps = s"
  by (auto simp: on_disk_def stored_def loadState_def)

definition synced :: "codec \<Rightarrow> 'l Persister \<Rightarrow> bool" where
  "synced c ps \<longleftrightarrow> (\<exists>s. is_RaftSate (ps_state ps) = Some s \<and> on_disk c ps s)"

text \<open>An operation that keeps the vote and term in memory and leaves or rewrites the file.\<close>

definition keeps :: "codec \<Rightarrow> 'l Persister \<Rightarrow> 'l Persister \<Rightarrow> bool" where
  "keeps c ps ps' \<longleftrightarrow> ps_id ps' = ps_id ps \<and> is_RaftSate (ps_state ps') = is_RaftSate (ps_state ps) \<and>
     (ps_statDir ps' = ps_statDir ps \<or> is_RaftSate (ps_state ps) = None \<or> synced c ps')"

lemma keeps_trans: "keeps c ps ps' \<Longrightarrow> keeps c ps' ps'' \<Longrightarrow> keeps c ps ps''"
  by (auto simp: keeps_def synced_def on_disk_def)

lemma keeps_synced:
  "keeps c ps ps' \<Longrightarrow> synced c ps \<Longrightarrow> is_RaftSate (ps_state ps) = Some s \<Longrightarrow> synced c ps' \<and> on_disk c ps' s"
  by (auto simp: keeps_def synced_def on_disk_def)

lemma keeps_file:
  "ps_id ps' = ps_id ps \<Longrightarrow> ps_statDir ps' = ps_statDir ps \<Longrightarrow>
   is_RaftSate (ps_state ps') = is_RaftSate (ps_state ps) \<Longrightarrow> keeps c ps ps'"
  by (simp add: keeps_def)

lemma send_entry_frame:
  assumes "send_entry e ps = Some ps'"
  shows "\<exists>q t. ps' = ps\<lparr>ps_taken := t, ps_entryCh := q\<rparr>"
proof (cases "length (ps_entryCh ps) < ps_entryCap ps")
  case True
  with assms have "ps' = ps\<lparr>ps_taken := ps_taken ps, ps_entryCh := ps_entryCh ps @ [e]\<rparr>"
    by (auto simp: send_entry_def)
  then show ?thesis by blast
next
  case False
  with assms obtain x q where "ps' = ps\<lparr>ps_taken := Some x, ps_entryCh := q @ [e]\<rparr>"
    by (auto simp: send_entry_def split: option.splits list.splits)
  then show ?thesis by blast
qed

lemma sendAll_frame:
  "sendAll c idx es ps = Some ps' \<Longrightarrow> \<exists>q t. ps' = ps\<lparr>ps_taken := t, ps_entryCh := q\<rparr>"
proof (induction es arbitrary: idx ps)
  case Nil
  then show ?case by (intro exI [of _ "ps_entryCh ps"] exI [of _ "ps_taken ps"]) simp
next
  case (Cons e es)
  then show ?case by (auto simp: bind_eq_Some_conv dest!: send_entry_frame) force
qed

lemma sendChanged_frame:
  "sendChanged c idx es ps = Some ps' \<Longrightarrow> \<exists>q t. ps' = ps\<lparr>ps_taken := t, ps_entryCh := q\<rparr>"
proof (induction es arbitrary: idx ps)
  case Nil
  then show ?case by (intro exI [of _ "ps_entryCh ps"] exI [of _ "ps_taken ps"]) simp
next
  case (Cons e es)
  then show ?case
    by (auto simp: bind_eq_Some_conv split: if_splits dest!: send_entry_frame) force+
qed

lemma filter_log_frame:
  "filter_log c li es ps = Some ps' \<Longrightarrow> \<exists>q t. ps' = ps\<lparr>ps_taken := t, ps_entryCh := q\<rparr>"
  using sendAll_frame sendChanged_frame by (auto simp: filter_log_def Let_def split: if_splits)

section \<open>The promise of the store\<close>

context proto_codec
begin

lemma saveState_synced:
  assumes "saveState c ps = Some ps'" and "is_RaftSate (ps_state ps) \<noteq> None"
  shows "synced c ps' \<and> ps_state ps' = ps_state ps \<and> ps_id ps' = ps_id ps"
proof -
  from saveState_fields [OF assms(1)] obtain b d where
    b: "pb_IndexState c (ps_state ps) = Some b" "ps' = ps\<lparr>ps_statDir := Some d\<rparr>"
      "map_of d (statName (ps_id ps)) = Some b" by blast
  with state_roundtrip [OF b(1)] state_nonempty [OF b(1) assms(2)] assms(2) show ?thesis
    by (auto simp: synced_def on_disk_def)
qed

lemma saveState_keeps: "saveState c ps = Some ps' \<Longrightarrow> keeps c ps ps'"
  using saveState_synced [of ps ps'] saveState_fields [of c ps ps']
  by (cases "is_RaftSate (ps_state ps)") (auto simp: keeps_def)

lemma Save_synced:
  assumes "Save c snap st es li lt ci ps = Some ps'"
  shows "synced c ps' \<and> is_RaftSate (ps_state ps') = Some st \<and> on_disk c ps' st"
proof -
  from assms obtain ps1 where
    s: "saveState c (ps\<lparr>ps_state := (ps_state ps)\<lparr>is_RaftSate := Some st, is_LastCommitIndex := ci\<rparr>\<rparr>) = Some ps1"
    and f: "filter_log c li es (ps1\<lparr>ps_snapshot := \<lparr>sn_RowData = snap, sn_LastIndex = li, sn_LastTerm = lt\<rparr>\<rparr>) = Some ps'"
    by (auto simp: Save_def bind_eq_Some_conv)
  from saveState_synced [OF s] have "synced c ps1" "is_RaftSate (ps_state ps1) = Some st" by simp_all
  moreover from filter_log_frame [OF f] have "keeps c ps1 ps'" by (auto intro!: keeps_file)
  ultimately show ?thesis using keeps_synced [of c ps1 ps' st] by (auto simp: keeps_def)
qed

lemma saveSnapToDisk_keeps:
  assumes "saveSnapToDisk c lru ps = Some ps'"
  shows "keeps c ps ps'"
proof (cases "sn_LastIndex (ps_snapshot ps) = ps_LastIdx ps")
  case True
  with assms show ?thesis by (auto simp: saveSnapToDisk_def ResetSnapTimer_def intro!: keeps_file)
next
  case False
  with assms obtain ps1 ps2 where "saveState c ps1 = Some ps2" "ps' = ResetSnapTimer ps2"
    and "ps_id ps1 = ps_id ps" "ps_statDir ps1 = ps_statDir ps" "is_RaftSate (ps_state ps1) = is_RaftSate (ps_state ps)"
    by (auto simp: saveSnapToDisk_def Let_def bind_eq_Some_conv)
  then have "keeps c ps ps1" "keeps c ps1 ps2" "keeps c ps2 ps'"
    by (simp_all add: ResetSnapTimer_def saveState_keeps keeps_file)
  then show ?thesis using keeps_trans by blast
qed

lemma makeRoom_keeps: "makeRoom c lru e ps = Some ps' \<Longrightarrow> keeps c ps ps'"
  by (auto simp: makeRoom_def bind_eq_Some_conv keeps_file saveSnapToDisk_keeps split: if_splits)

lemma saveLogToDisk_write_keeps:
  assumes "saveLogToDisk_write c lru ps = Some ps'"
  shows "keeps c ps ps'"
proof -
  from assms obtain e ps1 r l where
    room: "makeRoom c lru e (ps\<lparr>ps_taken := None\<rparr>) = Some ps1"
    and "Write lru (uint64 (le_Index e)) (le_Entry e) (ps_log ps1) = Some (r, l)"
    and res: "(case r of Inl err \<Rightarrow> Some (ps1\<lparr>ps_log := l\<rparr>)
      | Inr _ \<Rightarrow> saveState c (ps1\<lparr>ps_log := l, ps_checkSum := ps_checkSum ps1 @ [ChecksumIEEE (le_Entry e)],
                  ps_state := (ps_state ps1)\<lparr>is_LastIndex := int (GetLastIndex l)\<rparr>\<rparr>)) = Some ps'"
    by (auto simp: saveLogToDisk_write_def bind_eq_Some_conv)
  have "keeps c ps (ps\<lparr>ps_taken := None\<rparr>)" by (rule keeps_file) simp_all
  moreover have "keeps c ps1 ps'"
  proof (cases r)
    case (Inl err)
    with res show ?thesis by (auto intro!: keeps_file)
  next
    case (Inr u)
    have "keeps c ps1 (ps1\<lparr>ps_log := l, ps_checkSum := ps_checkSum ps1 @ [ChecksumIEEE (le_Entry e)],
                  ps_state := (ps_state ps1)\<lparr>is_LastIndex := int (GetLastIndex l)\<rparr>\<rparr>)"
      by (rule keeps_file) simp_all
    with Inr res show ?thesis using saveState_keeps keeps_trans by fastforce
  qed
  ultimately show ?thesis using makeRoom_keeps [OF room] keeps_trans by blast
qed

lemma receive_keeps: "saveLogToDisk_receive ps = Some ps' \<Longrightarrow> keeps c ps ps'"
  by (auto simp: saveLogToDisk_receive_def split: option.splits list.splits intro!: keeps_file)

end

sublocale proto_codec \<subseteq> disk: stable_store "Save c" "stored c"
  using Save_synced on_disk_stored by unfold_locales blast

interpretation sample_store: stable_store "Save sample_codec" "stored sample_codec"
  by (rule sample.disk.stable_store_axioms)

section \<open>Restarts\<close>

text \<open>What runs beside the Raft layer: the receiver of the channel and the clock of the snapshots.\<close>

inductive background :: "codec \<Rightarrow> 'l lru \<Rightarrow> 'l Persister \<Rightarrow> 'l Persister \<Rightarrow> bool" for c lru where
  none: "background c lru ps ps"
| receive: "background c lru ps ps1 \<Longrightarrow> saveLogToDisk_receive ps1 = Some ps2 \<Longrightarrow> background c lru ps ps2"
| flush: "background c lru ps ps1 \<Longrightarrow> saveLogToDisk_write c lru ps1 = Some ps2 \<Longrightarrow> background c lru ps ps2"
| clock: "background c lru ps ps1 \<Longrightarrow> saveSnapToDisk c lru ps1 = Some ps2 \<Longrightarrow> background c lru ps ps2"

lemma readSums_state: "readSums lru n i ps = Some ps' \<Longrightarrow> ps_state ps' = ps_state ps"
  by (induction n arbitrary: i ps) (auto simp: bind_eq_Some_conv Let_def)

text \<open>A restart reads the state file.\<close>

lemma initFromDisk_state:
  assumes "initFromDisk c lru ps = Some ps'" and "on_disk c ps s"
  shows "is_RaftSate (ps_state ps') = Some s"
proof -
  define ps0 where "ps0 = ps\<lparr>ps_snapDir := snd (Load c (ps_snapDir ps)),
    ps_snapshot := (case fst (Load c (ps_snapDir ps)) of Inr s \<Rightarrow> s
       | Inl e \<Rightarrow> \<lparr>sn_RowData = [], sn_LastIndex = 0, sn_LastTerm = 0\<rparr>)\<rparr>"
  from assms(1) obtain ps1 where load: "loadState c ps0 = Some ps1"
    and ps1: "is_RaftSate (ps_state ps') = is_RaftSate (ps_state ps1)"
    by (auto simp: initFromDisk_def ps0_def Let_def bind_eq_Some_conv
        split: prod.splits if_splits dest!: readSums_state)
  from load assms(2) have "is_RaftSate (ps_state ps1) = Some s"
    by (auto simp: loadState_def on_disk_def ps0_def)
  with ps1 show ?thesis by simp
qed

lemma MakePersister_state:
  assumes "MakePersister c lru (ps_id ps) (disk_of ps) = Some ps'" and "on_disk c ps s"
  shows "is_RaftSate (ps_state ps') = Some s"
proof -
  from assms(1) obtain ps0 where "initFromDisk c lru ps0 = Some ps'"
    "ps_id ps0 = ps_id ps" "ps_statDir ps0 = ps_statDir ps"
    by (fastforce simp: MakePersister_def disk_of_def split: sum.splits prod.splits)
  with assms(2) initFromDisk_state [of c lru ps0 ps' s] show ?thesis by (simp add: on_disk_def)
qed

context proto_codec
begin

lemma background_keeps: "background c lru ps ps' \<Longrightarrow> keeps c ps ps'"
proof (induction rule: background.induct)
  case (none ps)
  show ?case by (rule keeps_file) simp_all
qed (use receive_keeps saveLogToDisk_write_keeps saveSnapToDisk_keeps keeps_trans in blast)+

lemma restart_finds_saved:
  assumes "Save c snap st es li lt ci ps = Some ps1" and "background c lru ps1 ps2"
    and "MakePersister c lru (ps_id ps2) (disk_of ps2) = Some ps3"
  shows "is_RaftSate (ps_state ps3) = Some st"
proof -
  from Save_synced [OF assms(1)] keeps_synced [OF background_keeps [OF assms(2)]]
  have "on_disk c ps2 st" by blast
  with assms(3) show ?thesis by (rule MakePersister_state)
qed

end

section \<open>What survives a restart\<close>

text \<open>A persister with an empty log, before its first save.\<close>

definition sample_ps :: "nat option Persister" where
  "sample_ps = \<lparr>ps_id = 1, ps_state = newState\<lparr>is_FirstIndex := 1, is_LastIndex := 0\<rparr>, ps_LastIdx = 0,
     ps_snapshot = \<lparr>sn_RowData = [], sn_LastIndex = 0, sn_LastTerm = 0\<rparr>, ps_log = sample_log,
     ps_entryCh = [], ps_entryCap = 100, ps_taken = None, ps_checkSum = replicate 16 0,
     ps_SnapTimer = PersistTime, ps_statDir = Some [], ps_snapDir = Some []\<rparr>"

definition plain_entry :: "int \<Rightarrow> Entry" where
  "plain_entry t = \<lparr>e_Term = t, e_Command = Some empty_op\<rparr>"

end
