(* ===== verification/PersisterLog.thy ===== *)
theory PersisterLog
  imports PersisterState
begin

text \<open>
  The log on disk: what \<^verbatim>\<open>saveLogToDisk\<close> makes of an entry it receives, and what a restart reads
  back.
\<close>

section \<open>The persister and its log agree\<close>

text \<open>
  The write-ahead log holds \<open>bs\<close> from index \<open>f\<close> on; the persister counts from \<open>FirstIndex\<close>, which
  may be later, to the last index of the log.
\<close>

definition wal_of :: "'l lru \<Rightarrow> 'l Persister \<Rightarrow> nat \<Rightarrow> bytes list \<Rightarrow> bool" where
  "wal_of lru ps f bs \<longleftrightarrow> holds lru (ps_log ps) f bs \<and> int f \<le> is_FirstIndex (ps_state ps) \<and>
     is_FirstIndex (ps_state ps) \<le> is_LastIndex (ps_state ps) + 1 \<and>
     is_LastIndex (ps_state ps) = int f + int (length bs) - 1 \<and> is_LastIndex (ps_state ps) < 2 ^ 63"

text \<open>There is a checksum for every entry from \<open>FirstIndex\<close> on.\<close>

definition covers_log :: "'l Persister \<Rightarrow> bool" where
  "covers_log ps \<longleftrightarrow> is_LastIndex (ps_state ps) - is_FirstIndex (ps_state ps) + 1 \<le> int (length (ps_checkSum ps))"

definition file_ok :: "codec \<Rightarrow> 'l Persister \<Rightarrow> bool" where
  "file_ok c ps \<longleftrightarrow> (\<exists>d b. ps_statDir ps = Some d \<and> map_of d (statName (ps_id ps)) = Some b \<and> b \<noteq> [] \<and>
     un_IndexState c b = Some (ps_state ps))"

lemma uint64_nonneg: "0 \<le> i \<Longrightarrow> i < 2 ^ 64 \<Longrightarrow> uint64 i = nat i"
  by (simp add: uint64_def)

context proto_codec
begin

lemma saveState_file:
  "saveState c ps = Some ps' \<Longrightarrow> is_RaftSate (ps_state ps) \<noteq> None \<Longrightarrow> file_ok c ps'"
  using saveState_fields [of c ps ps'] state_roundtrip state_nonempty by (auto simp: file_ok_def)

lemma Save_file:
  assumes "Save c snap st es li lt ci ps = Some ps'"
  shows "file_ok c ps' \<and> ps_id ps' = ps_id ps \<and> ps_log ps' = ps_log ps \<and> ps_checkSum ps' = ps_checkSum ps \<and>
     ps_state ps' = (ps_state ps)\<lparr>is_RaftSate := Some st, is_LastCommitIndex := ci\<rparr>"
proof -
  let ?ps = "ps\<lparr>ps_state := (ps_state ps)\<lparr>is_RaftSate := Some st, is_LastCommitIndex := ci\<rparr>\<rparr>"
  from assms obtain ps1 where s: "saveState c ?ps = Some ps1"
    and f: "filter_log c li es (ps1\<lparr>ps_snapshot := \<lparr>sn_RowData = snap, sn_LastIndex = li, sn_LastTerm = lt\<rparr>\<rparr>) = Some ps'"
    by (auto simp: Save_def bind_eq_Some_conv)
  from saveState_file [OF s] saveState_fields [OF s] filter_log_frame [OF f] show ?thesis
    by (auto simp: file_ok_def)
qed

end

section \<open>Restart\<close>

context segment_cache
begin

lemma readSums_returns:
  assumes "holds lru (ps_log ps) f bs" and "int f \<le> i" and "i + int n \<le> int f + int (length bs)"
    and "is_FirstIndex (ps_state ps) \<le> i" and "i - is_FirstIndex (ps_state ps) + int n \<le> int (length (ps_checkSum ps))"
    and "int f + int (length bs) \<le> 2 ^ 63"
  shows "\<exists>l cs. readSums lru n i ps = Some (ps\<lparr>ps_log := l, ps_checkSum := cs\<rparr>) \<and> holds lru l f bs \<and>
     length cs = length (ps_checkSum ps) \<and>
     (\<forall>k. cs ! k = (if i - is_FirstIndex (ps_state ps) \<le> int k \<and> int k < i - is_FirstIndex (ps_state ps) + int n
        then ChecksumIEEE (bs ! nat (int k + is_FirstIndex (ps_state ps) - int f)) else ps_checkSum ps ! k))"
  using assms
proof (induction n arbitrary: i ps)
  case 0
  then show ?case by (intro exI [of _ "ps_log ps"] exI [of _ "ps_checkSum ps"]) auto
next
  case (Suc n)
  let ?F = "is_FirstIndex (ps_state ps)"
  have u: "uint64 i = nat i" using Suc.prems by (intro uint64_nonneg) auto
  have "f \<le> nat i" "nat i < f + length bs" using Suc.prems(2,3) by linarith+
  from wal.read_at [OF Suc.prems(1) this] obtain l where
    l: "Wal.Read lru (nat i) (ps_log ps) = Some (Inr (bs ! (nat i - f)), l)" "holds lru l f bs" by blast
  let ?ps = "ps\<lparr>ps_log := l, ps_checkSum := (ps_checkSum ps)[nat (i - ?F) := ChecksumIEEE (bs ! (nat i - f))]\<rparr>"
  have "at (ps_checkSum ps) (i - ?F) = Some (ps_checkSum ps ! nat (i - ?F))"
    using Suc.prems(4,5) by (simp add: at_def)
  then have step: "readSums lru (Suc n) i ps = readSums lru n (i + 1) ?ps" using l(1) u by simp
  have pos: "nat i - f = nat (int k + ?F - int f)" if "int k = i - ?F" for k using that Suc.prems(2) by simp
  from Suc.IH [of ?ps "i + 1"] l(2) Suc.prems obtain l' cs where
    r: "readSums lru n (i + 1) ?ps = Some (?ps\<lparr>ps_log := l', ps_checkSum := cs\<rparr>)" "holds lru l' f bs"
      "length cs = length (ps_checkSum ps)"
      "\<And>k. cs ! k = (if i + 1 - ?F \<le> int k \<and> int k < i + 1 - ?F + int n
        then ChecksumIEEE (bs ! nat (int k + ?F - int f)) else ps_checkSum ?ps ! k)" by auto
  have "cs ! k = (if i - ?F \<le> int k \<and> int k < i - ?F + int (Suc n)
        then ChecksumIEEE (bs ! nat (int k + ?F - int f)) else ps_checkSum ps ! k)" for k
  proof (cases "int k = i - ?F")
    case True
    then have "nat (i - ?F) = k" "k < length (ps_checkSum ps)" using Suc.prems(4,5) by auto
    with r(4) [of k] pos [OF True] True show ?thesis by simp
  next
    case False
    then have "nat (i - ?F) \<noteq> k" using Suc.prems(4) by auto
    with r(4) [of k] False show ?thesis by auto
  qed
  with step r show ?case by (intro exI [of _ l'] exI [of _ cs]) simp
qed

text \<open>The whole start: the state file, the log and the checksums.\<close>

lemma MakePersister_returns:
  assumes wal: "wal_of lru ps f bs" and stat: "file_ok c ps"
  shows "\<exists>ps'. MakePersister c lru (ps_id ps) (disk_of ps) = Some ps' \<and> ps_state ps' = ps_state ps \<and>
     wal_of lru ps' f bs \<and> covers_log ps' \<and> ps_entryCh ps' = [] \<and> ps_taken ps' = None \<and>
     (\<forall>i. is_FirstIndex (ps_state ps) \<le> i \<and> i \<le> is_LastIndex (ps_state ps) \<longrightarrow>
        at (ps_checkSum ps') (i - is_FirstIndex (ps_state ps)) = Some (ChecksumIEEE (bs ! nat (i - int f))))"
proof -
  let ?st = "ps_state ps" let ?F = "is_FirstIndex ?st" and ?L = "is_LastIndex ?st"
  have h: "holds lru (ps_log ps) f bs" "int f \<le> ?F" "?F \<le> ?L + 1" "?L = int f + int (length bs) - 1" "?L < 2 ^ 63"
    using wal by (auto simp: wal_of_def)
  have f: "0 < f" by (rule wal.has_first [OF h(1)])
  from Open_holds [OF cache_ok h(1)] obtain l where
    l: "Open lru (int DefaultSegmentSize) (int DefaultCacheSize) (lg_dir (ps_log ps)) = (Inr (), l)" "holds lru l f bs" by blast
  obtain r sd where ld: "Load c (ps_snapDir ps) = (r, sd)" by fastforce
  define ps0 where "ps0 = \<lparr>ps_id = ps_id ps, ps_state = ?st, ps_LastIdx = 0,
     ps_snapshot = (case r of Inr s \<Rightarrow> s | Inl e \<Rightarrow> \<lparr>sn_RowData = [], sn_LastIndex = 0, sn_LastTerm = 0\<rparr>),
     ps_log = l, ps_entryCh = [], ps_entryCap = nat (max 100 (?L - ?F + 1)), ps_taken = None,
     ps_checkSum = replicate (nat (max 16 (?L - ?F + 1))) 0,
     ps_SnapTimer = PersistTime, ps_statDir = ps_statDir ps, ps_snapDir = sd\<rparr>"
  have "?L \<noteq> -1" "max ?F 1 = ?F" using h f by auto
  moreover from stat obtain d b where "ps_statDir ps = Some d" "map_of d (statName (ps_id ps)) = Some b" "b \<noteq> []"
    "un_IndexState c b = Some ?st" by (auto simp: file_ok_def)
  ultimately have m: "MakePersister c lru (ps_id ps) (disk_of ps) = readSums lru (nat (?L - ?F + 1)) ?F ps0"
    using l(1) ld by (simp add: MakePersister_def disk_of_def initFromDisk_def loadState_def ps0_def Let_def)
  let ?n = "nat (?L - ?F + 1)"
  have ps0: "ps_state ps0 = ?st" "length (ps_checkSum ps0) = nat (max 16 (?L - ?F + 1))" by (simp_all add: ps0_def)
  have pre: "holds lru (ps_log ps0) f bs" "int f \<le> ?F" "?F + int ?n \<le> int f + int (length bs)"
      "is_FirstIndex (ps_state ps0) \<le> ?F" "?F - is_FirstIndex (ps_state ps0) + int ?n \<le> int (length (ps_checkSum ps0))"
      "int f + int (length bs) \<le> 2 ^ 63"
    using l(2) h by (simp_all add: ps0_def max_def)
  from readSums_returns [OF pre, unfolded ps0] obtain l' cs where
    r: "readSums lru ?n ?F ps0 = Some (ps0\<lparr>ps_log := l', ps_checkSum := cs\<rparr>)" "holds lru l' f bs"
      "length cs = nat (max 16 (?L - ?F + 1))"
    and sums: "\<forall>k. cs ! k = (if ?F - ?F \<le> int k \<and> int k < ?F - ?F + int ?n
        then ChecksumIEEE (bs ! nat (int k + ?F - int f)) else ps_checkSum ps0 ! k)" by blast
  have "at cs (i - ?F) = Some (ChecksumIEEE (bs ! nat (i - int f)))" if "?F \<le> i" "i \<le> ?L" for i
    using that r(3) sums [rule_format, of "nat (i - ?F)"] by (simp add: at_def max_def)
  with m r h show ?thesis by (auto simp: ps0_def wal_of_def covers_log_def)
qed

lemma readEntries_returns:
  assumes "holds lru l f bs" and "int f \<le> i" and "i + int n \<le> int f + int (length bs)"
    and "int f + int (length bs) \<le> 2 ^ 63" and "map (un_Entry c) (take n (drop (nat i - f) bs)) = map Some es"
  shows "\<exists>l'. readEntries c lru n i l = Some (map Some es, l') \<and> holds lru l' f bs"
  using assms
proof (induction n arbitrary: i l es)
  case 0
  then show ?case by simp
next
  case (Suc n)
  have u: "uint64 i = nat i" using Suc.prems by (intro uint64_nonneg) auto
  have r: "f \<le> nat i" "nat i < f + length bs" using Suc.prems(2,3) by linarith+
  from wal.read_at [OF Suc.prems(1) this] obtain l1 where
    l1: "Wal.Read lru (nat i) l = Some (Inr (bs ! (nat i - f)), l1)" "holds lru l1 f bs" by blast
  have "drop (nat i - f) bs = bs ! (nat i - f) # drop (nat (i + 1) - f) bs"
    using r Suc.prems(2) by (simp add: Cons_nth_drop_Suc [symmetric] nat_add_distrib Suc_diff_le)
  with Suc.prems(5) obtain e es' where e: "es = e # es'" "un_Entry c (bs ! (nat i - f)) = Some e"
    "map (un_Entry c) (take n (drop (nat (i + 1) - f) bs)) = map Some es'" by auto
  from Suc.IH [OF l1(2) _ _ _ e(3)] Suc.prems obtain l' where
    "readEntries c lru n (i + 1) l1 = Some (map Some es', l')" "holds lru l' f bs" by auto
  with u l1 e show ?case by simp
qed

lemma ReadRaftState_returns:
  assumes wal: "wal_of lru ps f bs" and st: "is_RaftSate (ps_state ps) = Some s"
    and es: "map (un_Entry c) (drop (nat (is_FirstIndex (ps_state ps)) - f) bs) = map Some es"
  shows "\<exists>ps'. ReadRaftState c lru ps = Some ((Some \<lparr>e_Term = is_FirstIndex (ps_state ps) - 1, e_Command = None\<rparr> # map Some es,
     st_VotedFor s, st_CurrentTerm s, is_LastCommitIndex (ps_state ps)), ps')"
proof -
  let ?F = "is_FirstIndex (ps_state ps)" and ?L = "is_LastIndex (ps_state ps)"
  have h: "holds lru (ps_log ps) f bs" "int f \<le> ?F" "?F \<le> ?L + 1" "?L = int f + int (length bs) - 1" "?L < 2 ^ 63"
    using wal by (auto simp: wal_of_def)
  have f: "0 < f" by (rule wal.has_first [OF h(1)])
  have n: "nat (?L - ?F + 1) = length bs - (nat ?F - f)" using h by auto
  then have "map (un_Entry c) (take (nat (?L - ?F + 1)) (drop (nat ?F - f) bs)) = map Some es" using es by simp
  moreover have "?F + int (nat (?L - ?F + 1)) \<le> int f + int (length bs)" "int f + int (length bs) \<le> 2 ^ 63"
    using h by auto
  ultimately obtain l' where
    l': "readEntries c lru (nat (?L - ?F + 1)) ?F (ps_log ps) = Some (map Some es, l')"
    using readEntries_returns [OF h(1,2)] by blast
  moreover have "(if ?L > 0 then nat (?L - ?F + 1) else 0) = nat (?L - ?F + 1)" using h f by auto
  ultimately have "readEntries c lru (if ?L > 0 then nat (?L - ?F + 1) else 0) ?F (ps_log ps) = Some (map Some es, l')"
    by simp
  with h f st show ?thesis by (simp add: ReadRaftState_def deref_def Let_def)
qed

end

section \<open>Writing an entry\<close>

text \<open>
  What becomes of a log \<open>bs\<close> from index \<open>f\<close> on when entry \<open>i\<close> is written: it is appended, or it
  replaces the entries from \<open>i\<close> on unless it is the last one, which stays, or the first one, which
  ends the process.
\<close>

definition store_entry :: "nat \<Rightarrow> int \<Rightarrow> bytes \<Rightarrow> bytes list \<Rightarrow> bytes list option" where
  "store_entry f i b bs =
     (let last = int f + int (length bs) - 1 in
      if i = last + 1 then Some (bs @ [b])
      else if i < last then (if i \<le> int f then None else Some (take (nat i - f) bs @ [b]))
      else Some bs)"

text \<open>The states in which the receiver is about to write an entry and its state file can be written.\<close>

definition can_write :: "codec \<Rightarrow> 'l lru \<Rightarrow> 'l Persister \<Rightarrow> nat \<Rightarrow> bytes list \<Rightarrow> logEntry \<Rightarrow> bool" where
  "can_write c lru ps f bs e \<longleftrightarrow> wal_of lru ps f bs \<and> covers_log ps \<and> ps_taken ps = Some e \<and>
     sn_LastIndex (ps_snapshot ps) \<le> is_LastIndex (ps_state ps) \<and>
     is_FirstIndex (ps_state ps) \<le> le_Index e \<and> le_Index e < 2 ^ 63 \<and> small (le_Entry e) \<and>
     pb_IndexState c ((ps_state ps)\<lparr>is_LastIndex := le_Index e\<rparr>) \<noteq> None \<and> ps_statDir ps \<noteq> None"

text \<open>The end of a write that succeeds.\<close>

lemma write_done:
  assumes "makeRoom c lru e (ps\<lparr>ps_taken := None\<rparr>) = Some ps1" and "ps_taken ps = Some e"
    and "Write lru (uint64 (le_Index e)) (le_Entry e) (ps_log ps1) = Some (Inr (), l)"
    and "int (GetLastIndex l) = le_Index e"
    and "pb_IndexState c ((ps_state ps1)\<lparr>is_LastIndex := le_Index e\<rparr>) \<noteq> None" and "ps_statDir ps1 \<noteq> None"
  shows "\<exists>d. saveLogToDisk_write c lru ps = Some (ps1\<lparr>ps_log := l,
     ps_checkSum := ps_checkSum ps1 @ [ChecksumIEEE (le_Entry e)],
     ps_state := (ps_state ps1)\<lparr>is_LastIndex := le_Index e\<rparr>, ps_statDir := Some d\<rparr>)"
proof -
  let ?ps = "ps1\<lparr>ps_log := l, ps_checkSum := ps_checkSum ps1 @ [ChecksumIEEE (le_Entry e)],
     ps_state := (ps_state ps1)\<lparr>is_LastIndex := le_Index e\<rparr>\<rparr>"
  have "saveLogToDisk_write c lru ps = saveState c ?ps" using assms(1-4) by (simp add: saveLogToDisk_write_def)
  with saveState_returns [of c ?ps] assms(5,6) show ?thesis by auto
qed

context segment_cache
begin

lemma write_next:
  assumes can: "can_write c lru ps f bs e" and next_i: "le_Index e = is_LastIndex (ps_state ps) + 1"
  shows "\<exists>ps'. saveLogToDisk_write c lru ps = Some ps' \<and> wal_of lru ps' f (bs @ [le_Entry e]) \<and>
     covers_log ps' \<and> ps_taken ps' = None \<and> ps_entryCh ps' = ps_entryCh ps \<and>
     ps_state ps' = (ps_state ps)\<lparr>is_LastIndex := le_Index e\<rparr> \<and> ps_snapshot ps' = ps_snapshot ps \<and> ps_statDir ps' \<noteq> None"
proof -
  let ?st = "ps_state ps" let ?F = "is_FirstIndex ?st" and ?L = "is_LastIndex ?st"
  have h: "holds lru (ps_log ps) f bs" "int f \<le> ?F" "?F \<le> ?L + 1" "?L = int f + int (length bs) - 1"
    using can by (auto simp: can_write_def wal_of_def)
  have idx: "uint64 (le_Index e) = f + length bs" "f + length bs < 2 ^ 63"
    using h next_i can by (auto simp: can_write_def uint64_nonneg)
  from wal.append_next [OF h(1) _ idx(2), of "le_Entry e"] can obtain l where
    l: "Write lru (f + length bs) (le_Entry e) (ps_log ps) = Some (Inr (), l)" "holds lru l f (bs @ [le_Entry e])"
    by (auto simp: can_write_def)
  have last: "int (GetLastIndex l) = le_Index e"
    using wal.has_last [OF l(2)] wal.has_first [OF h(1)] next_i h(4) by simp
  have room: "makeRoom c lru e (ps\<lparr>ps_taken := None\<rparr>) = Some (ps\<lparr>ps_taken := None\<rparr>)"
    using can next_i by (simp add: makeRoom_def can_write_def)
  from write_done [OF room _ _ last] l(1) idx(1) can next_i h l(2) show ?thesis
    by (auto simp: can_write_def wal_of_def covers_log_def)
qed

lemma write_replace:
  assumes can: "can_write c lru ps f bs e" and mid: "int f < le_Index e" "le_Index e < is_LastIndex (ps_state ps)"
  shows "\<exists>ps'. saveLogToDisk_write c lru ps = Some ps' \<and>
     wal_of lru ps' f (take (nat (le_Index e) - f) bs @ [le_Entry e]) \<and>
     covers_log ps' \<and> ps_taken ps' = None \<and> ps_entryCh ps' = ps_entryCh ps"
proof -
  let ?st = "ps_state ps" let ?F = "is_FirstIndex ?st" and ?L = "is_LastIndex ?st" and ?i = "le_Index e"
  have h: "holds lru (ps_log ps) f bs" "int f \<le> ?F" "?F \<le> ?L + 1" "?L = int f + int (length bs) - 1" "?L < 2 ^ 63" "?F \<le> ?i"
    using can by (auto simp: can_write_def wal_of_def)
  have idx: "uint64 ?i = nat ?i" "uint64 (?i - 1) = nat ?i - 1" "f < nat ?i" "nat ?i < f + length bs" "f + length bs \<le> 2 ^ 63"
    using h mid by (auto simp: uint64_nonneg nat_diff_distrib)
  from wal.replace [OF h(1) idx(3,4) _ idx(5), of "le_Entry e"] can obtain l1 l where
    l: "TruncateBack lru (nat ?i - 1) (ps_log ps) = Some (Inr (), l1)" "GetLastIndex l1 = nat ?i - 1"
      "Write lru (nat ?i) (le_Entry e) l1 = Some (Inr (), l)" "holds lru l f (take (nat ?i - f) bs @ [le_Entry e])"
    by (auto simp: can_write_def)
  have last: "int (GetLastIndex l) = ?i" using wal.has_last [OF l(4)] idx by simp
  have cs: "slice_to (ps_checkSum ps) (?i - ?F) = Some (take (nat (?i - ?F)) (ps_checkSum ps))"
    using can h mid by (simp add: slice_to_def can_write_def covers_log_def)
  define ps1 where "ps1 = ps\<lparr>ps_taken := None, ps_log := l1, ps_checkSum := take (nat (?i - ?F)) (ps_checkSum ps),
    ps_state := ?st\<lparr>is_LastIndex := ?i - 1\<rparr>\<rparr>"
  have room: "makeRoom c lru e (ps\<lparr>ps_taken := None\<rparr>) = Some ps1"
    using can mid l(1,2) idx cs by (simp add: makeRoom_def can_write_def ps1_def)
  from write_done [OF room _ _ last] l(3,4) idx(1) can h mid show ?thesis
    by (auto simp: can_write_def wal_of_def covers_log_def ps1_def)
qed

lemma write_refused:
  assumes can: "can_write c lru ps f bs e" and "le_Index e \<ge> is_LastIndex (ps_state ps)"
    and "le_Index e \<noteq> is_LastIndex (ps_state ps) + 1"
  shows "\<exists>ps'. saveLogToDisk_write c lru ps = Some ps' \<and> wal_of lru ps' f bs \<and>
     covers_log ps' \<and> ps_taken ps' = None \<and> ps_entryCh ps' = ps_entryCh ps"
proof -
  let ?st = "ps_state ps"
  have h: "holds lru (ps_log ps) f bs" "is_LastIndex ?st = int f + int (length bs) - 1"
    "0 \<le> le_Index e" "le_Index e < 2 ^ 63"
    using can by (auto simp: can_write_def wal_of_def)
  then have "uint64 (le_Index e) \<noteq> f + length bs" using assms(3) by (auto simp: uint64_nonneg)
  from wal.append_other [OF h(1) this] assms show ?thesis
    by (auto simp: saveLogToDisk_write_def makeRoom_def can_write_def wal_of_def covers_log_def)
qed

lemma write_first:
  assumes can: "can_write c lru ps f bs e" and "le_Index e \<le> int f" and "le_Index e < is_LastIndex (ps_state ps)"
  shows "saveLogToDisk_write c lru ps = None"
proof -
  have h: "holds lru (ps_log ps) f bs" "int f \<le> le_Index e" "int f < 2 ^ 63"
    using can assms(3) by (auto simp: can_write_def wal_of_def)
  then have "uint64 (le_Index e - 1) = f - 1"
    using assms(2) wal.has_first [OF h(1)] by (simp add: uint64_nonneg nat_diff_distrib)
  with wal.replace_first [OF h(1)] assms show ?thesis
    by (simp add: saveLogToDisk_write_def makeRoom_def can_write_def)
qed

lemma write_stores:
  assumes can: "can_write c lru ps f bs e"
  shows "case store_entry f (le_Index e) (le_Entry e) bs of
     None \<Rightarrow> saveLogToDisk_write c lru ps = None
   | Some bs' \<Rightarrow> \<exists>ps'. saveLogToDisk_write c lru ps = Some ps' \<and> wal_of lru ps' f bs' \<and> covers_log ps' \<and>
       ps_taken ps' = None \<and> ps_entryCh ps' = ps_entryCh ps"
proof -
  have L: "is_LastIndex (ps_state ps) = int f + int (length bs) - 1" using can by (simp add: can_write_def wal_of_def)
  from write_next [OF can] write_replace [OF can] write_refused [OF can] write_first [OF can] show ?thesis
    unfolding store_entry_def Let_def L by auto
qed

end


text \<open>A persister with the entries of the sample log on disk, about to write an entry.\<close>

definition writing_ps :: "int \<Rightarrow> bytes \<Rightarrow> nat option Persister" where
  "writing_ps i b = sample_ps\<lparr>ps_log := sample_log3, ps_taken := Some \<lparr>le_Index = i, le_Entry = b\<rparr>,
     ps_state := newState\<lparr>is_FirstIndex := 1, is_LastIndex := 3\<rparr>\<rparr>"

lemma writing_ps_can: "1 \<le> i \<Longrightarrow> i < 100 \<Longrightarrow> length b < 100 \<Longrightarrow>
  can_write sample_codec one_lru (writing_ps i b) 1 [[1], [2], [3]] \<lparr>le_Index = i, le_Entry = b\<rparr>"
  using sample_log3_holds
  by (simp add: can_write_def wal_of_def covers_log_def writing_ps_def sample_ps_def newState_def
      sample_codec_def small_byte_def small_def)


section \<open>What a restart reads back\<close>

text \<open>
  C17: a restart after a crash succeeds and reads back the entries on disk from \<open>FirstIndex\<close> on, with
  the vote, the term and the commit index of the state file, behind one entry that stands for
  the last included one. The term of that entry is \<open>FirstIndex - 1\<close>, an index.
\<close>

theorem restart_reads_log:
  assumes "lru_ok lru" and "wal_of lru ps f bs" and "file_ok c ps" and "is_RaftSate (ps_state ps) = Some s"
    and "map (un_Entry c) (drop (nat (is_FirstIndex (ps_state ps)) - f) bs) = map Some es"
  shows "\<exists>ps1 ps2. MakePersister c lru (ps_id ps) (disk_of ps) = Some ps1 \<and>
     ReadRaftState c lru ps1 = Some ((Some \<lparr>e_Term = is_FirstIndex (ps_state ps) - 1, e_Command = None\<rparr> # map Some es,
       st_VotedFor s, st_CurrentTerm s, is_LastCommitIndex (ps_state ps)), ps2)"
proof -
  have cache: "segment_cache lru" using assms(1) by (rule segment_cache.intro)
  from segment_cache.MakePersister_returns [OF cache assms(2,3)] obtain ps1 where
    ps1: "MakePersister c lru (ps_id ps) (disk_of ps) = Some ps1" "ps_state ps1 = ps_state ps" "wal_of lru ps1 f bs" by blast
  from segment_cache.ReadRaftState_returns [OF cache ps1(3), of s c es] assms(4,5) ps1 show ?thesis by auto
qed

definition stopped_ps :: "nat option Persister" where
  "stopped_ps = sample_ps\<lparr>ps_log := sample_log3, ps_statDir := Some [(statName 1, map put_byte [2, 3, 2, 1, 5])],
     ps_state := \<lparr>is_FirstIndex = 2, is_LastIndex = 3, is_LastCommitIndex = 2,
       is_RaftSate = Some \<lparr>st_VotedFor = 1, st_CurrentTerm = 5\<rparr>\<rparr>\<rparr>"

lemma stopped_ps_ok: "wal_of one_lru stopped_ps 1 [[1], [2], [3]]" "file_ok sample_codec stopped_ps"
  using sample_log3_holds
  by (auto simp: wal_of_def file_ok_def stopped_ps_def sample_ps_def sample_codec_def small_byte_def)

theorem restart_reads_log_witness:
  "\<exists>ps1 ps2. MakePersister sample_codec one_lru 1 (disk_of stopped_ps) = Some ps1 \<and>
     ReadRaftState sample_codec one_lru ps1 = Some ((Some \<lparr>e_Term = 1, e_Command = None\<rparr> #
       map Some [\<lparr>e_Term = 1, e_Command = None\<rparr>, \<lparr>e_Term = 2, e_Command = None\<rparr>], 1, 5, 2), ps2)"
proof -
  have st: "ps_id stopped_ps = 1" "is_FirstIndex (ps_state stopped_ps) = 2" "is_LastCommitIndex (ps_state stopped_ps) = 2"
    "is_RaftSate (ps_state stopped_ps) = Some \<lparr>st_VotedFor = 1, st_CurrentTerm = 5\<rparr>"
    by (simp_all add: stopped_ps_def sample_ps_def)
  have "un_Entry sample_codec [2] = Some \<lparr>e_Term = 1, e_Command = None\<rparr>"
    "un_Entry sample_codec [3] = Some \<lparr>e_Term = 2, e_Command = None\<rparr>"
    by (simp_all add: sample_codec_def get_byte_def)
  with restart_reads_log [OF one_lru_ok stopped_ps_ok st(4),
      of "[\<lparr>e_Term = 1, e_Command = None\<rparr>, \<lparr>e_Term = 2, e_Command = None\<rparr>]"] show ?thesis
    by (simp add: st)
qed

text \<open>
  The vote and term given to a call of \<^verbatim>\<open>Save\<close> that returns are the ones a restart finds,
  whatever \<^verbatim>\<open>saveLogToDisk\<close> and the clock of the snapshots do between the call and the crash.
\<close>

theorem vote_survives_restart:
  assumes "proto_codec c" and "Save c snap st es li lt ci ps = Some ps1" and "background c lru ps1 ps2"
    and "MakePersister c lru (ps_id ps2) (disk_of ps2) = Some ps3"
  shows "is_RaftSate (ps_state ps3) = Some st"
  using proto_codec.restart_finds_saved [OF assms] .

theorem vote_survives_restart_witness:
  "\<exists>ps1 ps3. Save sample_codec [] \<lparr>st_VotedFor = 2, st_CurrentTerm = 5\<rparr> [plain_entry 5] 0 0 0 sample_ps = Some ps1 \<and>
     MakePersister sample_codec one_lru (ps_id ps1) (disk_of ps1) = Some ps3 \<and>
     is_RaftSate (ps_state ps3) = Some \<lparr>st_VotedFor = 2, st_CurrentTerm = 5\<rparr>"
proof -
  have "case Save sample_codec [] \<lparr>st_VotedFor = 2, st_CurrentTerm = 5\<rparr> [plain_entry 5] 0 0 0 sample_ps of
      None \<Rightarrow> False | Some ps1 \<Rightarrow> True"
    by code_simp
  then obtain ps1 where
    s: "Save sample_codec [] \<lparr>st_VotedFor = 2, st_CurrentTerm = 5\<rparr> [plain_entry 5] 0 0 0 sample_ps = Some ps1"
    by (auto split: option.splits)
  have "wal_of one_lru ps1 1 []"
    using sample.Save_file [OF s] sample_log_holds by (simp add: wal_of_def sample_ps_def newState_def)
  from one.MakePersister_returns [OF this] sample.Save_file [OF s] obtain ps3 where
    m: "MakePersister sample_codec one_lru (ps_id ps1) (disk_of ps1) = Some ps3" by blast
  from vote_survives_restart [OF sample.proto_codec_axioms s background.none m] s m show ?thesis by blast
qed

end
