(* ===== verification/PersisterSave.thy ===== *)
theory PersisterSave
  imports PersisterLog
begin

text \<open>
  \<^verbatim>\<open>Save\<close> and its channel: when a call returns, how the entries it sends reach the log on disk, and
  what can go wrong on the way.
\<close>

section \<open>The channel\<close>

text \<open>The entries that are under way: in the channel or with the receiver.\<close>

definition pending :: "'l Persister \<Rightarrow> nat" where
  "pending ps = length (ps_entryCh ps) + (if ps_taken ps = None then 0 else 1)"

lemma send_entry_pending:
  assumes "send_entry e ps = Some ps'" and "length (ps_entryCh ps) \<le> ps_entryCap ps"
  shows "pending ps' = pending ps + 1 \<and> ps_entryCap ps' = ps_entryCap ps \<and> length (ps_entryCh ps') \<le> ps_entryCap ps"
  using assms by (auto simp: send_entry_def pending_def split: if_splits option.splits list.splits)

lemma send_entry_blocks:
  assumes "send_entry e ps = None" and "0 < ps_entryCap ps"
  shows "ps_entryCap ps < pending ps"
  using assms by (auto simp: send_entry_def pending_def split: if_splits option.splits list.splits)

lemma sendAll_returns_iff:
  assumes "0 < ps_entryCap ps" and "length (ps_entryCh ps) \<le> ps_entryCap ps" and "\<forall>e \<in> set es. pb_Entry c e \<noteq> None"
  shows "sendAll c idx es ps \<noteq> None \<longleftrightarrow> pending ps + length es \<le> ps_entryCap ps + 1"
  using assms
proof (induction es arbitrary: idx ps)
  case Nil
  then show ?case by (simp add: pending_def)
next
  case (Cons e es)
  then obtain b where b: "pb_Entry c e = Some b" by auto
  let ?send = "send_entry \<lparr>le_Index = idx, le_Entry = b\<rparr> ps"
  show ?case
  proof (cases ?send)
    case None
    with send_entry_blocks [OF None Cons.prems(1)] b show ?thesis by simp
  next
    case (Some ps1)
    with Cons.IH [of ps1 "idx + 1"] Cons.prems b send_entry_pending [OF Some Cons.prems(2)] show ?thesis by simp
  qed
qed



section \<open>From a save to the disk\<close>

definition log_entries :: "int \<Rightarrow> bytes list \<Rightarrow> logEntry list" where
  "log_entries idx ds = map (\<lambda>(k, d). \<lparr>le_Index = idx + int k, le_Entry = d\<rparr>) (enumerate 0 ds)"

lemma log_entries_Nil [simp]: "log_entries idx [] = []"
  by (simp add: log_entries_def)

lemma log_entries_Cons [simp]:
  "log_entries idx (d # ds) = \<lparr>le_Index = idx, le_Entry = d\<rparr> # log_entries (idx + 1) ds"
  by (simp add: log_entries_def enumerate_Suc_eq comp_def case_prod_unfold)

lemma sendAll_room:
  assumes "length (ps_entryCh ps) + length es \<le> ps_entryCap ps" and "map (pb_Entry c) es = map Some ds"
  shows "sendAll c idx es ps = Some (ps\<lparr>ps_entryCh := ps_entryCh ps @ log_entries idx ds\<rparr>)"
  using assms
proof (induction es arbitrary: idx ps ds)
  case Nil
  then show ?case by simp
next
  case (Cons e es)
  then obtain b ds' where "ds = b # ds'" "pb_Entry c e = Some b" "map (pb_Entry c) es = map Some ds'" by auto
  with Cons.IH [of "ps\<lparr>ps_entryCh := ps_entryCh ps @ [\<lparr>le_Index = idx, le_Entry = b\<rparr>]\<rparr>" ds' "idx + 1"] Cons.prems(1)
  show ?case by (simp add: send_entry_def)
qed

lemma sendChanged_new:
  "is_LastIndex (ps_state ps) < idx \<Longrightarrow> sendChanged c idx es ps = sendAll c idx es ps"
proof (induction es arbitrary: idx ps)
  case Nil
  then show ?case by simp
next
  case (Cons e es)
  have "sendChanged c (idx + 1) es ps1 = sendAll c (idx + 1) es ps1"
    if "send_entry \<lparr>le_Index = idx, le_Entry = b\<rparr> ps = Some ps1" for b ps1
    using send_entry_frame [OF that] Cons by auto
  with Cons.prems show ?case by (cases "pb_Entry c e") (auto split: bind_split)
qed

text \<open>The receiver, round after round.\<close>

fun drain :: "codec \<Rightarrow> 'l lru \<Rightarrow> nat \<Rightarrow> 'l Persister \<Rightarrow> 'l Persister option" where
  "drain c lru 0 ps = Some ps"
| "drain c lru (Suc n) ps = do {
     ps1 \<leftarrow> saveLogToDisk_receive ps;
     ps2 \<leftarrow> saveLogToDisk_write c lru ps1;
     drain c lru n ps2
   }"

context segment_cache
begin

lemma drain_appends:
  assumes "wal_of lru ps f bs" and "covers_log ps" and "ps_taken ps = None" and "ps_statDir ps \<noteq> None"
    and "ps_entryCh ps = log_entries (is_LastIndex (ps_state ps) + 1) ds"
    and "sn_LastIndex (ps_snapshot ps) \<le> is_LastIndex (ps_state ps)"
    and "\<forall>d \<in> set ds. small d" and "is_LastIndex (ps_state ps) + int (length ds) < 2 ^ 63"
    and "\<And>n. is_LastIndex (ps_state ps) < n \<Longrightarrow> n \<le> is_LastIndex (ps_state ps) + int (length ds) \<Longrightarrow>
           pb_IndexState c ((ps_state ps)\<lparr>is_LastIndex := n\<rparr>) \<noteq> None"
  shows "\<exists>ps'. drain c lru (length ds) ps = Some ps' \<and> wal_of lru ps' f (bs @ ds) \<and> covers_log ps' \<and>
     ps_entryCh ps' = [] \<and> ps_taken ps' = None"
  using assms
proof (induction ds arbitrary: ps bs)
  case Nil
  then show ?case by simp
next
  case (Cons d ds)
  let ?L = "is_LastIndex (ps_state ps)" let ?e = "\<lparr>le_Index = ?L + 1, le_Entry = d\<rparr>"
  let ?ps = "ps\<lparr>ps_taken := Some ?e, ps_entryCh := log_entries (?L + 1 + 1) ds\<rparr>"
  have r: "saveLogToDisk_receive ps = Some ?ps" using Cons.prems(3,5) by (simp add: saveLogToDisk_receive_def)
  have can: "can_write c lru ?ps f bs ?e"
    using Cons.prems by (auto simp: can_write_def wal_of_def covers_log_def)
  from write_next [OF can] obtain ps1 where
    ps1: "saveLogToDisk_write c lru ?ps = Some ps1" "wal_of lru ps1 f (bs @ [d])" "covers_log ps1" "ps_taken ps1 = None"
      "ps_entryCh ps1 = log_entries (?L + 1 + 1) ds" "ps_state ps1 = (ps_state ps)\<lparr>is_LastIndex := ?L + 1\<rparr>"
      "ps_snapshot ps1 = ps_snapshot ps" "ps_statDir ps1 \<noteq> None" by auto
  have "\<exists>ps'. drain c lru (length ds) ps1 = Some ps' \<and> wal_of lru ps' f ((bs @ [d]) @ ds) \<and> covers_log ps' \<and>
     ps_entryCh ps' = [] \<and> ps_taken ps' = None"
    using Cons.prems by (intro Cons.IH ps1) (simp_all add: ps1)
  with r ps1(1) show ?case by simp
qed

end

text \<open>What \<^verbatim>\<open>Save\<close> does before it sends.\<close>

definition saved :: "bytes \<Rightarrow> State \<Rightarrow> int \<Rightarrow> int \<Rightarrow> int \<Rightarrow> dir \<Rightarrow> 'l Persister \<Rightarrow> 'l Persister" where
  "saved snap st li lt ci d ps = ps\<lparr>ps_state := (ps_state ps)\<lparr>is_RaftSate := Some st, is_LastCommitIndex := ci\<rparr>,
     ps_statDir := Some d, ps_snapshot := \<lparr>sn_RowData = snap, sn_LastIndex = li, sn_LastTerm = lt\<rparr>\<rparr>"

lemma Save_sends:
  assumes "pb_IndexState c ((ps_state ps)\<lparr>is_RaftSate := Some st, is_LastCommitIndex := ci\<rparr>) \<noteq> None"
    and "ps_statDir ps \<noteq> None"
  shows "\<exists>d. Save c snap st es li lt ci ps = filter_log c li es (saved snap st li lt ci d ps)"
proof -
  let ?ps = "ps\<lparr>ps_state := (ps_state ps)\<lparr>is_RaftSate := Some st, is_LastCommitIndex := ci\<rparr>\<rparr>"
  from saveState_returns [of c ?ps] assms obtain d where
    "saveState c ?ps = Some (?ps\<lparr>ps_statDir := Some d\<rparr>)" by auto
  then show ?thesis by (auto simp: Save_def saved_def)
qed



end
