(* ===== verification/PersisterSnap.thy ===== *)
theory PersisterSnap
  imports PersisterLog
begin

text \<open>
  Snapshots on disk: what \<^verbatim>\<open>saveSnapToDisk\<close> does when all its calls succeed, and that a restart
  afterwards has the snapshot in memory again.
\<close>

section \<open>Saving a snapshot\<close>

lemma saveSnapToDisk_returns:
  assumes "i = sn_LastIndex (ps_snapshot ps)" and "ps_LastIdx ps \<noteq> i"
    and "SaveSnap c (ps_snapshot ps) (ps_snapDir ps) = Some (Inr (), sd)"
    and "TruncateFront lru (min (uint64 i) (GetLastIndex (ps_log ps))) (ps_log ps) = Some (Inr (), l)"
    and "0 \<le> i - is_FirstIndex (ps_state ps) + 1"
    and "i - is_FirstIndex (ps_state ps) + 1 \<le> int (length (ps_checkSum ps))"
    and "ps_statDir ps \<noteq> None" and "pb_IndexState c ((ps_state ps)\<lparr>is_FirstIndex := i + 1\<rparr>) \<noteq> None"
  obtains d ps0 where "saveState c ps0 = Some (ps0\<lparr>ps_statDir := Some d\<rparr>)"
    and "saveSnapToDisk c lru ps = Some (ResetSnapTimer (ps0\<lparr>ps_statDir := Some d\<rparr>))"
    and "ps_log ps0 = l" and "ps_state ps0 = (ps_state ps)\<lparr>is_FirstIndex := i + 1\<rparr>"
    and "ps_id ps0 = ps_id ps" and "ps_snapDir ps0 = sd" and "ps_snapshot ps0 = ps_snapshot ps"
proof -
  let ?k = "i - is_FirstIndex (ps_state ps) + 1"
  define ps0 where "ps0 = ps\<lparr>ps_snapDir := sd, ps_LastIdx := i, ps_log := l,
     ps_checkSum := drop (nat ?k) (ps_checkSum ps), ps_state := (ps_state ps)\<lparr>is_FirstIndex := i + 1\<rparr>\<rparr>"
  from saveState_returns [of c ps0] assms(7,8) obtain d where
    d: "saveState c ps0 = Some (ps0\<lparr>ps_statDir := Some d\<rparr>)" by (auto simp: ps0_def)
  have "slice_from (ps_checkSum ps) ?k = Some (drop (nat ?k) (ps_checkSum ps))"
    using assms(5,6) by (simp add: slice_from_def)
  with assms d have "saveSnapToDisk c lru ps = Some (ResetSnapTimer (ps0\<lparr>ps_statDir := Some d\<rparr>))"
    by (simp add: saveSnapToDisk_def Let_def ps0_def)
  with d show thesis by (rule that) (simp_all add: ps0_def)
qed

section \<open>The snapshot after a restart\<close>

lemma readSums_snapshot: "readSums lru n i ps = Some ps' \<Longrightarrow> ps_snapshot ps' = ps_snapshot ps"
  by (induction n arbitrary: i ps) (auto simp: bind_eq_Some_conv Let_def)

lemma loadState_snapshot: "loadState c ps = Some ps' \<Longrightarrow> ps_snapshot ps' = ps_snapshot ps"
  by (auto simp: loadState_def Let_def bind_eq_Some_conv split: if_splits)

lemma MakePersister_snapshot:
  assumes "MakePersister c lru i d = Some ps'" and "Load c (dk_snap d) = (Inr s, sd)"
  shows "ps_snapshot ps' = s"
proof -
  from assms(1) obtain ps0 where ps0: "initFromDisk c lru ps0 = Some ps'" "ps_snapDir ps0 = dk_snap d"
    by (fastforce simp: MakePersister_def split: sum.splits prod.splits)
  with assms(2) obtain ps1 where ps1: "loadState c (ps0\<lparr>ps_snapDir := sd, ps_snapshot := s\<rparr>) = Some ps1"
    and "ps_snapshot ps' = ps_snapshot ps1"
    by (auto simp: initFromDisk_def Let_def bind_eq_Some_conv split: if_splits dest!: readSums_snapshot)
  with loadState_snapshot [OF ps1] show ?thesis by simp
qed

text \<open>The snapshot in memory ends inside the log on disk and all that is written can be encoded.\<close>

definition snapshot_fits :: "codec \<Rightarrow> 'l lru \<Rightarrow> 'l Persister \<Rightarrow> nat \<Rightarrow> bytes list \<Rightarrow> dir \<Rightarrow> bool" where
  "snapshot_fits c lru ps f bs d \<longleftrightarrow>
     (let s = ps_snapshot ps; i = sn_LastIndex s in
      wal_of lru ps f bs \<and> covers_log ps \<and> is_FirstIndex (ps_state ps) \<le> i \<and> i \<le> is_LastIndex (ps_state ps) \<and>
      ps_LastIdx ps \<noteq> i \<and> ps_snapDir ps = Some d \<and> newest s d \<and> pb_Snapshot c s \<noteq> None \<and>
      ps_statDir ps \<noteq> None \<and> is_RaftSate (ps_state ps) \<noteq> None \<and>
      pb_IndexState c ((ps_state ps)\<lparr>is_FirstIndex := i + 1\<rparr>) \<noteq> None)"

lemma snapshot_restart:
  assumes "lru_ok lru" and "proto_codec c" and fits: "snapshot_fits c lru ps f bs d"
  shows "\<exists>ps1 ps2. saveSnapToDisk c lru ps = Some ps1 \<and>
     MakePersister c lru (ps_id ps1) (disk_of ps1) = Some ps2 \<and> ps_snapshot ps2 = ps_snapshot ps \<and>
     is_FirstIndex (ps_state ps2) = sn_LastIndex (ps_snapshot ps) + 1"
proof -
  let ?s = "ps_snapshot ps" let ?i = "sn_LastIndex ?s"
  have h: "holds lru (ps_log ps) f bs" "int f \<le> is_FirstIndex (ps_state ps)"
      "is_LastIndex (ps_state ps) = int f + int (length bs) - 1" "is_LastIndex (ps_state ps) < 2 ^ 63"
    and i: "is_FirstIndex (ps_state ps) \<le> ?i" "?i \<le> is_LastIndex (ps_state ps)"
    using fits by (auto simp: snapshot_fits_def wal_of_def Let_def)
  note f = holds_bounds(1,2) [OF h(1)]
  from h i f have idx: "f \<le> nat ?i" "nat ?i < f + length bs" "?i \<noteq> 0"
    and m: "min (uint64 ?i) (GetLastIndex (ps_log ps)) = nat ?i" by (auto simp: uint64_nonneg)
  from TruncateFront_holds [OF assms(1) h(1) idx(1,2)] obtain l where
    l: "TruncateFront lru (nat ?i) (ps_log ps) = Some (Inr (), l)" "holds lru l (nat ?i) (drop (nat ?i - f) bs)" by blast
  from fits obtain b where b: "pb_Snapshot c ?s = Some b" "newest ?s d" and sd: "ps_snapDir ps = Some d"
    by (auto simp: snapshot_fits_def Let_def)
  have "\<not> IsEmptySnap ?s" using idx(3) by (simp add: IsEmptySnap_def)
  from saved_is_loaded [OF assms(2) b(1) this b(2)] obtain d1 d2 where
    d1: "SaveSnap c ?s (Some d) = Some (Inr (), Some d1)" and d2: "Load c (Some d1) = (Inr ?s, Some d2)" by blast
  obtain e ps0 where ps0: "saveState c ps0 = Some (ps0\<lparr>ps_statDir := Some e\<rparr>)"
    and run: "saveSnapToDisk c lru ps = Some (ResetSnapTimer (ps0\<lparr>ps_statDir := Some e\<rparr>))"
    and ps0': "ps_log ps0 = l" "ps_state ps0 = (ps_state ps)\<lparr>is_FirstIndex := ?i + 1\<rparr>" "ps_snapDir ps0 = Some d1"
    by (rule saveSnapToDisk_returns [OF refl _ d1 [folded sd] l(1) [folded m]])
       (use fits in \<open>auto simp: snapshot_fits_def covers_log_def Let_def\<close>)
  let ?ps1 = "ResetSnapTimer (ps0\<lparr>ps_statDir := Some e\<rparr>)"
  have "wal_of lru ?ps1 (nat ?i) (drop (nat ?i - f) bs)"
    using l(2) ps0' h i idx by (auto simp: wal_of_def ResetSnapTimer_def)
  moreover have "file_ok c ?ps1"
    using proto_codec.saveState_file [OF assms(2) ps0] ps0' fits
    by (simp add: file_ok_def ResetSnapTimer_def snapshot_fits_def Let_def)
  ultimately obtain ps2 where ps2: "MakePersister c lru (ps_id ?ps1) (disk_of ?ps1) = Some ps2"
    "ps_state ps2 = ps_state ?ps1"
    using segment_cache.MakePersister_returns [OF segment_cache.intro [OF assms(1)]] by blast
  moreover from MakePersister_snapshot [OF ps2(1)] d2 ps0' have "ps_snapshot ps2 = ?s"
    by (simp add: disk_of_def ResetSnapTimer_def)
  ultimately show ?thesis using run ps0' by (auto simp: ResetSnapTimer_def)
qed

end
