(* ===== verification/PersisterFaults.thy ===== *)
theory PersisterFaults
  imports PersisterSave PersisterSnap
begin

text \<open>
  Where the persister loses what it was given or ends the process: a crash inside the write of the
  state file, a second save before the first entry is committed, and a snapshot that ends after
  the log on disk.
\<close>

section \<open>A crash inside the write of the state file\<close>

text \<open>
  C40: \<^verbatim>\<open>WriteAndSyncFile\<close> truncates the state file before it writes. A crash in between leaves a file
  that a restart takes for a new one: it forgets the vote and the term, whatever they were, and may
  vote again in a term in which it has voted.
\<close>

theorem crash_forgets_vote:
  assumes "ps_statDir ps = Some d"
  shows "\<exists>d'. crashed (WriteAndSyncOps (statName (ps_id ps)) b) d d' \<and>
     stored c (ps\<lparr>ps_statDir := Some d'\<rparr>) = \<lparr>st_VotedFor = -1, st_CurrentTerm = 0\<rparr>"
proof (intro exI conjI)
  let ?d = "AList.update (statName (ps_id ps)) [] d"
  show "crashed (WriteAndSyncOps (statName (ps_id ps)) b) d ?d" by (simp add: WriteAndSyncOps_def)
  show "stored c (ps\<lparr>ps_statDir := Some ?d\<rparr>) = \<lparr>st_VotedFor = -1, st_CurrentTerm = 0\<rparr>"
    by (simp add: stored_def loadState_def newState_def map_of_update)
qed

theorem crash_forgets_vote_witness:
  "stored sample_codec stopped_ps = \<lparr>st_VotedFor = 1, st_CurrentTerm = 5\<rparr> \<and>
   (\<exists>d d'. ps_statDir stopped_ps = Some d \<and> crashed (WriteAndSyncOps (statName (ps_id stopped_ps)) [1]) d d' \<and>
     stored sample_codec (stopped_ps\<lparr>ps_statDir := Some d'\<rparr>) = \<lparr>st_VotedFor = -1, st_CurrentTerm = 0\<rparr>)"
proof -
  have "stored sample_codec stopped_ps = \<lparr>st_VotedFor = 1, st_CurrentTerm = 5\<rparr>"
    by (simp add: stored_def loadState_def stopped_ps_def sample_ps_def sample_codec_def small_byte_def)
  moreover obtain d where d: "ps_statDir stopped_ps = Some d" by (simp add: stopped_ps_def)
  ultimately show ?thesis using crash_forgets_vote [OF d, of "[1]" sample_codec] by blast
qed

section \<open>Saving again before the first entry is committed\<close>

lemma sendChanged_room:
  assumes "length (ps_entryCh ps) + length es \<le> ps_entryCap ps" and "\<forall>e \<in> set es. pb_Entry c e \<noteq> None"
    and "is_FirstIndex (ps_state ps) \<le> idx" and "covers_log ps"
  shows "\<exists>q. sendChanged c idx es ps = Some (ps\<lparr>ps_entryCh := ps_entryCh ps @ q\<rparr>)"
  using assms
proof (induction es arbitrary: idx ps)
  case Nil
  then show ?case by (intro exI [of _ "[]"]) simp
next
  case (Cons e es)
  then obtain b where b: "pb_Entry c e = Some b" by auto
  have ch: "is_LastIndex (ps_state ps) < idx \<or> (\<exists>s. at (ps_checkSum ps) (idx - is_FirstIndex (ps_state ps)) = Some s)"
    using Cons.prems(3,4) by (auto simp: at_def covers_log_def)
  let ?ps = "ps\<lparr>ps_entryCh := ps_entryCh ps @ [\<lparr>le_Index = idx, le_Entry = b\<rparr>]\<rparr>"
  have "\<exists>q. sendChanged c (idx + 1) es ps = Some (ps\<lparr>ps_entryCh := ps_entryCh ps @ q\<rparr>)"
    using Cons.prems by (intro Cons.IH) simp_all
  moreover have "\<exists>q. sendChanged c (idx + 1) es ?ps = Some (?ps\<lparr>ps_entryCh := ps_entryCh ?ps @ q\<rparr>)"
    using Cons.prems by (intro Cons.IH) (simp_all add: covers_log_def)
  ultimately show ?case using ch Cons.prems(1) b by (auto simp: send_entry_def)
qed

text \<open>
  With two or more entries on disk, none of them committed, a \<^verbatim>\<open>Save\<close> whose first entry does not
  match the checksum kept for it ends the process: \<^verbatim>\<open>saveLogToDisk\<close> cuts the log off before its
  first entry, which the log refuses, and the error is fatal. The checksums of entries written
  since the start are kept behind the sixteen places made at the start, so that they do not match.
\<close>

theorem resave_ends_process:
  assumes "lru_ok lru" and "wal_of lru ps f bs" and "covers_log ps" and "2 \<le> length bs"
    and "is_FirstIndex (ps_state ps) = int f" "li = int f - 1" "ci \<le> li"
    and "ps_taken ps = None" "ps_entryCh ps = []" "ps_statDir ps \<noteq> None"
    and "\<forall>e \<in> set (e # es). pb_Entry c e \<noteq> None" "length (e # es) \<le> ps_entryCap ps"
    and "pb_Entry c e = Some b" "small b" "at (ps_checkSum ps) 0 \<noteq> Some (ChecksumIEEE b)"
    and "pb_IndexState c ((ps_state ps)\<lparr>is_RaftSate := Some st, is_LastCommitIndex := ci\<rparr>) \<noteq> None"
    and "pb_IndexState c ((ps_state ps)\<lparr>is_RaftSate := Some st, is_LastCommitIndex := ci, is_LastIndex := int f\<rparr>) \<noteq> None"
  shows "\<exists>ps1 ps2. Save c snap st (e # es) li lt ci ps = Some ps1 \<and>
     saveLogToDisk_receive ps1 = Some ps2 \<and> saveLogToDisk_write c lru ps2 = None"
proof -
  note cache = segment_cache.intro [OF assms(1)]
  from Save_sends [OF assms(16,10)] obtain d where
    s: "Save c snap st (e # es) li lt ci ps = filter_log c li (e # es) (saved snap st li lt ci d ps)" by blast
  let ?ps = "saved snap st li lt ci d ps"
  let ?e = "\<lparr>le_Index = int f, le_Entry = b\<rparr>"
  have last: "is_LastIndex (ps_state ps) = int f + int (length bs) - 1" "is_LastIndex (ps_state ps) < 2 ^ 63"
    using assms(2) by (auto simp: wal_of_def)
  have "ps_checkSum ps \<noteq> []" using assms(3-5) last by (auto simp: covers_log_def)
  then have "at (ps_checkSum ps) 0 = Some (ps_checkSum ps ! 0)" by (simp add: at_def)
  moreover from this have "ChecksumIEEE b \<noteq> ps_checkSum ps ! 0" using assms(15) by auto
  ultimately have "filter_log c li (e # es) ?ps = sendChanged c (int f + 1) es (?ps\<lparr>ps_entryCh := [?e]\<rparr>)"
    using assms(4-7,9,12,13) last by (auto simp: filter_log_def saved_def send_entry_def)
  moreover obtain q where "sendChanged c (int f + 1) es (?ps\<lparr>ps_entryCh := [?e]\<rparr>) = Some (?ps\<lparr>ps_entryCh := ?e # q\<rparr>)"
    using sendChanged_room [of "?ps\<lparr>ps_entryCh := [?e]\<rparr>" es c "int f + 1"] assms(3,5,11,12)
    by (auto simp: saved_def covers_log_def)
  ultimately have "Save c snap st (e # es) li lt ci ps = Some (?ps\<lparr>ps_entryCh := ?e # q\<rparr>)" using s by simp
  moreover have "saveLogToDisk_receive (?ps\<lparr>ps_entryCh := ?e # q\<rparr>) = Some (?ps\<lparr>ps_taken := Some ?e, ps_entryCh := q\<rparr>)"
    using assms(8) by (simp add: saveLogToDisk_receive_def saved_def)
  moreover have "can_write c lru (?ps\<lparr>ps_taken := Some ?e, ps_entryCh := q\<rparr>) f bs ?e"
    using assms(2-6,14,17) last by (auto simp: can_write_def wal_of_def covers_log_def saved_def)
  from segment_cache.write_first [OF cache this] assms(4) last
  have "saveLogToDisk_write c lru (?ps\<lparr>ps_taken := Some ?e, ps_entryCh := q\<rparr>) = None"
    by (simp add: saved_def)
  ultimately show ?thesis by blast
qed

text \<open>The persister after two entries were saved and written, as a fresh persister writes them.\<close>

definition twice_ps :: "nat option Persister" where
  "twice_ps = sample_ps\<lparr>ps_log := sample_log3, ps_state := newState\<lparr>is_FirstIndex := 1, is_LastIndex := 3\<rparr>,
     ps_checkSum := ps_checkSum sample_ps @ map ChecksumIEEE [[1], [2], [3]]\<rparr>"

theorem resave_ends_process_witness:
  "\<exists>ps1 ps2. Save sample_codec [] \<lparr>st_VotedFor = 1, st_CurrentTerm = 1\<rparr>
       [\<lparr>e_Term = 0, e_Command = None\<rparr>, \<lparr>e_Term = 1, e_Command = None\<rparr>] 0 0 0 twice_ps = Some ps1 \<and>
     saveLogToDisk_receive ps1 = Some ps2 \<and> saveLogToDisk_write sample_codec one_lru ps2 = None"
proof (rule resave_ends_process [OF one_lru_ok])
  show "wal_of one_lru twice_ps 1 [[1], [2], [3]]"
    using sample_log3_holds by (simp add: wal_of_def twice_ps_def)
  show "pb_Entry sample_codec \<lparr>e_Term = 0, e_Command = None\<rparr> = Some [1]"
    by (simp add: sample_codec_def small_byte_def put_byte_def)
  have "ChecksumIEEE [1] \<noteq> 0" by code_simp
  then show "at (ps_checkSum twice_ps) 0 \<noteq> Some (ChecksumIEEE [1])"
    by (simp add: twice_ps_def sample_ps_def at_def eval_nat_numeral)
qed (simp_all add: twice_ps_def sample_ps_def covers_log_def newState_def sample_codec_def small_byte_def small_def)

section \<open>A snapshot that ends after the log on disk\<close>

text \<open>The persister when \<^verbatim>\<open>saveLogToDisk\<close> is about to write the entry after such a snapshot.\<close>

definition past_log :: "codec \<Rightarrow> 'l lru \<Rightarrow> 'l Persister \<Rightarrow> nat \<Rightarrow> bytes list \<Rightarrow> logEntry \<Rightarrow> bool" where
  "past_log c lru ps f bs e \<longleftrightarrow> wal_of lru ps f bs \<and> ps_taken ps = Some e \<and>
     is_LastIndex (ps_state ps) < sn_LastIndex (ps_snapshot ps) \<and> sn_LastIndex (ps_snapshot ps) < 2 ^ 63 - 1 \<and>
     ps_LastIdx ps \<noteq> sn_LastIndex (ps_snapshot ps) \<and> le_Index e = sn_LastIndex (ps_snapshot ps) + 1 \<and>
     sn_LastIndex (ps_snapshot ps) - is_FirstIndex (ps_state ps) + 1 \<le> int (length (ps_checkSum ps)) \<and>
     pb_Snapshot c (ps_snapshot ps) \<noteq> None \<and> ps_snapDir ps \<noteq> None \<and> ps_statDir ps \<noteq> None \<and>
     pb_IndexState c ((ps_state ps)\<lparr>is_FirstIndex := le_Index e\<rparr>) \<noteq> None"

lemma past_log_save:
  assumes past: "past_log c lru ps f bs e" and t: "TruncateFront lru (f + length bs - 1) (ps_log ps) = Some (Inr (), l)"
  shows "\<exists>ps1. saveSnapToDisk c lru (ps\<lparr>ps_taken := None\<rparr>) = Some ps1 \<and> ps_log ps1 = l \<and>
     ps_state ps1 = (ps_state ps)\<lparr>is_FirstIndex := le_Index e\<rparr>"
proof -
  let ?i = "sn_LastIndex (ps_snapshot ps)"
  have h: "holds lru (ps_log ps) f bs" "is_LastIndex (ps_state ps) = int f + int (length bs) - 1"
    "int f \<le> is_FirstIndex (ps_state ps)" "is_FirstIndex (ps_state ps) \<le> is_LastIndex (ps_state ps) + 1"
    "is_LastIndex (ps_state ps) < ?i" "?i < 2 ^ 63 - 1"
    using past by (auto simp: past_log_def wal_of_def)
  note f = holds_bounds(1,2) [OF h(1)]
  then have i: "min (uint64 ?i) (GetLastIndex (ps_log ps)) = f + length bs - 1" "?i \<noteq> 0"
    using h by (auto simp: uint64_nonneg)
  from past i(2) obtain sd where sd: "SaveSnap c (ps_snapshot ps) (ps_snapDir ps) = Some (Inr (), sd)"
    by (auto simp: past_log_def SaveSnap_def IsEmptySnap_def save_snap_def WriteAndSyncFile_def)
  let ?ps = "ps\<lparr>ps_taken := None\<rparr>"
  obtain d ps0 where "saveSnapToDisk c lru ?ps = Some (ResetSnapTimer (ps0\<lparr>ps_statDir := Some d\<rparr>))"
    "ps_log ps0 = l" "ps_state ps0 = (ps_state ps)\<lparr>is_FirstIndex := ?i + 1\<rparr>"
    by (rule saveSnapToDisk_returns [of ?i ?ps c sd lru l])
       (use past sd t i h in \<open>auto simp: past_log_def\<close>)
  with past show ?thesis by (simp add: past_log_def ResetSnapTimer_def)
qed

lemma past_log_empty:
  assumes past: "past_log c lru ps f [] e"
  shows "saveLogToDisk_write c lru ps = None"
proof -
  have h: "holds lru (ps_log ps) f []" using past by (simp add: past_log_def wal_of_def)
  have "min n (GetLastIndex (ps_log ps)) < f" for n using holds_bounds(1,2) [OF h] by simp
  then have "TruncateFront lru (min n (GetLastIndex (ps_log ps))) (ps_log ps) = Some (Inl ErrOutOfRange, ps_log ps)" for n
    by (intro truncation_range(1) [OF h] disjI1)
  then have "saveSnapToDisk c lru (ps\<lparr>ps_taken := None\<rparr>) = None"
    using past by (cases "SaveSnap c (ps_snapshot ps) (ps_snapDir ps)")
      (auto simp: saveSnapToDisk_def past_log_def Let_def split: sum.splits)
  with past show ?thesis by (simp add: saveLogToDisk_write_def makeRoom_def past_log_def)
qed

text \<open>
  A snapshot of a later index than the log on disk, as a follower receives it from the leader.
  If the log is empty, writing the next entry ends the process. Otherwise the log is cut to its
  last entry, the index of which is before that of the snapshot, and the entry after the snapshot
  is refused by the log: it is dropped without an error, and a restart will not find it.
\<close>

theorem snapshot_past_log:
  assumes "lru_ok lru" and past: "past_log c lru ps f bs e"
  shows "if bs = [] then saveLogToDisk_write c lru ps = None
     else \<exists>ps'. saveLogToDisk_write c lru ps = Some ps' \<and> holds lru (ps_log ps') (f + length bs - 1) [last bs] \<and>
       is_FirstIndex (ps_state ps') = le_Index e \<and> is_LastIndex (ps_state ps') < is_FirstIndex (ps_state ps')"
proof (cases "bs = []")
  case True
  with past_log_empty past show ?thesis by auto
next
  case False
  have h: "holds lru (ps_log ps) f bs" "is_LastIndex (ps_state ps) = int f + int (length bs) - 1"
    using past by (auto simp: past_log_def wal_of_def)
  have "f \<le> f + length bs - 1" "f + length bs - 1 < f + length bs" using False by (cases bs; simp)+
  from TruncateFront_holds [OF assms(1) h(1) this] obtain l where
    l: "TruncateFront lru (f + length bs - 1) (ps_log ps) = Some (Inr (), l)"
      "holds lru l (f + length bs - 1) (drop (f + length bs - 1 - f) bs)" by blast
  have "drop (f + length bs - 1 - f) bs = [last bs]"
    using False by (cases bs rule: rev_cases) simp_all
  with l(2) have lh: "holds lru l (f + length bs - 1) [last bs]" by simp
  from past_log_save [OF past l(1)] obtain ps1 where
    ps1: "saveSnapToDisk c lru (ps\<lparr>ps_taken := None\<rparr>) = Some ps1" "ps_log ps1 = l"
      "ps_state ps1 = (ps_state ps)\<lparr>is_FirstIndex := le_Index e\<rparr>" by blast
  have "uint64 (le_Index e) \<noteq> f + length bs - 1 + length [last bs]"
    using past h holds_bounds(1) [OF h(1)] by (auto simp: past_log_def uint64_nonneg)
  from Write_other [OF lh this] past ps1
  have "saveLogToDisk_write c lru ps = Some (ps1\<lparr>ps_log := l\<rparr>)"
    by (simp add: saveLogToDisk_write_def makeRoom_def past_log_def)
  with False lh ps1 past show ?thesis by (simp add: past_log_def)
qed

definition past_ps :: "nat option Persister" where
  "past_ps = (writing_ps 6 [9])\<lparr>ps_snapshot := \<lparr>sn_RowData = [7], sn_LastIndex = 5, sn_LastTerm = 1\<rparr>\<rparr>"

theorem snapshot_past_log_witness:
  "\<exists>ps'. saveLogToDisk_write sample_codec one_lru past_ps = Some ps' \<and> holds one_lru (ps_log ps') 3 [[3]] \<and>
     is_FirstIndex (ps_state ps') = 6"
proof -
  have "past_log sample_codec one_lru past_ps 1 [[1], [2], [3]] \<lparr>le_Index = 6, le_Entry = [9]\<rparr>"
    using sample_log3_holds
    by (simp add: past_log_def wal_of_def past_ps_def writing_ps_def sample_ps_def newState_def sample_codec_def small_byte_def)
  from snapshot_past_log [OF one_lru_ok this] show ?thesis by (auto simp: numeral_3_eq_3)
qed

end
