(* ===== verification/KvServer.thy ===== *)
theory KvServer
  imports Common Raft Persister
begin

text \<open>
  The key/value server of \<^verbatim>\<open>src/server/server.go\<close>: the state machine on top of a Raft peer,
  the queues between its goroutines and its connections. One definition is one round of the
  loop of a goroutine, or one critical section of it where the loop unlocks in between.

  The peer and its persister are part of the state. The three queues are the contents of the
  channels; a send waits for room, which another goroutine makes, and panics once \<^verbatim>\<open>Stop\<close> has
  closed the channels (\<open>kv_closed\<close>). A connection is a number. The mutexes are not part of
  the state. \<^verbatim>\<open>DBExecute\<close> writes the value it found into a read request; a read request is never
  put in the log, so that the written value is visible in the response only.

  The encoding of the snapshot is that of \<^verbatim>\<open>encoding/gob\<close>, the argument \<open>g\<close>: \<open>gob_encode\<close> is what
  two calls of \<^verbatim>\<open>Encode\<close> leave in the buffer and \<open>gob_decode\<close> what two calls of \<^verbatim>\<open>Decode\<close> return.
\<close>

section \<open>State\<close>

record gob =
  gob_encode :: "(bytes \<rightharpoonup> bytes) \<Rightarrow> (32 word \<rightharpoonup> ServerResponse) \<Rightarrow> bytes"
  gob_decode :: "bytes \<Rightarrow> ((bytes \<rightharpoonup> bytes) \<times> (32 word \<rightharpoonup> ServerResponse)) option"

record 'l KVServer =
  kv_me :: "32 word"
  kv_rf :: "'l Persister Raftserver"
  kv_dead :: bool
  kv_history :: "32 word \<rightharpoonup> ServerResponse"
  kv_incrMapLogIdx :: "64 word \<rightharpoonup> int"
  kv_maxraftstate :: int
  kv_db :: "bytes \<rightharpoonup> bytes"
  kv_lastApplied :: int
  kv_initialized :: bool
  kv_ip :: bytes
  kv_sendPort :: "32 word"
  kv_syncPort :: "32 word"
  kv_processQue :: "Op list"
  kv_sendQueues :: "ServerResponse list"
  kv_readQue :: "Op list"
  kv_clientConns :: "32 word \<rightharpoonup> nat"
  kv_closed :: bool

definition RaftStateNumThreshold :: int where "RaftStateNumThreshold = 90"

definition send_resp :: "ServerResponse \<Rightarrow> 'l KVServer \<Rightarrow> 'l KVServer option" where
  "send_resp r kv =
     (if kv_closed kv then None else Some (kv\<lparr>kv_sendQueues := kv_sendQueues kv @ [r]\<rparr>))"

section \<open>The state machine\<close>

definition DBExecute :: "Op \<Rightarrow> 'l KVServer \<Rightarrow> ServerResponse \<times> 'l KVServer" where
  "DBExecute op kv =
     (if op_Optype op = GET then
        (case kv_db kv (op_Key op) of
           Some val \<Rightarrow> (OpToResp (op\<lparr>op_Value := val\<rparr>) 200, kv)
         | None \<Rightarrow> (OpToResp (op\<lparr>op_Value := []\<rparr>) (errCode ErrNoKey), kv))
      else if op_Optype op = PUT then
        (OpToResp op 200, kv\<lparr>kv_db := (kv_db kv)(op_Key op \<mapsto> op_Value op)\<rparr>)
      else if op_Optype op = APPEND then
        (case kv_db kv (op_Key op) of
           Some val \<Rightarrow> (OpToResp op 200, kv\<lparr>kv_db := (kv_db kv)(op_Key op \<mapsto> val @ op_Value op)\<rparr>)
         | None \<Rightarrow> (OpToResp op 200, kv\<lparr>kv_db := (kv_db kv)(op_Key op \<mapsto> op_Value op)\<rparr>))
      else (OpToResp op 200, kv))"

definition Snapshot :: "gob \<Rightarrow> 'l KVServer \<Rightarrow> bytes" where
  "Snapshot g kv = gob_encode g (kv_db kv) (kv_history kv)"

definition LoadSnapshot :: "gob \<Rightarrow> bytes \<Rightarrow> 'l KVServer \<Rightarrow> 'l KVServer" where
  "LoadSnapshot g snapshot kv =
     (if length snapshot < 1 then kv
      else (case gob_decode g snapshot of
          None \<Rightarrow> kv
        | Some (db, historyDb) \<Rightarrow> kv\<lparr>kv_db := db, kv_history := historyDb\<rparr>))"

section \<open>Requests\<close>

text \<open>
  \<^verbatim>\<open>handleOpQue\<close>: the section that takes a request and looks for an answer in the history, the
  call of \<^verbatim>\<open>Start\<close>, and the section that records the term of the new entry.
\<close>

definition handleOpQue_start :: "codec \<Rightarrow> Op \<Rightarrow> 'l KVServer \<Rightarrow> (int option \<times> 'l KVServer) option" where
  "handleOpQue_start c op kv = do {
     ((_, sTerm, isLeader), rf) \<leftarrow> Start (Save c) (kv_rf kv) (Some op);
     let kv1 = kv\<lparr>kv_rf := rf\<rparr>;
     if \<not> isLeader then do {
       kv2 \<leftarrow> send_resp (OpToResp op (errCode ErrLeaderChanged)) kv1;
       Some (None, kv2)
     } else Some (Some sTerm, kv1)
   }"

definition handleOpQue_record :: "Op \<Rightarrow> int \<Rightarrow> 'l KVServer \<Rightarrow> 'l KVServer" where
  "handleOpQue_record op sTerm kv =
     kv\<lparr>kv_incrMapLogIdx := (kv_incrMapLogIdx kv)(op_IncrId op \<mapsto> sTerm)\<rparr>"

text \<open>What follows the section on the history.\<close>

definition handleOpQue_new :: "codec \<Rightarrow> Op \<Rightarrow> 'l KVServer \<Rightarrow> 'l KVServer option" where
  "handleOpQue_new c op kv =
     (if op_Optype op = GET
      then (if kv_closed kv then None else Some (kv\<lparr>kv_readQue := kv_readQue kv @ [op]\<rparr>))
      else do {
        (r, kv1) \<leftarrow> handleOpQue_start c op kv;
        (case r of None \<Rightarrow> Some kv1 | Some sTerm \<Rightarrow> Some (handleOpQue_record op sTerm kv1))
      })"

definition handleOpQue :: "codec \<Rightarrow> 'l KVServer \<Rightarrow> 'l KVServer option" where
  "handleOpQue c kv = (case kv_processQue kv of
       [] \<Rightarrow> Some kv
     | op # q \<Rightarrow>
         (let kv1 = kv\<lparr>kv_processQue := q\<rparr> in
          case kv_history kv1 (op_ClerkId op) of
            Some history \<Rightarrow>
              if sr_IncrId history = op_IncrId op then send_resp history kv1
              else handleOpQue_new c op kv1
          | None \<Rightarrow> handleOpQue_new c op kv1))"

text \<open>
  \<^verbatim>\<open>handleReadQue\<close> keeps the request in progress and a count of failed calls from one round to
  the next (\<open>readLoop\<close>). A round asks the Raft layer for the index to wait for unless it is known
  already: \<open>ok\<close> says which peers confirm the heartbeat of a leader, \<open>reply\<close> is the answer of the
  leader to a follower. The first component of \<open>readIndex\<close> says whether the round goes on to the
  section that executes the request.
\<close>

record readLoop =
  rl_readOp :: "Op option"
  rl_count :: int

definition read_fails :: "string \<Rightarrow> Op \<Rightarrow> readLoop \<Rightarrow> 'l KVServer \<Rightarrow> (bool \<times> readLoop \<times> 'l KVServer) option" where
  "read_fails err op rl kv = do {
     kv1 \<leftarrow> send_resp (OpToResp op (errCode err)) kv;
     Some (False, rl\<lparr>rl_readOp := None\<rparr>, kv1)
   }"

definition record_index :: "Op \<Rightarrow> int \<Rightarrow> 'l KVServer \<Rightarrow> 'l KVServer" where
  "record_index op i kv = kv\<lparr>kv_incrMapLogIdx := (kv_incrMapLogIdx kv)(op_IncrId op \<mapsto> i)\<rparr>"

definition SingleHeartBeat :: "(int \<Rightarrow> bool) \<Rightarrow> 'ps Raftserver \<Rightarrow> (bool \<times> 'ps Raftserver) option" where
  "SingleHeartBeat ok rf = do {
     (sent, rf1) \<leftarrow> SingleHeartBeat_send rf;
     (case sent of None \<Rightarrow> Some (False, rf1) | Some _ \<Rightarrow> Some (SingleHeartBeat_confirm rf1 ok, rf1))
   }"

definition readIndex :: "(int \<Rightarrow> bool) \<Rightarrow> GetCommitIndexReply option \<Rightarrow> Op \<Rightarrow> readLoop \<Rightarrow> 'l KVServer \<Rightarrow>
    (bool \<times> readLoop \<times> 'l KVServer) option" where
  "readIndex ok reply op rl kv =
     (let (startCommitIdx, isleader) = GetState (kv_rf kv) in
      if isleader then do {
        (confirmLeader, rf) \<leftarrow> SingleHeartBeat ok (kv_rf kv);
        let kv1 = kv\<lparr>kv_rf := rf\<rparr>;
        if \<not> confirmLeader then read_fails ErrLeaderChanged op rl kv1
        else Some (True, rl, record_index op startCommitIdx kv1)
      } else do {
        SendCommitIndex_target (kv_rf kv);
        let (idx, res, rf) = SendCommitIndex (kv_rf kv) reply;
        let kv1 = kv\<lparr>kv_rf := rf\<rparr>;
        (case res of
           WrongLeader \<Rightarrow> read_fails ErrLeaderChanged op rl kv1
         | CallFailed \<Rightarrow>
             if rl_count rl < 3 then Some (False, rl\<lparr>rl_count := rl_count rl + 1\<rparr>, kv1)
             else read_fails ErrHandleTimeout op (rl\<lparr>rl_count := 0\<rparr>) kv1
         | CommitIs _ \<Rightarrow> Some (True, rl, record_index op idx kv1))
      })"

definition readExecute :: "Op \<Rightarrow> int \<Rightarrow> readLoop \<Rightarrow> 'l KVServer \<Rightarrow> (readLoop \<times> 'l KVServer) option" where
  "readExecute op startIdx rl kv =
     (if startIdx \<le> kv_lastApplied kv then do {
        let (resp, kv1) = DBExecute op kv;
        kv2 \<leftarrow> send_resp resp kv1;
        Some (rl\<lparr>rl_readOp := None\<rparr>,
              kv2\<lparr>kv_incrMapLogIdx := (kv_incrMapLogIdx kv2)(op_IncrId op := None)\<rparr>)
      } else Some (rl, kv))"

definition handleReadQue_op :: "(int \<Rightarrow> bool) \<Rightarrow> GetCommitIndexReply option \<Rightarrow> Op \<Rightarrow> readLoop \<Rightarrow> 'l KVServer \<Rightarrow>
    (readLoop \<times> 'l KVServer) option" where
  "handleReadQue_op ok reply op rl kv = (case kv_incrMapLogIdx kv (op_IncrId op) of
       Some startIdx \<Rightarrow> readExecute op startIdx (rl\<lparr>rl_count := 0\<rparr>) kv
     | None \<Rightarrow> do {
         (go, rl1, kv1) \<leftarrow> readIndex ok reply op rl kv;
         if go
         then readExecute op (case kv_incrMapLogIdx kv1 (op_IncrId op) of None \<Rightarrow> 0 | Some i \<Rightarrow> i)
                (rl1\<lparr>rl_count := 0\<rparr>) kv1
         else Some (rl1, kv1)
       })"

definition handleReadQue :: "(int \<Rightarrow> bool) \<Rightarrow> GetCommitIndexReply option \<Rightarrow> readLoop \<Rightarrow> 'l KVServer \<Rightarrow>
    (readLoop \<times> 'l KVServer) option" where
  "handleReadQue ok reply rl kv = (case rl_readOp rl of
       Some op \<Rightarrow> handleReadQue_op ok reply op rl kv
     | None \<Rightarrow> (case kv_readQue kv of
           [] \<Rightarrow> Some (rl, kv)
         | op # q \<Rightarrow> handleReadQue_op ok reply op (rl\<lparr>rl_readOp := Some op\<rparr>) (kv\<lparr>kv_readQue := q\<rparr>)))"

section \<open>Applying committed entries\<close>

text \<open>
  The section of \<^verbatim>\<open>ApplyHandler\<close> under the mutex, for a message with a command. No response is
  the early \<^verbatim>\<open>continue\<close> for an index that was applied before.
\<close>

definition needs_execution :: "Op \<Rightarrow> 'l KVServer \<Rightarrow> bool" where
  "needs_execution op kv = (case kv_history kv (op_ClerkId op) of
       Some clerkMap \<Rightarrow> sr_IncrId clerkMap \<noteq> op_IncrId op \<and> sr_IncrId clerkMap < op_IncrId op
     | None \<Rightarrow> True)"

definition execute_new :: "int \<Rightarrow> Op \<Rightarrow> 'l KVServer \<Rightarrow> ServerResponse \<times> 'l KVServer" where
  "execute_new msgTerm op kv =
     (let (resp, kv1) = DBExecute op kv in
      case kv_incrMapLogIdx kv1 (sr_IncrId resp) of
        None \<Rightarrow> (resp, kv1)
      | Some startTerm \<Rightarrow>
          (let kv2 = kv1\<lparr>kv_incrMapLogIdx := (kv_incrMapLogIdx kv1)(sr_IncrId resp := None)\<rparr> in
           if startTerm \<noteq> msgTerm then (resp\<lparr>sr_Err := errCode ErrLeaderChanged\<rparr>, kv2)
           else (resp, kv2\<lparr>kv_history := (kv_history kv1)(op_ClerkId op \<mapsto> resp)\<rparr>)))"

definition check_term :: "int \<Rightarrow> ServerResponse \<Rightarrow> 'l KVServer \<Rightarrow> ServerResponse \<times> 'l KVServer" where
  "check_term msgTerm resp kv = (case kv_incrMapLogIdx kv (sr_IncrId resp) of
       None \<Rightarrow> (resp, kv)
     | Some startTerm \<Rightarrow>
         (if startTerm \<noteq> msgTerm \<and> sr_Err resp \<noteq> errCode ErrLeaderChanged
          then resp\<lparr>sr_Err := errCode ErrLeaderChanged\<rparr> else resp,
          kv\<lparr>kv_incrMapLogIdx := (kv_incrMapLogIdx kv)(sr_IncrId resp := None)\<rparr>))"

definition apply_command :: "ApplyMsg \<Rightarrow> 'l KVServer \<Rightarrow> (ServerResponse option \<times> 'l KVServer) option" where
  "apply_command m kv =
     (if am_CommandIndex m \<le> kv_lastApplied kv then Some (None, kv)
      else do {
        let kv1 = kv\<lparr>kv_lastApplied := am_CommandIndex m\<rparr>;
        op \<leftarrow> am_Command m;
        let (resp, kv2) =
          (if needs_execution op kv1 then execute_new (am_SnapshotTerm m) op kv1
           else (case kv_history kv1 (op_ClerkId op) of
               Some clerkMap \<Rightarrow> (if sr_IncrId clerkMap = op_IncrId op then clerkMap else empty_resp, kv1)
             | None \<Rightarrow> (empty_resp, kv1)));
        let (resp2, kv3) = check_term (am_SnapshotTerm m) resp kv2;
        Some (Some resp2, kv3)
      })"

definition take_snapshot :: "gob \<Rightarrow> codec \<Rightarrow> int \<Rightarrow> 'l KVServer \<Rightarrow> 'l KVServer option" where
  "take_snapshot g c idx kv =
     (if kv_maxraftstate kv \<noteq> -1 \<and>
         RaftStateSize (rf_persister (kv_rf kv)) \<ge> go_div (kv_maxraftstate kv * RaftStateNumThreshold) 100
      then do {
        rf \<leftarrow> Raft.Snapshot (Save c) (kv_rf kv) idx (Snapshot g kv);
        Some (kv\<lparr>kv_rf := rf\<rparr>)
      } else Some kv)"

definition apply_snapshot :: "gob \<Rightarrow> ApplyMsg \<Rightarrow> 'l KVServer \<Rightarrow> 'l KVServer" where
  "apply_snapshot g m kv =
     (if am_SnapshotIndex m \<ge> kv_lastApplied kv
      then (LoadSnapshot g (am_Snapshot m) kv)\<lparr>kv_lastApplied := am_SnapshotIndex m\<rparr> else kv)"

definition ApplyHandler :: "gob \<Rightarrow> codec \<Rightarrow> ApplyMsg \<Rightarrow> 'l KVServer \<Rightarrow> 'l KVServer option" where
  "ApplyHandler g c m kv =
     (if am_CommandValid m then do {
        (r, kv1) \<leftarrow> apply_command m kv;
        (case r of
           None \<Rightarrow> Some kv1
         | Some resp \<Rightarrow> do {
             kv2 \<leftarrow> send_resp resp kv1;
             take_snapshot g c (am_CommandIndex m) kv2
           })
      } else if am_SnapshotValid m then Some (apply_snapshot g m kv)
      else Some kv)"

fun ApplyAll :: "gob \<Rightarrow> codec \<Rightarrow> ApplyMsg list \<Rightarrow> 'l KVServer \<Rightarrow> 'l KVServer option" where
  "ApplyAll g c [] kv = Some kv"
| "ApplyAll g c (m # ms) kv = do { kv1 \<leftarrow> ApplyHandler g c m kv; ApplyAll g c ms kv1 }"

section \<open>Connections\<close>

text \<open>
  \<^verbatim>\<open>handleClientConnection\<close>: one request from the bytes \<open>stream\<close> of the connection \<open>conn\<close>. The result
  is what is left of the stream, or an error that closes the connection.
\<close>

definition handleClientConnection :: "32 word \<Rightarrow> nat \<Rightarrow> bytes \<Rightarrow> 'l KVServer \<Rightarrow>
    ((io_err + bytes) \<times> 'l KVServer) option" where
  "handleClientConnection maxPkg conn stream kv =
     (case readClientMessage maxPkg stream of
        Inl e \<Rightarrow> Some (Inl e, kv)
      | Inr (m, rest) \<Rightarrow> do {
          r \<leftarrow> ClientMsgToOp (IClient m);
          (case r of
             Inl e \<Rightarrow> Some (Inl e, kv)
           | Inr op \<Rightarrow>
               if kv_closed kv then None
               else Some (Inr rest,
                 kv\<lparr>kv_processQue := kv_processQue kv @ [op],
                    kv_clientConns := (if kv_clientConns kv (op_ClerkId op) = None
                                       then (kv_clientConns kv)(op_ClerkId op \<mapsto> conn)
                                       else kv_clientConns kv)\<rparr>))
        })"

text \<open>
  \<^verbatim>\<open>handleClientResponse\<close>: the bytes written and the connection they go to. \<open>writeOk\<close> says which
  connections still take data; the first component is false once the goroutine has returned.
\<close>

definition handleClientResponse :: "(nat \<Rightarrow> bool) \<Rightarrow> 'l KVServer \<Rightarrow>
    bool \<times> (nat \<times> bytes) option \<times> 'l KVServer" where
  "handleClientResponse writeOk kv = (case kv_sendQueues kv of
       [] \<Rightarrow> (True, None, kv)
     | resp # q \<Rightarrow>
         (let kv1 = kv\<lparr>kv_sendQueues := q\<rparr> in
          case RespToBinary resp of
            Inl e \<Rightarrow> (True, None, kv1)
          | Inr bitData \<Rightarrow> (case kv_clientConns kv1 (sr_ClerkId resp) of
                None \<Rightarrow> (True, None, kv1)
              | Some conn \<Rightarrow>
                  if writeOk conn then (True, Some (conn, bitData), kv1) else (False, None, kv1))))"

text \<open>
  \<^verbatim>\<open>sendStatus\<close>: the status message, and the end of the call, given the error of the write or of
  setting the deadline, and the error of the connection or the bytes that answer it.
\<close>

datatype conn_err = ReadErr io_err | ConnClosed | ConnOther

definition statusMsg :: "'l KVServer \<Rightarrow> bytes" where
  "statusMsg kv =
     (let (commitIndex, isLeader) = GetState (kv_rf kv);
          message = \<lparr>sm_CommitIndex = of_int commitIndex, sm_IsLeader = isLeader, sm_IpLen = 0,
                     sm_ServerId = kv_me kv, sm_Port = 0, sm_Ip = []\<rparr>
      in if \<not> kv_initialized kv
         then SyncMsgPack_PackAddr (message\<lparr>sm_IpLen := of_nat (length (kv_ip kv)),
                                            sm_Port := kv_sendPort kv, sm_Ip := kv_ip kv\<rparr>)
         else SyncMsgPack_Pack message)"

definition sendStatus :: "conn_err option \<Rightarrow> conn_err + bytes \<Rightarrow> 'l KVServer \<Rightarrow>
    (conn_err + string) \<times> 'l KVServer" where
  "sendStatus writeErr answer kv = (case writeErr of
       Some e \<Rightarrow> (Inl e, kv)
     | None \<Rightarrow>
         if kv_initialized kv then (Inr [], kv)
         else (case answer of
             Inl e \<Rightarrow> (Inl e, kv)
           | Inr stream \<Rightarrow> (case readFull 4 stream of
                 Inl e \<Rightarrow> (Inl (ReadErr e), kv)
               | Inr (buffer, _) \<Rightarrow> (case read_u32 buffer of
                     Inl e \<Rightarrow> (Inl (ReadErr e), kv)
                   | Inr (code, _) \<Rightarrow> (Inr (errName code), kv\<lparr>kv_initialized := True\<rparr>)))))"

text \<open>One round of \<^verbatim>\<open>sendStatusSchedule\<close>; \<open>dialOk\<close> says whether the connection can be opened again.\<close>

definition sendStatusSchedule :: "bool \<Rightarrow> conn_err option \<Rightarrow> conn_err + bytes \<Rightarrow> 'l KVServer \<Rightarrow>
    'l KVServer option" where
  "sendStatusSchedule dialOk writeErr answer kv =
     (let (r, kv1) = sendStatus writeErr answer kv in
      case r of
        Inl e \<Rightarrow>
          if e \<in> {ReadErr EOF, ReadErr ErrUnexpectedEOF, ConnClosed}
          then (if dialOk then Some (kv1\<lparr>kv_initialized := False\<rparr>) else None)
          else Some kv1
      | Inr _ \<Rightarrow> Some kv1)"

section \<open>Start and stop\<close>

fun Split :: "byte \<Rightarrow> bytes \<Rightarrow> bytes list" where
  "Split s [] = [[]]"
| "Split s (b # bs) =
     (if b = s then [] # Split s bs
      else (case Split s bs of [] \<Rightarrow> [[b]] | x # xs \<Rightarrow> (b # x) # xs))"

definition Atoi :: "bytes \<Rightarrow> int option" where
  "Atoi bs =
     (let neg = (bs \<noteq> [] \<and> hd bs = 45);
          ds = (if bs \<noteq> [] \<and> (hd bs = 43 \<or> hd bs = 45) then tl bs else bs);
          v = foldl (\<lambda>n b. 10 * n + (int (unat b) - 48)) 0 ds;
          r = (if neg then - v else v)
      in if ds = [] \<or> \<not> (\<forall>b \<in> set ds. 48 \<le> b \<and> b \<le> 57) \<or> r < - (2 ^ 63) \<or> 2 ^ 63 \<le> r
         then None else Some r)"

definition portOf :: "bytes \<Rightarrow> (bytes \<times> 32 word) option" where
  "portOf addr = do {
     let ip_port = Split 58 addr;
     ip \<leftarrow> at ip_port 0;
     p \<leftarrow> at ip_port 1;
     port \<leftarrow> Atoi p;
     Some (ip, of_int port)
   }"

definition StartKVServer :: "gob \<Rightarrow> int list \<Rightarrow> 32 word \<Rightarrow> 'l Persister \<Rightarrow> bytes \<Rightarrow> bytes \<Rightarrow> int \<Rightarrow> int \<Rightarrow>
    'l KVServer option" where
  "StartKVServer g peerIds me ps server sync maxraftstate now = do {
     (ip, port) \<leftarrow> portOf server;
     (_, sync_port) \<leftarrow> portOf sync;
     let (snap, lastIndex, _) = ReadSnapshot ps;
     Some (LoadSnapshot g snap
       \<lparr>kv_me = me, kv_rf = Make peerIds (sint me) ps now, kv_dead = False, kv_history = Map.empty,
        kv_incrMapLogIdx = Map.empty, kv_maxraftstate = maxraftstate, kv_db = Map.empty,
        kv_lastApplied = lastIndex, kv_initialized = False, kv_ip = ip, kv_sendPort = port,
        kv_syncPort = sync_port, kv_processQue = [], kv_sendQueues = [], kv_readQue = [],
        kv_clientConns = Map.empty, kv_closed = False\<rparr>)
   }"

definition Kill :: "'l KVServer \<Rightarrow> 'l KVServer" where
  "Kill kv = kv\<lparr>kv_dead := True, kv_rf := Raft.Kill (kv_rf kv)\<rparr>"

text \<open>\<^verbatim>\<open>Stop\<close>: closing a channel twice panics. The connections it closes are the first component.\<close>

definition Stop :: "'l KVServer \<Rightarrow> (nat set \<times> 'l KVServer) option" where
  "Stop kv =
     (if kv_closed kv then None
      else Some (ran (kv_clientConns kv),
                 (Kill (kv\<lparr>kv_rf := Raft.Kill (kv_rf kv)\<rparr>))\<lparr>kv_closed := True\<rparr>))"

end
