(* ===== verification/KvApply.thy ===== *)
theory KvApply
  imports KvServer PersisterState
begin

text \<open>
  The server as a replicated state machine. The specification is a map from keys to values
  and the operation \<open>db_step\<close> on it. \<open>apply_refines_map\<close>: as long as the ids of the requests
  of each client increase along the log, the database of a server is the fold of \<open>db_step\<close>
  over the log, whatever the server has recorded about its own requests, so that the replicas
  agree. \<open>duplicate_diverges\<close>: with a request twice in the log they do not.
\<close>

section \<open>Specification\<close>

definition db_step :: "Op \<Rightarrow> (bytes \<rightharpoonup> bytes) \<Rightarrow> bytes \<rightharpoonup> bytes" where
  "db_step op db =
     (if op_Optype op = PUT then db(op_Key op \<mapsto> op_Value op)
      else if op_Optype op = APPEND
      then db(op_Key op \<mapsto> (case db (op_Key op) of None \<Rightarrow> [] | Some v \<Rightarrow> v) @ op_Value op)
      else db)"

text \<open>The commands in a sequence of messages that lie above the index applied last, and that index.\<close>

fun commands :: "int \<Rightarrow> ApplyMsg list \<Rightarrow> Op list" where
  "commands i [] = []"
| "commands i (m # ms) =
     (if am_CommandValid m \<and> i < am_CommandIndex m
      then (case am_Command m of None \<Rightarrow> [] | Some op \<Rightarrow> [op]) @ commands (am_CommandIndex m) ms
      else commands i ms)"

fun last_index :: "int \<Rightarrow> ApplyMsg list \<Rightarrow> int" where
  "last_index i [] = i"
| "last_index i (m # ms) =
     last_index (if am_CommandValid m \<and> i < am_CommandIndex m then am_CommandIndex m else i) ms"

text \<open>The ids of each client increase; \<open>f\<close> holds the id seen last.\<close>

fun ids_increase :: "(32 word \<rightharpoonup> 64 word) \<Rightarrow> Op list \<Rightarrow> bool" where
  "ids_increase f [] = True"
| "ids_increase f (op # ops) =
     ((case f (op_ClerkId op) of None \<Rightarrow> True | Some i \<Rightarrow> i < op_IncrId op) \<and>
      ids_increase (f(op_ClerkId op \<mapsto> op_IncrId op)) ops)"

definition seen :: "'l KVServer \<Rightarrow> 32 word \<rightharpoonup> 64 word" where
  "seen kv = (\<lambda>cl. map_option sr_IncrId (kv_history kv cl))"

definition log_message :: "ApplyMsg \<Rightarrow> bool" where
  "log_message m \<longleftrightarrow> \<not> am_SnapshotValid m \<and> (am_CommandValid m \<longrightarrow> am_Command m \<noteq> None)"

section \<open>The sections of the handler\<close>

named_theorems kv_simps \<open>the effect of the server's sections on the fields of its state\<close>

lemma OpToResp_fields [simp]:
  "sr_IncrId (OpToResp op e) = op_IncrId op" "sr_ClerkId (OpToResp op e) = op_ClerkId op"
  "sr_Err (OpToResp op e) = e" "sr_OpId (OpToResp op e) = op_Optype op"
  by (simp_all add: OpToResp_def Let_def)

lemma optypes [simp]: "PUT \<noteq> GET" "GET \<noteq> PUT" "APPEND \<noteq> GET" "GET \<noteq> APPEND" "PUT \<noteq> APPEND" "APPEND \<noteq> PUT"
  by (simp_all add: GET_def PUT_def APPEND_def)

lemma DBExecute_state: "snd (DBExecute op kv) = kv\<lparr>kv_db := db_step op (kv_db kv)\<rparr>"
  by (auto simp: DBExecute_def db_step_def split: option.splits)

lemma DBExecute_resp [simp]:
  "sr_IncrId (fst (DBExecute op kv)) = op_IncrId op" "sr_ClerkId (fst (DBExecute op kv)) = op_ClerkId op"
  by (auto simp: DBExecute_def split: option.splits)

lemma execute_new_state [kv_simps]:
  "kv_db (snd (execute_new t op kv)) = db_step op (kv_db kv)"
  "kv_lastApplied (snd (execute_new t op kv)) = kv_lastApplied kv"
  "kv_maxraftstate (snd (execute_new t op kv)) = kv_maxraftstate kv"
  "kv_closed (snd (execute_new t op kv)) = kv_closed kv"
  "kv_history (snd (execute_new t op kv)) =
     (if kv_incrMapLogIdx kv (op_IncrId op) = Some t
      then (kv_history kv)(op_ClerkId op \<mapsto> fst (DBExecute op kv)) else kv_history kv)"
proof -
  obtain r where r: "DBExecute op kv = (r, kv\<lparr>kv_db := db_step op (kv_db kv)\<rparr>)"
    by (metis DBExecute_state prod.collapse)
  with DBExecute_resp(1) [of op kv] have "sr_IncrId r = op_IncrId op" by simp
  with r show "kv_db (snd (execute_new t op kv)) = db_step op (kv_db kv)"
    "kv_lastApplied (snd (execute_new t op kv)) = kv_lastApplied kv"
    "kv_maxraftstate (snd (execute_new t op kv)) = kv_maxraftstate kv"
    "kv_closed (snd (execute_new t op kv)) = kv_closed kv"
    "kv_history (snd (execute_new t op kv)) =
       (if kv_incrMapLogIdx kv (op_IncrId op) = Some t
        then (kv_history kv)(op_ClerkId op \<mapsto> fst (DBExecute op kv)) else kv_history kv)"
    by (auto simp: execute_new_def Let_def split: option.splits)
qed

lemma check_term_state [kv_simps]:
  "kv_db (snd (check_term t r kv)) = kv_db kv"
  "kv_lastApplied (snd (check_term t r kv)) = kv_lastApplied kv"
  "kv_maxraftstate (snd (check_term t r kv)) = kv_maxraftstate kv"
  "kv_closed (snd (check_term t r kv)) = kv_closed kv"
  "kv_history (snd (check_term t r kv)) = kv_history kv"
  by (auto simp: check_term_def split: option.splits)

lemma apply_command_old [kv_simps]:
  "am_CommandIndex m \<le> kv_lastApplied kv \<Longrightarrow> apply_command m kv = Some (None, kv)"
  by (simp add: apply_command_def)

text \<open>A command above the applied index, when it is executed and when the history answers it.\<close>

lemma apply_command_new:
  assumes "kv_lastApplied kv < am_CommandIndex m" and "am_Command m = Some op"
    and "needs_execution op kv"
  obtains r kv' where "apply_command m kv = Some (Some r, kv')"
    and "kv_db kv' = db_step op (kv_db kv)" and "kv_lastApplied kv' = am_CommandIndex m"
    and "kv_maxraftstate kv' = kv_maxraftstate kv" and "kv_closed kv' = kv_closed kv"
    and "kv_history kv' =
      (if kv_incrMapLogIdx kv (op_IncrId op) = Some (am_SnapshotTerm m)
       then (kv_history kv)(op_ClerkId op \<mapsto> fst (DBExecute op kv)) else kv_history kv)"
proof -
  let ?k1 = "kv\<lparr>kv_lastApplied := am_CommandIndex m\<rparr>"
  let ?e = "execute_new (am_SnapshotTerm m) op ?k1"
  have need: "needs_execution op ?k1"
    using assms(3) by (simp add: needs_execution_def)
  have resp: "fst (DBExecute op ?k1) = fst (DBExecute op kv)"
    by (auto simp: DBExecute_def split: option.splits)
  have "apply_command m kv = Some (Some (fst (check_term (am_SnapshotTerm m) (fst ?e) (snd ?e))),
          snd (check_term (am_SnapshotTerm m) (fst ?e) (snd ?e)))"
    using assms(1,2) need by (simp add: apply_command_def Let_def split: prod.split)
  then show thesis
    by (rule that) (simp_all add: kv_simps resp)
qed

lemma apply_command_answered:
  assumes "kv_lastApplied kv < am_CommandIndex m" and "am_Command m = Some op"
    and "\<not> needs_execution op kv"
  obtains r kv' where "apply_command m kv = Some (Some r, kv')"
    and "kv_db kv' = kv_db kv" and "kv_lastApplied kv' = am_CommandIndex m"
    and "kv_maxraftstate kv' = kv_maxraftstate kv" and "kv_closed kv' = kv_closed kv"
    and "kv_history kv' = kv_history kv"
proof -
  let ?k1 = "kv\<lparr>kv_lastApplied := am_CommandIndex m\<rparr>"
  have need: "\<not> needs_execution op ?k1"
    using assms(3) by (simp add: needs_execution_def)
  obtain h where h: "kv_history kv (op_ClerkId op) = Some h"
    using assms(3) by (auto simp: needs_execution_def split: option.splits)
  let ?r = "if sr_IncrId h = op_IncrId op then h else empty_resp"
  have "apply_command m kv = Some (Some (fst (check_term (am_SnapshotTerm m) ?r ?k1)),
          snd (check_term (am_SnapshotTerm m) ?r ?k1))"
    using assms(1,2) need h by (simp add: apply_command_def Let_def split: prod.split)
  then show thesis
    by (rule that) (simp_all add: kv_simps)
qed

lemma take_snapshot_state [kv_simps]:
  assumes "take_snapshot g c i kv = Some kv'"
  shows "kv_db kv' = kv_db kv" "kv_history kv' = kv_history kv" "kv_lastApplied kv' = kv_lastApplied kv"
    "kv_incrMapLogIdx kv' = kv_incrMapLogIdx kv" "kv_maxraftstate kv' = kv_maxraftstate kv"
    "kv_closed kv' = kv_closed kv" "kv_sendQueues kv' = kv_sendQueues kv"
  using assms by (auto simp: take_snapshot_def bind_eq_Some_conv split: if_splits)

lemma take_snapshot_off [simp]: "kv_maxraftstate kv = -1 \<Longrightarrow> take_snapshot g c i kv = Some kv"
  by (simp add: take_snapshot_def)

lemma send_resp_Some [simp]:
  "send_resp r kv = Some kv' \<longleftrightarrow> \<not> kv_closed kv \<and> kv' = kv\<lparr>kv_sendQueues := kv_sendQueues kv @ [r]\<rparr>"
  by (auto simp: send_resp_def)

section \<open>Refinement of the map\<close>

text \<open>The history never runs ahead of the ids seen in the log.\<close>

definition behind :: "'l KVServer \<Rightarrow> (32 word \<rightharpoonup> 64 word) \<Rightarrow> bool" where
  "behind kv f \<longleftrightarrow>
     (\<forall>cl r. kv_history kv cl = Some r \<longrightarrow> (\<exists>i. f cl = Some i \<and> sr_IncrId r \<le> i))"

lemma behind_seen: "behind kv (seen kv)"
  by (simp add: behind_def seen_def)

lemma behind_needs:
  assumes "behind kv f" and "case f (op_ClerkId op) of None \<Rightarrow> True | Some i \<Rightarrow> i < op_IncrId op"
  shows "needs_execution op kv"
proof (cases "kv_history kv (op_ClerkId op)")
  case None
  then show ?thesis by (simp add: needs_execution_def)
next
  case (Some r)
  then obtain i where "f (op_ClerkId op) = Some i" and "sr_IncrId r \<le> i"
    using assms(1) by (auto simp: behind_def)
  with assms(2) have "sr_IncrId r < op_IncrId op" by simp
  with Some show ?thesis by (simp add: needs_execution_def)
qed

lemma behind_step:
  assumes "behind kv f" and "case f (op_ClerkId op) of None \<Rightarrow> True | Some i \<Rightarrow> i < op_IncrId op"
    and "kv_history kv' = kv_history kv \<or>
      kv_history kv' = (kv_history kv)(op_ClerkId op \<mapsto> r)" and "sr_IncrId r = op_IncrId op"
  shows "behind kv' (f(op_ClerkId op \<mapsto> op_IncrId op))"
  unfolding behind_def
proof (intro allI impI)
  fix cl x assume x: "kv_history kv' cl = Some x"
  show "\<exists>i. (f(op_ClerkId op \<mapsto> op_IncrId op)) cl = Some i \<and> sr_IncrId x \<le> i"
  proof (cases "cl = op_ClerkId op")
    case True
    have "sr_IncrId x \<le> op_IncrId op"
    proof (cases "x = r")
      case False
      with x True assms(3) have "kv_history kv (op_ClerkId op) = Some x" by auto
      then obtain i where "f (op_ClerkId op) = Some i" "sr_IncrId x \<le> i"
        using assms(1) by (auto simp: behind_def)
      with assms(2) show ?thesis by simp
    qed (simp add: assms(4))
    with True show ?thesis by simp
  next
    case False
    with x assms(3) have "kv_history kv cl = Some x" by auto
    with False assms(1) show ?thesis by (auto simp: behind_def)
  qed
qed

text \<open>One message.\<close>

lemma ApplyHandler_command:
  assumes "am_CommandValid m" and "kv_lastApplied kv < am_CommandIndex m" and "am_Command m = Some op"
    and "behind kv f" and "case f (op_ClerkId op) of None \<Rightarrow> True | Some i \<Rightarrow> i < op_IncrId op"
  shows "ApplyHandler g c m kv = Some kv' \<Longrightarrow>
      kv_db kv' = db_step op (kv_db kv) \<and> kv_lastApplied kv' = am_CommandIndex m \<and>
      behind kv' (f(op_ClerkId op \<mapsto> op_IncrId op)) \<and> kv_maxraftstate kv' = kv_maxraftstate kv \<and>
      kv_closed kv' = kv_closed kv"
    and "kv_maxraftstate kv = -1 \<Longrightarrow> \<not> kv_closed kv \<Longrightarrow> \<exists>kv'. ApplyHandler g c m kv = Some kv'"
proof -
  obtain r k1 where run: "apply_command m kv = Some (Some r, k1)"
    and k1: "kv_db k1 = db_step op (kv_db kv)" "kv_lastApplied k1 = am_CommandIndex m"
      "kv_maxraftstate k1 = kv_maxraftstate kv" "kv_closed k1 = kv_closed kv"
    and h: "kv_history k1 =
      (if kv_incrMapLogIdx kv (op_IncrId op) = Some (am_SnapshotTerm m)
       then (kv_history kv)(op_ClerkId op \<mapsto> fst (DBExecute op kv)) else kv_history kv)"
    by (rule apply_command_new [OF assms(2,3) behind_needs [OF assms(4,5)]])
  have b: "behind kv' (f(op_ClerkId op \<mapsto> op_IncrId op))" if "kv_history kv' = kv_history k1" for kv' :: "'a KVServer"
    by (rule behind_step [OF assms(4,5), of _ "fst (DBExecute op kv)"]) (auto simp: that h)
  show "kv_db kv' = db_step op (kv_db kv) \<and> kv_lastApplied kv' = am_CommandIndex m \<and>
      behind kv' (f(op_ClerkId op \<mapsto> op_IncrId op)) \<and> kv_maxraftstate kv' = kv_maxraftstate kv \<and>
      kv_closed kv' = kv_closed kv"
    if "ApplyHandler g c m kv = Some kv'"
    using that assms(1) run k1
    by (auto simp: ApplyHandler_def bind_eq_Some_conv kv_simps intro!: b)
  show "\<exists>kv'. ApplyHandler g c m kv = Some kv'" if "kv_maxraftstate kv = -1" and "\<not> kv_closed kv"
    using that assms(1) run k1 by (simp add: ApplyHandler_def send_resp_def)
qed

lemma ApplyHandler_skip:
  assumes "log_message m" and "\<not> (am_CommandValid m \<and> kv_lastApplied kv < am_CommandIndex m)"
  shows "ApplyHandler g c m kv = Some kv"
  using assms by (auto simp: ApplyHandler_def log_message_def kv_simps)

lemma ApplyAll_refines:
  assumes "\<forall>m \<in> set ms. log_message m" and "behind kv f"
    and "ids_increase f (commands (kv_lastApplied kv) ms)" and "ApplyAll g c ms kv = Some kv'"
  shows "kv_db kv' = fold db_step (commands (kv_lastApplied kv) ms) (kv_db kv) \<and>
      kv_lastApplied kv' = last_index (kv_lastApplied kv) ms"
  using assms
proof (induction ms arbitrary: kv f)
  case (Cons m ms)
  show ?case
  proof (cases "am_CommandValid m \<and> kv_lastApplied kv < am_CommandIndex m")
    case True
    then obtain op where op: "am_Command m = Some op"
      using Cons.prems(1) by (auto simp: log_message_def)
    obtain k where k: "ApplyHandler g c m kv = Some k" and rest: "ApplyAll g c ms k = Some kv'"
      using Cons.prems(4) by (auto simp: bind_eq_Some_conv)
    have new: "case f (op_ClerkId op) of None \<Rightarrow> True | Some i \<Rightarrow> i < op_IncrId op"
      and ids: "ids_increase (f(op_ClerkId op \<mapsto> op_IncrId op)) (commands (am_CommandIndex m) ms)"
      using Cons.prems(3) True op by auto
    note step = ApplyHandler_command(1) [OF _ _ op Cons.prems(2) new k]
    show ?thesis
      using Cons.IH [of k "f(op_ClerkId op \<mapsto> op_IncrId op)"] Cons.prems(1) True op rest ids step
      by (simp del: fun_upd_apply)
  next
    case False
    have "ApplyHandler g c m kv = Some kv"
      by (rule ApplyHandler_skip [OF _ False]) (use Cons.prems(1) in simp)
    moreover have "commands (kv_lastApplied kv) (m # ms) = commands (kv_lastApplied kv) ms"
      and "last_index (kv_lastApplied kv) (m # ms) = last_index (kv_lastApplied kv) ms"
      using False by auto
    ultimately show ?thesis
      using Cons.IH [of kv f] Cons.prems by simp
  qed
qed simp

lemma ApplyAll_returns:
  assumes "\<forall>m \<in> set ms. log_message m" and "kv_maxraftstate kv = -1" and "\<not> kv_closed kv"
  shows "\<exists>kv'. ApplyAll g c ms kv = Some kv'"
  using assms
proof (induction ms arbitrary: kv)
  case (Cons m ms)
  have "\<exists>k. ApplyHandler g c m kv = Some k \<and> kv_maxraftstate k = -1 \<and> \<not> kv_closed k"
  proof (cases "am_CommandValid m \<and> kv_lastApplied kv < am_CommandIndex m")
    case True
    then obtain op where op: "am_Command m = Some op"
      using Cons.prems(1) by (auto simp: log_message_def)
    obtain r k1 where "apply_command m kv = Some (Some r, k1)"
      and "kv_maxraftstate k1 = kv_maxraftstate kv" "kv_closed k1 = kv_closed kv"
      by (cases "needs_execution op kv")
         (use True apply_command_new [OF _ op] apply_command_answered [OF _ op] in metis)+
    with True Cons.prems show ?thesis by (simp add: ApplyHandler_def send_resp_def)
  next
    case False
    with Cons.prems ApplyHandler_skip [of m kv g c] show ?thesis by simp
  qed
  with Cons.IH Cons.prems(1) show ?case by (metis ApplyAll.simps(2) bind.bind_lunit list.set_intros(2))
qed simp

section \<open>Properties\<close>

text \<open>
  C3: the server refines a map. Given messages from the log whose commands are not nil, in which
  the request ids of each client increase, the database after them is the specification's fold
  over the commands above the index applied last, each executed once, and that index moves to
  the last of them. The result does not depend on what the server has recorded about its own
  requests, so that the leader and the followers agree. Without snapshots and before \<^verbatim>\<open>Stop\<close>
  the handler gets through all of them.
\<close>

theorem apply_refines_map:
  assumes "\<forall>m \<in> set ms. log_message m"
    and "ids_increase (seen kv) (commands (kv_lastApplied kv) ms)"
  shows "(ApplyAll g c ms kv = Some kv' \<longrightarrow>
            kv_db kv' = fold db_step (commands (kv_lastApplied kv) ms) (kv_db kv) \<and>
            kv_lastApplied kv' = last_index (kv_lastApplied kv) ms) \<and>
         (kv_maxraftstate kv = -1 \<and> \<not> kv_closed kv \<longrightarrow> (\<exists>k. ApplyAll g c ms kv = Some k))"
  using ApplyAll_refines [OF assms(1) behind_seen assms(2)] ApplyAll_returns [OF assms(1)] by blast

definition sample_kv :: "nat option KVServer" where
  "sample_kv = \<lparr>kv_me = 0, kv_rf = Make [0, 1, 2] 0 sample_ps 0, kv_dead = False,
     kv_history = Map.empty, kv_incrMapLogIdx = Map.empty, kv_maxraftstate = -1, kv_db = Map.empty,
     kv_lastApplied = 0, kv_initialized = False, kv_ip = [], kv_sendPort = 0, kv_syncPort = 0,
     kv_processQue = [], kv_sendQueues = [], kv_readQue = [], kv_clientConns = Map.empty,
     kv_closed = False\<rparr>"

definition request :: "32 word \<Rightarrow> 64 word \<Rightarrow> bytes \<Rightarrow> Op" where
  "request ty i v = \<lparr>op_Optype = ty, op_IncrId = i, op_ClerkId = 7, op_Key = [107], op_Value = v\<rparr>"

text \<open>The message for a committed entry, as \<^const>\<open>applyMsgAt\<close> builds it.\<close>

definition command_msg :: "int \<Rightarrow> int \<Rightarrow> Op \<Rightarrow> ApplyMsg" where
  "command_msg i t op = \<lparr>am_CommandValid = True, am_Command = Some op, am_CommandIndex = i,
     am_SnapshotValid = False, am_Snapshot = [], am_SnapshotTerm = t, am_SnapshotIndex = 0\<rparr>"

lemma command_msg_fields [simp]:
  "am_CommandValid (command_msg i t op)" "am_Command (command_msg i t op) = Some op"
  "am_CommandIndex (command_msg i t op) = i" "am_SnapshotTerm (command_msg i t op) = t"
  "log_message (command_msg i t op)"
  by (simp_all add: command_msg_def log_message_def)

text \<open>No snapshot is taken with this limit, so that any encoding of snapshots will do.\<close>

definition no_gob :: gob where
  "no_gob = \<lparr>gob_encode = (\<lambda>_ _. []), gob_decode = (\<lambda>_. None)\<rparr>"

theorem apply_refines_map_witness:
  "\<exists>kv'. ApplyAll no_gob sample_codec [command_msg 1 1 (request PUT 1 [1]), command_msg 1 1 (request PUT 1 [1]),
            command_msg 2 1 (request APPEND 2 [2])] sample_kv = Some kv' \<and>
     kv_db kv' = [[107] \<mapsto> [1, 2]] \<and> kv_lastApplied kv' = 2"
proof -
  let ?ms = "[command_msg 1 1 (request PUT 1 [1]), command_msg 1 1 (request PUT 1 [1]),
              command_msg 2 1 (request APPEND 2 [2])]"
  have "\<forall>m \<in> set ?ms. log_message m" by simp
  moreover have "ids_increase (seen sample_kv) (commands (kv_lastApplied sample_kv) ?ms)"
    by (simp add: seen_def sample_kv_def request_def)
  ultimately show ?thesis
    using apply_refines_map [of ?ms sample_kv no_gob sample_codec]
    by (auto simp: sample_kv_def request_def db_step_def)
qed

lemma handler_new:
  assumes "kv_lastApplied kv < i" and "needs_execution op kv" and "kv_maxraftstate kv = -1" and "\<not> kv_closed kv"
  obtains kv' where "ApplyHandler g c (command_msg i t op) kv = Some kv'"
    and "kv_db kv' = db_step op (kv_db kv)" and "kv_lastApplied kv' = i"
    and "kv_maxraftstate kv' = -1" and "\<not> kv_closed kv'"
    and "kv_history kv' = (if kv_incrMapLogIdx kv (op_IncrId op) = Some t
       then (kv_history kv)(op_ClerkId op \<mapsto> fst (DBExecute op kv)) else kv_history kv)"
proof -
  obtain r k where k: "apply_command (command_msg i t op) kv = Some (Some r, k)"
    "kv_db k = db_step op (kv_db kv)" "kv_lastApplied k = i" "kv_maxraftstate k = -1" "\<not> kv_closed k"
    "kv_history k = (if kv_incrMapLogIdx kv (op_IncrId op) = Some t
       then (kv_history kv)(op_ClerkId op \<mapsto> fst (DBExecute op kv)) else kv_history kv)"
    by (rule apply_command_new [of kv "command_msg i t op" op]) (use assms in auto)
  show thesis
    by (rule that [of "k\<lparr>kv_sendQueues := kv_sendQueues k @ [r]\<rparr>"])
       (simp_all add: k ApplyHandler_def send_resp_def)
qed

lemma handler_answered:
  assumes "kv_lastApplied kv < i" and "\<not> needs_execution op kv" and "kv_maxraftstate kv = -1" and "\<not> kv_closed kv"
  obtains kv' where "ApplyHandler g c (command_msg i t op) kv = Some kv'" and "kv_db kv' = kv_db kv"
proof -
  obtain r k where k: "apply_command (command_msg i t op) kv = Some (Some r, k)"
    "kv_db k = kv_db kv" "kv_maxraftstate k = -1" "\<not> kv_closed k"
    by (rule apply_command_answered [of kv "command_msg i t op" op]) (use assms in auto)
  show thesis
    by (rule that [of "k\<lparr>kv_sendQueues := kv_sendQueues k @ [r]\<rparr>"])
       (simp_all add: k ApplyHandler_def send_resp_def)
qed

text \<open>
  C39: two replicas with the same database and history go apart when the log holds an append
  twice, which happens when a client sends it again before the first copy is applied. The leader
  that has recorded the term of the first copy keeps the response and answers the second copy
  from it; a follower has no such record, keeps nothing and executes the append twice.
\<close>

theorem duplicate_diverges:
  assumes "op_Optype op = APPEND" and "op_Value op \<noteq> []"
    and "kv_db F = kv_db L" and "kv_history F = kv_history L"
    and "needs_execution op L"
    and "kv_incrMapLogIdx L (op_IncrId op) = Some t" and "kv_incrMapLogIdx F (op_IncrId op) = None"
    and "kv_lastApplied L < i" and "kv_lastApplied F < i" and "i < j"
    and "kv_maxraftstate L = -1" and "kv_maxraftstate F = -1" and "\<not> kv_closed L" and "\<not> kv_closed F"
  shows "\<exists>L' F' old. ApplyAll g c [command_msg i t op, command_msg j t' op] L = Some L' \<and>
           ApplyAll g c [command_msg i t op, command_msg j t' op] F = Some F' \<and>
           kv_db L' (op_Key op) = Some (old @ op_Value op) \<and>
           kv_db F' (op_Key op) = Some (old @ op_Value op @ op_Value op) \<and> kv_db L' \<noteq> kv_db F'"
proof -
  let ?old = "case kv_db L (op_Key op) of None \<Rightarrow> [] | Some v \<Rightarrow> v"
  have needF: "needs_execution op F"
    using assms(4,5) by (simp add: needs_execution_def)
  obtain L1 where L1: "ApplyHandler g c (command_msg i t op) L = Some L1"
    "kv_db L1 = db_step op (kv_db L)" "kv_lastApplied L1 = i" "kv_maxraftstate L1 = -1" "\<not> kv_closed L1"
    "kv_history L1 = (kv_history L)(op_ClerkId op \<mapsto> fst (DBExecute op L))"
    by (rule handler_new [of L i op g c t]) (use assms in auto)
  have "\<not> needs_execution op L1"
    by (simp add: needs_execution_def L1)
  then obtain L2 where L2: "ApplyHandler g c (command_msg j t' op) L1 = Some L2" "kv_db L2 = kv_db L1"
    using handler_answered [of L1 j op g c t'] L1 assms(10) by blast
  obtain F1 where F1: "ApplyHandler g c (command_msg i t op) F = Some F1"
    "kv_db F1 = db_step op (kv_db F)" "kv_lastApplied F1 = i" "kv_maxraftstate F1 = -1" "\<not> kv_closed F1"
    "kv_history F1 = kv_history F"
    by (rule handler_new [of F i op g c t]) (use assms needF in auto)
  have "needs_execution op F1"
    using needF by (simp add: needs_execution_def F1)
  then obtain F2 where F2: "ApplyHandler g c (command_msg j t' op) F1 = Some F2" "kv_db F2 = db_step op (kv_db F1)"
    using handler_new [of F1 j op g c t'] F1 assms(10) by blast
  have L: "kv_db L2 (op_Key op) = Some (?old @ op_Value op)"
    using L1 L2 assms(1) by (simp add: db_step_def)
  have F: "kv_db F2 (op_Key op) = Some (?old @ op_Value op @ op_Value op)"
    using F1 F2 assms(1,3) by (simp add: db_step_def)
  from L F assms(2) have "kv_db L2 \<noteq> kv_db F2" by auto
  with L F L1(1) L2(1) F1(1) F2(1) show ?thesis by auto
qed

theorem duplicate_diverges_witness:
  "\<exists>L' F'. ApplyAll no_gob sample_codec [command_msg 1 1 (request APPEND 1 [5]), command_msg 2 1 (request APPEND 1 [5])]
       (sample_kv\<lparr>kv_incrMapLogIdx := [1 \<mapsto> 1]\<rparr>) = Some L' \<and>
     ApplyAll no_gob sample_codec [command_msg 1 1 (request APPEND 1 [5]), command_msg 2 1 (request APPEND 1 [5])]
       sample_kv = Some F' \<and> kv_db L' \<noteq> kv_db F'"
proof -
  have "needs_execution (request APPEND 1 [5]) (sample_kv\<lparr>kv_incrMapLogIdx := [1 \<mapsto> 1]\<rparr>)"
    by (simp add: needs_execution_def sample_kv_def)
  from duplicate_diverges [OF _ _ _ _ this, of sample_kv 1 1 2 no_gob sample_codec 1]
  show ?thesis by (auto simp: sample_kv_def request_def)
qed

end
