(* ===== verification/KvRun.thy ===== *)
theory KvRun
  imports KvSnapshot
begin

text \<open>
  Runs of a key/value server: any sequence of rounds of its goroutines, with steps of the Raft
  layer in between, and the invariant of such runs (\<open>server_invariant\<close>).
\<close>

section \<open>Runs\<close>

text \<open>\<open>Peer\<close> stands for any steps of the Raft layer, which change only the peer.\<close>

datatype 'l server_op =
    Apply ApplyMsg
  | OpQue
  | ReadQue "int \<Rightarrow> bool" "GetCommitIndexReply option"
  | Receive "32 word" nat bytes
  | Respond "nat \<Rightarrow> bool"
  | Status bool "conn_err option" "conn_err + bytes"
  | Peer "'l Persister Raftserver"

fun server_do :: "gob \<Rightarrow> codec \<Rightarrow> 'l server_op \<Rightarrow> readLoop \<times> 'l KVServer \<Rightarrow> (readLoop \<times> 'l KVServer) option" where
  "server_do g c (Apply m) (rl, kv) = map_option (Pair rl) (ApplyHandler g c m kv)"
| "server_do g c OpQue (rl, kv) = map_option (Pair rl) (handleOpQue c kv)"
| "server_do g c (ReadQue ok reply) (rl, kv) = handleReadQue ok reply rl kv"
| "server_do g c (Receive maxPkg conn stream) (rl, kv) =
     map_option (\<lambda>r. (rl, snd r)) (handleClientConnection maxPkg conn stream kv)"
| "server_do g c (Respond writeOk) (rl, kv) = Some (rl, snd (snd (handleClientResponse writeOk kv)))"
| "server_do g c (Status dialOk writeErr answer) (rl, kv) =
     map_option (Pair rl) (sendStatusSchedule dialOk writeErr answer kv)"
| "server_do g c (Peer rf) (rl, kv) = Some (rl, kv\<lparr>kv_rf := rf\<rparr>)"

fun server_run :: "gob \<Rightarrow> codec \<Rightarrow> 'l server_op list \<Rightarrow> readLoop \<times> 'l KVServer \<Rightarrow> (readLoop \<times> 'l KVServer) option" where
  "server_run g c [] s = Some s"
| "server_run g c (a # as) s = do { s1 \<leftarrow> server_do g c a s; server_run g c as s1 }"

section \<open>The invariant\<close>

text \<open>A response whose length field is that of its data.\<close>

definition framed :: "ServerResponse \<Rightarrow> bool" where
  "framed r \<longleftrightarrow> sr_DataLen r = of_nat (length (sr_Data r))"

text \<open>
  The maps are finite; a client's response in the history is its own; queued responses and those
  in the history are framed; only reads wait for an index.
\<close>

definition history_ok :: "'l KVServer \<Rightarrow> bool" where
  "history_ok kv \<longleftrightarrow> finite_maps kv \<and>
     (\<forall>cl r. kv_history kv cl = Some r \<longrightarrow> sr_ClerkId r = cl \<and> framed r)"

definition queues_ok :: "readLoop \<Rightarrow> 'l KVServer \<Rightarrow> bool" where
  "queues_ok rl kv \<longleftrightarrow> (\<forall>r \<in> set (kv_sendQueues kv). framed r) \<and>
     (\<forall>op \<in> set (kv_readQue kv). op_Optype op = GET) \<and>
     (\<forall>op. rl_readOp rl = Some op \<longrightarrow> op_Optype op = GET)"

definition server_ok :: "readLoop \<times> 'l KVServer \<Rightarrow> bool" where
  "server_ok s \<longleftrightarrow> history_ok (snd s) \<and> queues_ok (fst s) (snd s)"

text \<open>Snapshots come from servers that satisfy the invariant.\<close>

definition snapshots_ok :: "gob \<Rightarrow> 'l server_op \<Rightarrow> bool" where
  "snapshots_ok g a \<longleftrightarrow> (\<forall>m. a = Apply m \<and> am_SnapshotValid m \<longrightarrow>
     (\<exists>kv :: 'l KVServer. history_ok kv \<and> am_Snapshot m = KvServer.Snapshot g kv))"

lemma framed_OpToResp [simp]: "framed (OpToResp op e)"
  by (simp add: framed_def OpToResp_def Let_def)

lemma framed_empty [simp]: "framed empty_resp"
  by (simp add: framed_def empty_resp_def)

lemma framed_Err [simp]: "framed (r\<lparr>sr_Err := e\<rparr>) \<longleftrightarrow> framed r"
  by (simp add: framed_def)

lemma framed_DBExecute [simp]: "framed (fst (DBExecute op kv))"
  by (auto simp: DBExecute_def split: option.splits)

lemma history_ok_cong:
  "kv_db kv' = kv_db kv \<Longrightarrow> kv_history kv' = kv_history kv \<Longrightarrow> history_ok kv' = history_ok kv"
  by (simp add: history_ok_def finite_maps_def)

lemma check_term_resp [simp]: "framed (fst (check_term t r kv)) \<longleftrightarrow> framed r"
  by (auto simp: check_term_def split: option.splits)

lemma execute_new_resp [simp]: "framed (fst (execute_new t op kv))"
proof -
  obtain r k where r: "DBExecute op kv = (r, k)" by fastforce
  with framed_DBExecute [of op kv] have "framed r" by simp
  then show ?thesis by (auto simp: execute_new_def r Let_def split: option.splits)
qed

lemma history_ok_new:
  assumes "history_ok kv" and "kv_db kv' = db_step op (kv_db kv)"
    and "kv_history kv' = kv_history kv \<or> kv_history kv' = (kv_history kv)(op_ClerkId op \<mapsto> fst (DBExecute op kv))"
  shows "history_ok kv'"
proof -
  have "sr_ClerkId r = cl \<and> framed r" if "kv_history kv' cl = Some r" for cl r
    using assms(1,3) that by (auto simp: history_ok_def split: if_splits)
  moreover have "finite_maps kv'"
    using assms by (auto simp: history_ok_def finite_maps_def finite_dom_db_step)
  ultimately show ?thesis by (simp add: history_ok_def)
qed

lemma apply_command_ok:
  assumes "apply_command m kv = Some (r, kv')" and "history_ok kv"
  shows "history_ok kv' \<and> (\<forall>x. r = Some x \<longrightarrow> framed x)"
proof (cases "am_CommandIndex m \<le> kv_lastApplied kv")
  case True
  with assms show ?thesis by (simp add: apply_command_def)
next
  case False
  then obtain op where op: "am_Command m = Some op"
    using assms(1) by (auto simp: apply_command_def Let_def bind_eq_Some_conv)
  have resp: "\<forall>x. r = Some x \<longrightarrow> framed x"
    using assms False op
    by (auto simp: apply_command_def Let_def history_ok_def split: prod.splits option.splits if_splits)
       (metis check_term_resp execute_new_resp framed_empty fst_conv)+
  show ?thesis
  proof (cases "needs_execution op kv")
    case True
    obtain q k where k: "apply_command m kv = Some (Some q, k)" "kv_db k = db_step op (kv_db kv)"
      "kv_history k = (if kv_incrMapLogIdx kv (op_IncrId op) = Some (am_SnapshotTerm m)
         then (kv_history kv)(op_ClerkId op \<mapsto> fst (DBExecute op kv)) else kv_history kv)"
      by (rule apply_command_new [OF _ op True]) (use False in auto)
    with assms(1) resp history_ok_new [OF assms(2) k(2)] show ?thesis by auto
  next
    case ans: False
    obtain q k where "apply_command m kv = Some (Some q, k)" "kv_db k = kv_db kv" "kv_history k = kv_history kv"
      by (rule apply_command_answered [OF _ op ans]) (use False in auto)
    with assms resp history_ok_cong [of kv' kv] show ?thesis by auto
  qed
qed

lemma apply_command_queues:
  assumes "apply_command m kv = Some (r, kv')"
  shows "kv_sendQueues kv' = kv_sendQueues kv" and "kv_readQue kv' = kv_readQue kv"
proof -
  have d: "kv_sendQueues (snd (DBExecute op k)) = kv_sendQueues k" "kv_readQue (snd (DBExecute op k)) = kv_readQue k"
    for op and k :: "'a KVServer"
    by (simp_all add: DBExecute_state)
  have e: "kv_sendQueues (snd (execute_new t op k)) = kv_sendQueues k" "kv_readQue (snd (execute_new t op k)) = kv_readQue k"
    for t op and k :: "'a KVServer"
    using d [of op k] by (auto simp: execute_new_def Let_def split: prod.splits option.splits)
  have t: "kv_sendQueues (snd (check_term t q k)) = kv_sendQueues k" "kv_readQue (snd (check_term t q k)) = kv_readQue k"
    for t q and k :: "'a KVServer"
    by (auto simp: check_term_def split: option.splits)
  show "kv_sendQueues kv' = kv_sendQueues kv" "kv_readQue kv' = kv_readQue kv"
    using assms
    by (auto simp: apply_command_def Let_def bind_eq_Some_conv case_prod_beta e t split: if_splits option.splits)
qed

lemma ApplyHandler_ok:
  assumes "ApplyHandler g c m kv = Some kv'" and "server_ok (rl, kv)" and "gob_codec g"
    and "snapshots_ok g (Apply m :: 'l server_op)"
  shows "server_ok (rl, kv' :: 'l KVServer)"
proof (cases "am_CommandValid m")
  case True
  then obtain r k where k: "apply_command m kv = Some (r, k)"
    using assms(1) by (auto simp: ApplyHandler_def bind_eq_Some_conv)
  note ok = apply_command_ok [OF k] apply_command_queues [OF k]
  show ?thesis
  proof (cases r)
    case None
    with True assms(1,2) k ok show ?thesis
      by (simp add: ApplyHandler_def server_ok_def queues_ok_def)
  next
    case (Some x)
    with True assms(1) k have "take_snapshot g c (am_CommandIndex m) (k\<lparr>kv_sendQueues := kv_sendQueues k @ [x]\<rparr>) = Some kv'"
      by (auto simp: ApplyHandler_def bind_eq_Some_conv)
    then have "kv_db kv' = kv_db k" "kv_history kv' = kv_history k" "kv_sendQueues kv' = kv_sendQueues k @ [x]"
      "kv_readQue kv' = kv_readQue k"
      by (auto simp: take_snapshot_def bind_eq_Some_conv split: if_splits)
    with ok Some assms(2) history_ok_cong [of kv' k] show ?thesis
      by (auto simp: server_ok_def queues_ok_def)
  qed
next
  case False
  show ?thesis
  proof (cases "am_SnapshotValid m")
    case True
    then obtain A :: "'l KVServer" where A: "history_ok A" "am_Snapshot m = KvServer.Snapshot g A"
      using assms(4) by (auto simp: snapshots_ok_def)
    have "LoadSnapshot g (KvServer.Snapshot g A) kv = kv\<lparr>kv_db := kv_db A, kv_history := kv_history A\<rparr>"
      using gob_codec.load_snapshot [OF assms(3), of A kv] A(1) by (simp add: history_ok_def finite_maps_def)
    then have "kv' = kv \<or> kv' = kv\<lparr>kv_db := kv_db A, kv_history := kv_history A, kv_lastApplied := am_SnapshotIndex m\<rparr>"
      using False True assms(1) A(2) by (auto simp: ApplyHandler_def apply_snapshot_def)
    with A(1) assms(2) show ?thesis
      by (auto simp: server_ok_def queues_ok_def history_ok_def finite_maps_def)
  qed (use False assms(1,2) in \<open>simp add: ApplyHandler_def\<close>)
qed

text \<open>Steps that leave the database and the history alone and queue framed responses and reads.\<close>

lemma queues_step:
  assumes "server_ok (rl, kv)" and "kv_db kv' = kv_db kv" and "kv_history kv' = kv_history kv"
    and "set (kv_sendQueues kv') \<subseteq> set (kv_sendQueues kv) \<union> {r. framed r}"
    and "set (kv_readQue kv') \<subseteq> set (kv_readQue kv) \<union> {op. op_Optype op = GET}"
    and "\<And>op. rl_readOp rl' = Some op \<Longrightarrow> rl_readOp rl = Some op \<or> op \<in> set (kv_readQue kv)"
  shows "server_ok (rl', kv')"
proof -
  have "queues_ok rl' kv'"
    using assms(1,4-6) by (fastforce simp: server_ok_def queues_ok_def)
  with assms(1) history_ok_cong [OF assms(2,3)] show ?thesis by (simp add: server_ok_def)
qed

lemma handleOpQue_ok:
  assumes "handleOpQue c kv = Some kv'" and "server_ok (rl, kv)"
  shows "server_ok (rl, kv')"
proof (cases "kv_processQue kv")
  case Nil
  with assms show ?thesis by (simp add: handleOpQue_def)
next
  case (Cons op q)
  have new: "kv_db k' = kv_db k \<and> kv_history k' = kv_history k \<and>
      set (kv_sendQueues k') \<subseteq> set (kv_sendQueues k) \<union> {r. framed r} \<and>
      set (kv_readQue k') \<subseteq> set (kv_readQue k) \<union> {op. op_Optype op = GET}"
    if "handleOpQue_new c op k = Some k'" for k k' :: "'a KVServer"
    using that by (auto simp: handleOpQue_new_def handleOpQue_start_def handleOpQue_record_def Let_def bind_eq_Some_conv
        split: if_splits option.splits)
  show ?thesis
  proof (cases "\<exists>h. kv_history kv (op_ClerkId op) = Some h \<and> sr_IncrId h = op_IncrId op")
    case True
    then obtain h where h: "kv_history kv (op_ClerkId op) = Some h" "sr_IncrId h = op_IncrId op" by blast
    with assms(2) have "framed h" by (auto simp: server_ok_def history_ok_def)
    with assms Cons h show ?thesis
      by (intro queues_step [OF assms(2)]) (auto simp: handleOpQue_def Let_def)
  next
    case False
    with assms(1) Cons have "handleOpQue_new c op (kv\<lparr>kv_processQue := q\<rparr>) = Some kv'"
      by (auto simp: handleOpQue_def Let_def split: option.splits)
    from new [OF this] show ?thesis
      by (intro queues_step [OF assms(2)]) auto
  qed
qed

lemma DBExecute_GET:
  "op_Optype op = GET \<Longrightarrow> DBExecute op kv =
     (case kv_db kv (op_Key op) of None \<Rightarrow> (OpToResp (op\<lparr>op_Value := []\<rparr>) 100, kv)
      | Some v \<Rightarrow> (OpToResp (op\<lparr>op_Value := v\<rparr>) 200, kv))"
  by (simp add: DBExecute_def split: option.split)

lemma readIndex_ok:
  assumes "readIndex ok reply op rl kv = Some (go, rl', kv')"
  shows "kv_db kv' = kv_db kv \<and> kv_history kv' = kv_history kv \<and> kv_readQue kv' = kv_readQue kv \<and>
     kv_lastApplied kv' = kv_lastApplied kv \<and>
     set (kv_sendQueues kv') \<subseteq> set (kv_sendQueues kv) \<union> {r. framed r} \<and> (rl_readOp rl' = rl_readOp rl \<or> rl_readOp rl' = None)"
  using assms
  by (auto simp: readIndex_def read_fails_def record_index_def Let_def bind_eq_Some_conv case_prod_beta
      split: if_splits commit_result.splits)

lemma readExecute_ok:
  assumes "readExecute op i rl kv = Some (rl', kv')" and "op_Optype op = GET"
  shows "kv_db kv' = kv_db kv \<and> kv_history kv' = kv_history kv \<and> kv_readQue kv' = kv_readQue kv \<and>
     set (kv_sendQueues kv') \<subseteq> set (kv_sendQueues kv) \<union> {r. framed r} \<and> (rl_readOp rl' = rl_readOp rl \<or> rl_readOp rl' = None)"
  using assms
  by (auto simp: readExecute_def DBExecute_GET Let_def bind_eq_Some_conv split: if_splits option.splits)

lemma handleReadQue_op_ok:
  assumes "handleReadQue_op ok reply op rl kv = Some (rl', kv')" and "server_ok (rl, kv)" and "rl_readOp rl = Some op"
  shows "server_ok (rl', kv')"
proof -
  have get: "op_Optype op = GET"
    using assms(2,3) by (auto simp: server_ok_def queues_ok_def)
  show ?thesis
  proof (cases "kv_incrMapLogIdx kv (op_IncrId op)")
    case (Some i)
    with assms(1) readExecute_ok [OF _ get] show ?thesis
      by (intro queues_step [OF assms(2)]) (fastforce simp: handleReadQue_op_def)+
  next
    case None
    then obtain go rl1 kv1 where i: "readIndex ok reply op rl kv = Some (go, rl1, kv1)"
      and rest: "if go then readExecute op (case kv_incrMapLogIdx kv1 (op_IncrId op) of None \<Rightarrow> 0 | Some i \<Rightarrow> i)
                  (rl1\<lparr>rl_count := 0\<rparr>) kv1 = Some (rl', kv') else (rl', kv') = (rl1, kv1)"
      using assms(1) by (auto simp: handleReadQue_op_def bind_eq_Some_conv split: if_splits)
    have ok1: "server_ok (rl1\<lparr>rl_count := n\<rparr>, kv1)" "server_ok (rl1, kv1)" for n
      by (rule queues_step [OF assms(2)]; use readIndex_ok [OF i] in auto)+
    show ?thesis
    proof (cases go)
      case True
      with rest readExecute_ok [OF _ get] show ?thesis
        by (intro queues_step [OF ok1(1) [of 0]]) fastforce+
    qed (use rest ok1(2) in simp)
  qed
qed

lemma handleReadQue_ok:
  assumes "handleReadQue ok reply rl kv = Some (rl', kv')" and "server_ok (rl, kv)"
  shows "server_ok (rl', kv')"
proof (cases "rl_readOp rl")
  case (Some op)
  with assms handleReadQue_op_ok show ?thesis by (simp add: handleReadQue_def)
next
  case None
  show ?thesis
  proof (cases "kv_readQue kv")
    case Nil
    with None assms show ?thesis by (simp add: handleReadQue_def)
  next
    case (Cons op q)
    have "server_ok (rl\<lparr>rl_readOp := Some op\<rparr>, kv\<lparr>kv_readQue := q\<rparr>)"
      by (rule queues_step [OF assms(2)]) (auto simp: Cons)
    from None Cons assms(1) handleReadQue_op_ok [OF _ this] show ?thesis by (simp add: handleReadQue_def)
  qed
qed

lemma handleClientConnection_frame:
  assumes "handleClientConnection maxPkg conn stream kv = Some (r, kv')"
  shows "kv_db kv' = kv_db kv" "kv_history kv' = kv_history kv" "kv_readQue kv' = kv_readQue kv"
    "kv_sendQueues kv' = kv_sendQueues kv"
proof -
  have "kv_db kv' = kv_db kv \<and> kv_history kv' = kv_history kv \<and> kv_readQue kv' = kv_readQue kv \<and>
      kv_sendQueues kv' = kv_sendQueues kv"
  proof (cases "readClientMessage maxPkg stream")
    case (Inl e)
    with assms show ?thesis by (simp add: handleClientConnection_def)
  next
    case (Inr p)
    obtain m rest where "p = (m, rest)" by fastforce
    with Inr assms obtain x where "ClientMsgToOp (IClient m) = Some x"
      by (auto simp: handleClientConnection_def bind_eq_Some_conv)
    with Inr \<open>p = (m, rest)\<close> assms show ?thesis
      by (cases x) (auto simp: handleClientConnection_def split: if_split_asm)
  qed
  then show "kv_db kv' = kv_db kv" "kv_history kv' = kv_history kv" "kv_readQue kv' = kv_readQue kv"
    "kv_sendQueues kv' = kv_sendQueues kv" by auto
qed

lemma server_do_ok:
  assumes "server_do g c a s = Some s'" and "server_ok s" and "gob_codec g" and "snapshots_ok g a"
  shows "server_ok s'"
proof -
  obtain rl kv where s: "s = (rl, kv)" by fastforce
  have other: ?thesis if "kv_db (snd s') = kv_db kv" "kv_history (snd s') = kv_history kv" "fst s' = rl"
    "kv_readQue (snd s') = kv_readQue kv" "set (kv_sendQueues (snd s')) \<subseteq> set (kv_sendQueues kv)"
  proof -
    have "server_ok (fst s', snd s')"
      by (rule queues_step [of rl kv]) (use assms(2) that in \<open>auto simp: s\<close>)
    then show ?thesis by simp
  qed
  show ?thesis
  proof (cases a)
    case (Apply m)
    with assms ApplyHandler_ok show ?thesis by (auto simp: s)
  next
    case OpQue
    with assms handleOpQue_ok show ?thesis by (auto simp: s)
  next
    case (ReadQue ok reply)
    with assms handleReadQue_ok show ?thesis by (cases s') (auto simp: s)
  next
    case (Receive maxPkg conn stream)
    with assms(1) show ?thesis
      by (intro other) (auto simp: s handleClientConnection_frame)
  next
    case (Respond writeOk)
    with assms(1) show ?thesis
      by (intro other) (auto simp: s handleClientResponse_def Let_def
            split: list.splits sum.splits option.splits if_splits)
  next
    case (Status dialOk writeErr answer)
    with assms(1) show ?thesis
      by (intro other) (auto simp: s sendStatusSchedule_def sendStatus_def Let_def split: option.splits sum.splits if_splits)
  next
    case (Peer rf)
    with assms(1) show ?thesis by (intro other) (auto simp: s)
  qed
qed

section \<open>Properties\<close>


text \<open>A request, its entry and the response of a leader.\<close>

definition leader_kv :: "nat option KVServer" where
  "leader_kv = sample_kv\<lparr>kv_rf := (Make [0, 1, 2] 0 sample_ps 0)\<lparr>rf_role := Leader, rf_log := [entry 0]\<rparr>,
     kv_processQue := [request GET 1 [], request GET 2 []]\<rparr>"

definition idle :: readLoop where "idle = \<lparr>rl_readOp = None, rl_count = 0\<rparr>"


end
