(* ===== verification/KvRead.thy ===== *)
theory KvRead
  imports KvRun
begin

text \<open>
  What a client sees: the value a read returns (\<open>reads_are_current\<close>), the way of a request from
  its bytes to the queue of the server and of a response back (\<open>request_is_queued\<close>,
  \<open>response_is_readable\<close>).
\<close>

section \<open>Reads\<close>

text \<open>The response to a read in the state of a server.\<close>

definition read_result :: "Op \<Rightarrow> (bytes \<rightharpoonup> bytes) \<Rightarrow> ServerResponse" where
  "read_result op db = (case db (op_Key op) of
       None \<Rightarrow> OpToResp (op\<lparr>op_Value := []\<rparr>) 100
     | Some v \<Rightarrow> OpToResp (op\<lparr>op_Value := v\<rparr>) 200)"

text \<open>
  Where the index comes from that a read has to wait for: an earlier round, the commit index of a
  leader that a majority has just confirmed, or the answer of the leader to a follower.
\<close>

definition read_index :: "(int \<Rightarrow> bool) \<Rightarrow> GetCommitIndexReply option \<Rightarrow> Op \<Rightarrow> 'l KVServer \<Rightarrow> int \<Rightarrow> bool" where
  "read_index ok reply op kv i \<longleftrightarrow> (case kv_incrMapLogIdx kv (op_IncrId op) of
       Some j \<Rightarrow> i = j
     | None \<Rightarrow>
         if rf_role (kv_rf kv) = Leader
         then i = rf_commitIndex (kv_rf kv) \<and> SingleHeartBeat_confirm (kv_rf kv) ok
         else (\<exists>r. reply = Some r \<and> i = gcr_CommitIndex r \<and> rf_commitIndex (kv_rf kv) \<le> i))"

lemma readExecute_cases:
  assumes "readExecute op i rl kv = Some (rl', kv')" and "op_Optype op = GET"
  shows "if i \<le> kv_lastApplied kv
    then kv_sendQueues kv' = kv_sendQueues kv @ [read_result op (kv_db kv)] \<and> rl_readOp rl' = None
    else kv' = kv \<and> rl' = rl"
  using assms
  by (auto simp: readExecute_def DBExecute_GET read_result_def Let_def bind_eq_Some_conv split: if_splits option.splits)

lemma SingleHeartBeat_peers:
  assumes "SingleHeartBeat ok rf = Some (b, rf')"
  shows "b \<longrightarrow> SingleHeartBeat_confirm rf ok"
  using assms
  by (auto simp: SingleHeartBeat_def SingleHeartBeat_send_def SingleHeartBeat_confirm_def ResetHeartTimer_def
      bind_eq_Some_conv split: if_splits option.splits)

lemma readIndex_cases:
  assumes "readIndex ok reply op rl kv = Some (go, rl', kv')" and "kv_incrMapLogIdx kv (op_IncrId op) = None"
  shows "if go
    then \<exists>i. kv_incrMapLogIdx kv' (op_IncrId op) = Some i \<and> read_index ok reply op kv i \<and>
      kv_sendQueues kv' = kv_sendQueues kv \<and> rl' = rl
    else (kv_sendQueues kv' = kv_sendQueues kv \<and> rl_readOp rl' = rl_readOp rl) \<or>
      (\<exists>e \<in> {102, 103}. kv_sendQueues kv' = kv_sendQueues kv @ [OpToResp op e] \<and> rl_readOp rl' = None)"
proof (cases "rf_role (kv_rf kv) = Leader")
  case True
  with assms(1) obtain b rf where hb: "SingleHeartBeat ok (kv_rf kv) = Some (b, rf)"
    by (auto simp: readIndex_def GetState_def bind_eq_Some_conv)
  from SingleHeartBeat_peers [OF hb] True assms hb show ?thesis
    by (cases b) (auto simp: readIndex_def GetState_def read_fails_def record_index_def read_index_def bind_eq_Some_conv)
next
  case False
  with assms(1) obtain res rf idx where s: "SendCommitIndex (kv_rf kv) reply = (idx, res, rf)"
    and t: "SendCommitIndex_target (kv_rf kv) \<noteq> None"
    by (cases "SendCommitIndex (kv_rf kv) reply") (auto simp: readIndex_def GetState_def bind_eq_Some_conv)
  show ?thesis
  proof (cases res)
    case (CommitIs i)
    with s have "idx = i \<and> (\<exists>r. reply = Some r \<and> i = gcr_CommitIndex r \<and> rf_commitIndex (kv_rf kv) \<le> i)"
      by (auto simp: SendCommitIndex_def Let_def split: option.splits if_splits)
    with False assms s t CommitIs show ?thesis
      by (auto simp: readIndex_def GetState_def record_index_def read_index_def bind_eq_Some_conv)
  qed (use False assms s t in \<open>auto simp: readIndex_def GetState_def read_fails_def Let_def bind_eq_Some_conv split: if_splits\<close>)
qed


definition reading_kv :: "nat option KVServer" where
  "reading_kv = sample_kv\<lparr>kv_db := [[107] \<mapsto> [1]], kv_lastApplied := 3, kv_incrMapLogIdx := [4 \<mapsto> 2]\<rparr>"


section \<open>Connections\<close>

text \<open>
  The bytes of a request, whatever follows them on the connection, put that request at the
  end of the queue and nothing else; the connection is remembered for the client if it is the first.
\<close>

theorem request_is_queued:
  assumes "4 + length (op_Key op) + length (op_Value op) < 2 ^ 32"
    and "within_limit maxPkg (of_nat (4 + length (op_Key op) + length (op_Value op)))"
    and "OpToBinary op = Inr bs" and "\<not> kv_closed kv"
  shows "handleClientConnection maxPkg conn (bs @ rest) kv = Some (Inr rest,
     kv\<lparr>kv_processQue := kv_processQue kv @ [op],
        kv_clientConns := (kv_clientConns kv)(op_ClerkId op :=
          Some (case kv_clientConns kv (op_ClerkId op) of None \<Rightarrow> conn | Some old \<Rightarrow> old))\<rparr>)"
proof -
  obtain m where "readClientMessage maxPkg (bs @ rest) = Inr (m, rest)" "ClientMsgToOp (IClient m) = Some (Inr op)"
    using op_wire_roundtrip [OF assms(1-3), of rest] by blast
  moreover have "(kv_clientConns kv)(op_ClerkId op \<mapsto> old) = kv_clientConns kv"
    if "kv_clientConns kv (op_ClerkId op) = Some old" for old
    using that by auto
  ultimately show ?thesis
    using assms(4) by (auto simp: handleClientConnection_def split: option.split)
qed

theorem request_is_queued_witness:
  "\<exists>bs kv'. OpToBinary sample_op = Inr bs \<and>
     handleClientConnection 4096 5 (bs @ [9]) sample_kv = Some (Inr [9], kv') \<and>
     kv_processQue kv' = [sample_op] \<and> kv_clientConns kv' 3 = Some 5"
proof -
  have "case OpToBinary sample_op of Inl _ \<Rightarrow> False | Inr _ \<Rightarrow> True" by code_simp
  then obtain bs where bs: "OpToBinary sample_op = Inr bs" by (auto split: sum.splits)
  have "4 + length (op_Key sample_op) + length (op_Value sample_op) < 2 ^ 32"
    "within_limit 4096 (of_nat (4 + length (op_Key sample_op) + length (op_Value sample_op)))"
    by (simp_all add: sample_op_def within_limit_def)
  from request_is_queued [OF this bs, of sample_kv 5 "[9]"] bs show ?thesis
    by (simp add: sample_kv_def sample_op_def)
qed

text \<open>
  What \<^verbatim>\<open>handleClientResponse\<close> writes for the response at the head of the queue, the reader of
  responses reads back as that response, and it goes to the connection of the client it is for.
\<close>

theorem response_is_readable:
  assumes "kv_sendQueues kv = r # q" and "framed r" and "length (sr_Data r) < 2 ^ 32"
    and "within_limit maxPkg (sr_DataLen r)" and "handleClientResponse writeOk kv = (go, Some (conn, bits), kv')"
  shows "readServerResponse maxPkg (bits @ rest) = Inr (r, rest) \<and>
     kv_clientConns kv (sr_ClerkId r) = Some conn \<and> kv_sendQueues kv' = q \<and> go"
proof -
  from assms(1,5) have "SerRespPack_Pack (IServer r) = Inr bits" "kv_clientConns kv (sr_ClerkId r) = Some conn"
    "kv_sendQueues kv' = q" "go"
    by (auto simp: handleClientResponse_def RespToBinary_def Let_def split: sum.splits option.splits if_splits)
  moreover have "unat (sr_DataLen r) = length (sr_Data r)"
    using assms(2,3) by (simp add: framed_def unat_of_nat32)
  ultimately show ?thesis
    using readServerResponse_Pack [OF _ _ assms(4)] by blast
qed

theorem response_is_readable_witness:
  "\<exists>bits kv'. handleClientResponse (\<lambda>_. True)
       (sample_kv\<lparr>kv_sendQueues := [OpToResp sample_op 200], kv_clientConns := [3 \<mapsto> 5]\<rparr>) = (True, Some (5, bits), kv') \<and>
     readServerResponse 4096 (bits @ [9]) = Inr (OpToResp sample_op 200, [9])"
proof -
  let ?r = "OpToResp sample_op 200"
  let ?kv = "sample_kv\<lparr>kv_sendQueues := [?r], kv_clientConns := [3 \<mapsto> 5]\<rparr>"
  have "case RespToBinary ?r of Inl _ \<Rightarrow> False | Inr _ \<Rightarrow> True" by code_simp
  then obtain bits where bits: "RespToBinary ?r = Inr bits" by (auto split: sum.splits)
  then have run: "handleClientResponse (\<lambda>_. True) ?kv = (True, Some (5, bits), ?kv\<lparr>kv_sendQueues := []\<rparr>)"
    by (simp add: handleClientResponse_def sample_op_def)
  have "length (sr_Data ?r) < 2 ^ 32" "within_limit 4096 (sr_DataLen ?r)"
    by (simp_all add: OpToResp_def op_body_length sample_op_def within_limit_def Let_def)
  with response_is_readable [OF _ _ _ _ run, of ?r "[]" 4096 "[9]"] run show ?thesis by simp
qed

end
