(* ===== verification/Clerk.thy ===== *)
theory Clerk
  imports Common Wire
begin

text \<open>
  The client of \<^verbatim>\<open>src/server/client.go\<close>: requests, the two buffers in which the responses arrive
  and the channels through which they reach the callers.

  A channel is a number; \<open>ck_responseCh\<close> is the map from request ids to channels and \<open>ck_chans\<close>
  holds the channels, also those that the map has lost. A connection is a number. The time
  stamp that is the id of a request, the bytes that arrive and the outcome of a wait are
  arguments. \<open>maxPkg\<close> is the limit of the unpackers. In \<^verbatim>\<open>processPutBuffer\<close> the data of a response
  is part of the buffer and not a copy of it; \<^verbatim>\<open>Put\<close> and \<^verbatim>\<open>Append\<close> do not look at it.
\<close>

section \<open>State\<close>

record Result =
  rs_ErrId :: "32 word"
  rs_Bbody :: Body

record resChan =
  rc_content :: "Result list"
  rc_closed :: bool

record Clerk =
  ck_clerkId :: "32 word"
  ck_connections :: "32 word \<rightharpoonup> nat"
  ck_maxRetryTime :: nat
  ck_putOffset :: int
  ck_getOffset :: int
  ck_putBuffer :: bytes
  ck_getBuffer :: bytes
  ck_responseCh :: "64 word \<rightharpoonup> nat"
  ck_chans :: "nat \<rightharpoonup> resChan"
  ck_dead :: bool

definition Result_GetValue :: "Result \<Rightarrow> bytes option" where
  "Result_GetValue r = Body_GetValue (rs_Bbody r)"

definition Result_GetKey :: "Result \<Rightarrow> bytes option" where
  "Result_GetKey r = Body_GetKey (rs_Bbody r)"

definition bufferLen :: nat where "bufferLen = 2048"

text \<open>\<^verbatim>\<open>xs[i:j]\<close>\<close>

definition slice_mid :: "'a list \<Rightarrow> int \<Rightarrow> int \<Rightarrow> 'a list option" where
  "slice_mid xs i j =
     (if 0 \<le> i \<and> i \<le> j \<and> j \<le> int (length xs) then Some (take (nat (j - i)) (drop (nat i) xs)) else None)"

text \<open>\<^verbatim>\<open>copy(dst, src)\<close>\<close>

definition copy :: "'a list \<Rightarrow> 'a list \<Rightarrow> 'a list" where
  "copy dst src = take (length dst) src @ drop (length src) dst"

section \<open>Start and stop\<close>

text \<open>The clerk's id is the successor of the last one (\<open>lastId\<close>).\<close>

definition getClerkId :: "32 word \<Rightarrow> 32 word" where
  "getClerkId lastId = lastId + 1"

text \<open>
  \<^verbatim>\<open>connectToProxy\<close>: \<open>first\<close> is the result of the first attempt for each address and \<open>again\<close> that of
  the rounds of the second loop. The addresses that failed are never removed from the map, so
  that the loop ends only when ten attempts of it have failed; it does not end if they stop
  failing before.
\<close>

definition failedAddrs :: "(32 word \<times> nat option) list \<Rightarrow> 32 word list" where
  "failedAddrs first = map fst (filter (\<lambda>(op, c). c = None) first)"

fun retryRounds :: "(32 word \<Rightarrow> nat option) list \<Rightarrow> 32 word list \<Rightarrow> int \<Rightarrow> (32 word \<rightharpoonup> nat) \<Rightarrow>
    (32 word \<rightharpoonup> nat) option" where
  "retryRounds rounds failed count conns =
     (if failed = [] \<or> 10 \<le> count then Some conns
      else (case rounds of
          [] \<Rightarrow> None
        | r # rs \<Rightarrow> retryRounds rs failed (count + go_len (filter (\<lambda>op. r op = None) failed))
            (\<lambda>op. if op \<in> set failed \<and> r op \<noteq> None then r op else conns op)))"

definition connectToProxy :: "(32 word \<times> nat option) list \<Rightarrow> (32 word \<Rightarrow> nat option) list \<Rightarrow>
    (unit + (32 word \<rightharpoonup> nat)) option" where
  "connectToProxy first again =
     (let failed = failedAddrs first;
          conns = (\<lambda>op. case map_of first op of Some c \<Rightarrow> c | None \<Rightarrow> None)
      in do {
        conns1 \<leftarrow> retryRounds again failed 0 conns;
        if failed \<noteq> [] then Some (Inl ())
        else Some (Inr (if conns1 APPEND = None then conns1(APPEND := conns1 PUT) else conns1))
      })"

definition MakeClerk :: "32 word \<Rightarrow> (32 word \<times> nat option) list \<Rightarrow> (32 word \<Rightarrow> nat option) list \<Rightarrow> Clerk option" where
  "MakeClerk lastId first again = do {
     r \<leftarrow> connectToProxy first again;
     (case r of
        Inl _ \<Rightarrow> None
      | Inr conns \<Rightarrow> Some \<lparr>ck_clerkId = getClerkId lastId, ck_connections = conns, ck_maxRetryTime = 1,
          ck_putOffset = 0, ck_getOffset = 0, ck_putBuffer = replicate bufferLen 0,
          ck_getBuffer = replicate bufferLen 0, ck_responseCh = Map.empty, ck_chans = Map.empty,
          ck_dead = False\<rparr>)
   }"

text \<open>\<^verbatim>\<open>Stop\<close> closes the channels that are waited for; closing one twice panics.\<close>

definition close_chan :: "nat \<Rightarrow> (nat \<rightharpoonup> resChan) \<Rightarrow> (nat \<rightharpoonup> resChan) option" where
  "close_chan ch cs = (case cs ch of
       None \<Rightarrow> None
     | Some c \<Rightarrow> if rc_closed c then None else Some (cs(ch \<mapsto> c\<lparr>rc_closed := True\<rparr>)))"

definition Stop :: "Clerk \<Rightarrow> Clerk option" where
  "Stop ck =
     (if \<exists>i ch c. ck_responseCh ck i = Some ch \<and> ck_chans ck ch = Some c \<and> rc_closed c then None
      else Some (ck\<lparr>ck_dead := True,
             ck_chans := (\<lambda>ch. if ch \<in> ran (ck_responseCh ck)
                               then map_option (\<lambda>c. c\<lparr>rc_closed := True\<rparr>) (ck_chans ck ch) else ck_chans ck ch)\<rparr>))"

section \<open>Requests\<close>

text \<open>\<open>ch\<close> is the number of the new channel.\<close>

definition prepareData :: "64 word \<Rightarrow> nat \<Rightarrow> bytes \<Rightarrow> 32 word \<Rightarrow> 32 word \<Rightarrow> Clerk \<Rightarrow>
    (io_err + bytes \<times> 64 word) \<times> Clerk" where
  "prepareData uid ch keyValue op keyLen ck =
     (let bodyData = BodyPack_Pack \<lparr>bd_KeyLen = keyLen, bd_KeyValue = keyValue\<rparr>;
          msg = \<lparr>cm_OpId = op, cm_DataLen = of_nat (length bodyData), cm_IncrId = uid,
                 cm_ClerkId = ck_clerkId ck, cm_Data = bodyData\<rparr>;
          ck1 = (if ck_responseCh ck uid = None
                 then ck\<lparr>ck_responseCh := (ck_responseCh ck)(uid \<mapsto> ch),
                         ck_chans := (ck_chans ck)(ch \<mapsto> \<lparr>rc_content = [], rc_closed = False\<rparr>)\<rparr>
                 else ck)
      in (case ClientDataPack_Pack (IClient msg) of
            Inl e \<Rightarrow> (Inl e, ck1)
          | Inr binaryData \<Rightarrow> (Inr (binaryData, uid), ck1)))"

datatype clerk_err = PackErr | NotSupported | NoConnection | WriteErr | TimedOut

definition packData :: "64 word \<Rightarrow> nat \<Rightarrow> bytes \<Rightarrow> 32 word \<Rightarrow> 32 word \<Rightarrow> Clerk \<Rightarrow>
    (clerk_err + bytes \<times> 64 word) \<times> Clerk" where
  "packData uid ch keyValue op keyLen ck =
     (if op \<noteq> GET \<and> op \<noteq> PUT \<and> op \<noteq> APPEND then (Inl NotSupported, ck)
      else (case prepareData uid ch keyValue op keyLen ck of
          (Inl e, ck1) \<Rightarrow> (Inl PackErr, ck1)
        | (Inr p, ck1) \<Rightarrow> (Inr p, ck1)))"

text \<open>\<open>writeOk\<close> says whether the connection takes the data; the result is the connection written to.\<close>

definition sendRequest :: "bool \<Rightarrow> 32 word \<Rightarrow> Clerk \<Rightarrow> clerk_err + nat" where
  "sendRequest writeOk op ck = (case ck_connections ck op of
       None \<Rightarrow> Inl NoConnection
     | Some conn \<Rightarrow> if writeOk then Inr conn else Inl WriteErr)"

text \<open>
  \<^verbatim>\<open>retryRequest\<close> after the request has been packed: each attempt sends it and waits. \<open>Answer\<close> is a
  receive on the channel, which on a closed and empty one gives a nil result without an error.
\<close>

datatype wait = SendFails | Answer | Timeout

fun attempts :: "32 word \<Rightarrow> nat \<Rightarrow> wait list \<Rightarrow> clerk_err option \<Rightarrow> Clerk \<Rightarrow>
    ((Result option \<times> clerk_err option) \<times> Clerk) option" where
  "attempts op ch [] lastErr ck = Some ((None, lastErr), ck)"
| "attempts op ch (w # ws) lastErr ck = (case sendRequest (w \<noteq> SendFails) op ck of
       Inl e \<Rightarrow> attempts op ch ws (Some e) ck
     | Inr _ \<Rightarrow> (case w of
           Answer \<Rightarrow> (case ck_chans ck ch of
               None \<Rightarrow> None
             | Some c \<Rightarrow> (case rc_content c of
                   r # rest \<Rightarrow> Some ((Some r, None), ck\<lparr>ck_chans := (ck_chans ck)(ch \<mapsto> c\<lparr>rc_content := rest\<rparr>)\<rparr>)
                 | [] \<Rightarrow> if rc_closed c then Some ((None, None), ck) else None))
         | _ \<Rightarrow> attempts op ch ws (Some TimedOut) ck))"

text \<open>The part of \<^verbatim>\<open>retryRequest\<close> before the loop.\<close>

definition beginRequest :: "64 word \<Rightarrow> nat \<Rightarrow> 32 word \<Rightarrow> 32 word \<Rightarrow> bytes \<Rightarrow> Clerk \<Rightarrow>
    ((clerk_err + bytes \<times> nat option) \<times> Clerk) option" where
  "beginRequest uid ch op keyLen keyValue ck = (case packData uid ch keyValue op keyLen ck of
       (Inr (binaryData, incrId), ck1) \<Rightarrow> Some (Inr (binaryData, ck_responseCh ck1 incrId), ck1)
     | (Inl e, ck1) \<Rightarrow> (case ck_responseCh ck1 0 of
           None \<Rightarrow> Some (Inl e, ck1)
         | Some ch' \<Rightarrow> do {
             cs \<leftarrow> close_chan ch' (ck_chans ck1);
             Some (Inl e, ck1\<lparr>ck_chans := cs, ck_responseCh := (ck_responseCh ck1)(0 := None)\<rparr>)
           }))"

text \<open>
  The three calls of the interface, given the result of \<^verbatim>\<open>retryRequest\<close>: a value and an error. A nil
  result is dereferenced, which panics, unless an error is returned before.
\<close>

datatype call_err = RequestErr clerk_err | ErrName string

definition Get_result :: "Result option \<times> clerk_err option \<Rightarrow> (bytes \<times> call_err option) option" where
  "Get_result p = (case p of
       (res, Some e) \<Rightarrow> Some ([], Some (RequestErr e))
     | (res, None) \<Rightarrow> do {
         r \<leftarrow> deref res;
         if rs_ErrId r \<noteq> errCode OK then Some ([], Some (ErrName (errName (rs_ErrId r))))
         else do { v \<leftarrow> Result_GetValue r; Some (v, None) }
       })"

definition Put_result :: "Result option \<times> clerk_err option \<Rightarrow> call_err option option" where
  "Put_result p = (case p of
       (res, Some e) \<Rightarrow> Some (Some (RequestErr e))
     | (res, None) \<Rightarrow> do {
         r \<leftarrow> deref res;
         if rs_ErrId r \<noteq> errCode OK then Some (Some (ErrName (errName (rs_ErrId r)))) else Some None
       })"

definition Append_result :: "Result option \<times> clerk_err option \<Rightarrow> call_err option option" where
  "Append_result p = (case p of (res, err) \<Rightarrow> do {
       r \<leftarrow> deref res;
       if rs_ErrId r \<noteq> errCode OK then Some (Some (ErrName (errName (rs_ErrId r))))
       else Some (map_option RequestErr err)
     })"

section \<open>Responses\<close>

text \<open>An error of \<^verbatim>\<open>processResponse\<close> is only logged by its callers.\<close>

definition processResponse :: "64 word \<Rightarrow> 32 word \<Rightarrow> bytes \<Rightarrow> Clerk \<Rightarrow> ((io_err + unit) \<times> Clerk) option" where
  "processResponse incrId errId binaryData ck = (case BodyPack_Unpack binaryData of
       Inl e \<Rightarrow> Some (Inl e, ck)
     | Inr body \<Rightarrow> (case ck_responseCh ck incrId of
           None \<Rightarrow> Some (Inr (), ck)
         | Some ch \<Rightarrow> do {
             c \<leftarrow> ck_chans ck ch;
             if rc_closed c \<or> rc_content c \<noteq> [] then None
             else Some (Inr (), ck\<lparr>ck_chans := (ck_chans ck)(ch \<mapsto>
                      \<lparr>rc_content = [\<lparr>rs_ErrId = errId, rs_Bbody = body\<rparr>], rc_closed = True\<rparr>),
                    ck_responseCh := (ck_responseCh ck)(incrId := None)\<rparr>)
           }))"

text \<open>
  The loop of \<^verbatim>\<open>processGetBuffer\<close> and \<^verbatim>\<open>processPutBuffer\<close> over a buffer with \<open>off\<close> valid bytes. The length of
  a message is computed in 32 bits; a header that the unpacker rejects is a nil interface, the
  type assertion on which panics.
\<close>

function processBuffer :: "32 word \<Rightarrow> bytes \<Rightarrow> int \<Rightarrow> Clerk \<Rightarrow> (bytes \<times> int \<times> Clerk) option" where
  "processBuffer maxPkg buf off ck =
     (if off < int respHeadLen then Some (buf, off, ck)
      else do {
        lenBytes \<leftarrow> slice_mid buf 4 8;
        let dataLen = (le_decode lenBytes :: 32 word);
        let total = dataLen + of_nat respHeadLen;
        if (of_int off :: 32 word) < total then Some (buf, off, ck)
        else do {
          head \<leftarrow> slice_to buf (int respHeadLen);
          smsg \<leftarrow> (case SerRespPack_Unpack maxPkg head of Inr (IServer r) \<Rightarrow> Some r | _ \<Rightarrow> None);
          body \<leftarrow> slice_mid buf (int respHeadLen) (uint total);
          let data = copy (replicate (unat (sr_DataLen smsg)) 0) body;
          (_, ck1) \<leftarrow> processResponse (sr_IncrId smsg) (sr_Err smsg) data ck;
          rest \<leftarrow> slice_mid buf (uint total) off;
          processBuffer maxPkg (copy buf rest) (off - uint total) ck1
        }
      })"
  by pat_completeness auto
termination
  by (relation "measure (\<lambda>(maxPkg, buf, off, ck). nat off)")
     (auto simp: slice_mid_def respHeadLen_def split: if_splits)

declare processBuffer.simps [simp del]

definition processGetBuffer :: "32 word \<Rightarrow> Clerk \<Rightarrow> Clerk option" where
  "processGetBuffer maxPkg ck = do {
     (buf, off, ck1) \<leftarrow> processBuffer maxPkg (ck_getBuffer ck) (ck_getOffset ck) ck;
     Some (ck1\<lparr>ck_getBuffer := buf, ck_getOffset := off\<rparr>)
   }"

definition processPutBuffer :: "32 word \<Rightarrow> Clerk \<Rightarrow> Clerk option" where
  "processPutBuffer maxPkg ck = do {
     (buf, off, ck1) \<leftarrow> processBuffer maxPkg (ck_putBuffer ck) (ck_putOffset ck) ck;
     Some (ck1\<lparr>ck_putBuffer := buf, ck_putOffset := off\<rparr>)
   }"

text \<open>
  One round of the two receivers: \<open>chunk\<close> is what arrives, of which the read takes no more than
  there is room for; the rest is returned.
\<close>

definition receiveGetResponse :: "32 word \<Rightarrow> bytes \<Rightarrow> Clerk \<Rightarrow> (bytes \<times> Clerk) option" where
  "receiveGetResponse maxPkg chunk ck = do {
     room \<leftarrow> slice_from (ck_getBuffer ck) (ck_getOffset ck);
     let n = min (length room) (length chunk);
     ck1 \<leftarrow> processGetBuffer maxPkg
       (ck\<lparr>ck_getBuffer := take (nat (ck_getOffset ck)) (ck_getBuffer ck) @ copy room (take n chunk),
           ck_getOffset := ck_getOffset ck + int n\<rparr>);
     Some (drop n chunk, ck1)
   }"

definition receivePutAppendResponse :: "32 word \<Rightarrow> bytes \<Rightarrow> Clerk \<Rightarrow> (bytes \<times> Clerk) option" where
  "receivePutAppendResponse maxPkg chunk ck = do {
     room \<leftarrow> slice_from (ck_putBuffer ck) (ck_putOffset ck);
     let n = min (length room) (length chunk);
     ck1 \<leftarrow> processPutBuffer maxPkg
       (ck\<lparr>ck_putBuffer := take (nat (ck_putOffset ck)) (ck_putBuffer ck) @ copy room (take n chunk),
           ck_putOffset := ck_putOffset ck + int n\<rparr>);
     Some (drop n chunk, ck1)
   }"

end
