(* ===== verification/ClerkStream.thy ===== *)
theory ClerkStream
  imports Clerk
begin

text \<open>
  The responses a client receives: however the bytes of several responses are cut into reads,
  each response is delivered, once and in order, as long as it fits into the buffer
  (\<open>responses_are_delivered\<close>); what happens to one that does not (\<open>oversized_response_stalls\<close>,
  \<open>wrapped_length_panics\<close>); and the calls that time out (\<open>timeout_outcomes\<close>).
\<close>

section \<open>The bytes of a response\<close>

declare respHeadLen_def [simp]

definition header :: "ServerResponse \<Rightarrow> bytes" where
  "header r = write_u32 (sr_OpId r) @ write_u32 (sr_DataLen r) @ write_u64 (sr_IncrId r) @
     write_u32 (sr_ClerkId r) @ write_u32 (sr_ServerId r) @ write_u32 (sr_Err r)"

definition bits :: "ServerResponse \<Rightarrow> bytes" where
  "bits r = header r @ sr_Data r"

lemma RespToBinary_bits: "RespToBinary r = Inr (bits r)"
  by (simp add: RespToBinary_def SerRespPack_Pack_def bits_def header_def)

lemma header_length [simp]: "length (header r) = 28"
  by (simp add: header_def)

lemma bits_length [simp]: "length (bits r) = 28 + length (sr_Data r)"
  by (simp add: bits_def)

definition fits_buffer :: "32 word \<Rightarrow> ServerResponse \<Rightarrow> bool" where
  "fits_buffer maxPkg r \<longleftrightarrow> unat (sr_DataLen r) = length (sr_Data r) \<and> within_limit maxPkg (sr_DataLen r) \<and>
     28 + length (sr_Data r) \<le> bufferLen"

lemma Unpack_header:
  "within_limit maxPkg (sr_DataLen r) \<Longrightarrow> SerRespPack_Unpack maxPkg (header r) = Inr (IServer (r\<lparr>sr_Data := []\<rparr>))"
  using u32.dec_enc_nil
  by (auto simp: SerRespPack_Unpack_def within_limit_def codec_simps header_def)

lemma slice_mid_append:
  "length xs = n \<Longrightarrow> length ys = m \<Longrightarrow> slice_mid (xs @ ys @ zs) (int n) (int (n + m)) = Some ys"
  by (auto simp: slice_mid_def nat_diff_distrib)

lemma dataLen_bytes: "slice_mid (header r @ xs) 4 8 = Some (write_u32 (sr_DataLen r))"
  using slice_mid_append [of "write_u32 (sr_OpId r)" 4 "write_u32 (sr_DataLen r)" 4]
  by (simp add: header_def)

lemma decode_u32 [simp]: "le_decode (write_u32 w) = w"
  by (simp add: le_decode_encode)

section \<open>One message\<close>

definition deliver :: "ServerResponse \<Rightarrow> Clerk \<Rightarrow> Clerk option" where
  "deliver r ck = map_option snd (processResponse (sr_IncrId r) (sr_Err r) (sr_Data r) ck)"

fun deliver_all :: "ServerResponse list \<Rightarrow> Clerk \<Rightarrow> Clerk option" where
  "deliver_all [] ck = Some ck"
| "deliver_all (r # rs) ck = do { ck1 \<leftarrow> deliver r ck; deliver_all rs ck1 }"

lemma copy_self [simp]: "length src = length dst \<Longrightarrow> copy dst src = src"
  by (simp add: copy_def)

lemma copy_short: "length src \<le> length dst \<Longrightarrow> copy dst src = src @ drop (length src) dst"
  by (simp add: copy_def)

lemma total_length:
  assumes "fits_buffer maxPkg r"
  shows "unat (sr_DataLen r + 28) = length (bits r)"
    and "uint (sr_DataLen r + 28) = int (length (bits r))"
proof -
  have "unat (sr_DataLen r) + 28 < 2 ^ 32"
    using assms by (simp add: fits_buffer_def bufferLen_def)
  then have "unat (sr_DataLen r + 28) = unat (sr_DataLen r) + 28"
    by (simp add: unat_word_ariths)
  with assms show "unat (sr_DataLen r + 28) = length (bits r)"
    by (simp add: fits_buffer_def)
  then show "uint (sr_DataLen r + 28) = int (length (bits r))"
    by (simp add: uint_nat)
qed

lemma off_word:
  assumes "n \<le> bufferLen"
  shows "unat (of_int (int n) :: 32 word) = n"
  using assms by (simp add: bufferLen_def unat_of_nat take_bit_nat_eq_self)

text \<open>A whole message at the start of the valid bytes.\<close>

lemma processBuffer_message:
  assumes "fits_buffer maxPkg r" and "length (bits r @ p) \<le> bufferLen"
  shows "processBuffer maxPkg (bits r @ p @ junk) (int (length (bits r @ p))) ck = do {
      ck1 \<leftarrow> deliver r ck;
      processBuffer maxPkg (p @ drop (length p) (bits r @ p @ junk)) (int (length p)) ck1 }"
proof -
  let ?buf = "bits r @ p @ junk" and ?n = "length (bits r @ p)"
  let ?t = "sr_DataLen r + 28 :: 32 word"
  note t = total_length [OF assms(1)]
  have "\<not> (of_int (int ?n) :: 32 word) < ?t"
    using off_word [OF assms(2)] t(1) by (simp add: word_less_nat_alt)
  moreover have "slice_mid ?buf 4 8 = Some (write_u32 (sr_DataLen r))"
    using dataLen_bytes [of r] by (simp add: bits_def)
  moreover have "slice_to ?buf (int respHeadLen) = Some (header r)"
    by (simp add: slice_to_def bits_def)
  moreover have "SerRespPack_Unpack maxPkg (header r) = Inr (IServer (r\<lparr>sr_Data := []\<rparr>))"
    using assms(1) by (intro Unpack_header) (simp add: fits_buffer_def)
  moreover have "slice_mid ?buf (int respHeadLen) (uint ?t) = Some (sr_Data r)"
    using slice_mid_append [of "header r" 28 "sr_Data r" "length (sr_Data r)"]
    by (simp add: t(2) bits_def)
  moreover have "slice_mid ?buf (uint ?t) (int ?n) = Some p"
    using slice_mid_append [of "bits r" "length (bits r)" p "length p" junk] by (simp add: t(2))
  moreover have "unat (sr_DataLen r) = length (sr_Data r)"
    using assms(1) by (simp add: fits_buffer_def)
  moreover have "int ?n - uint ?t = int (length p)" by (simp add: t(2))
  moreover have "copy ?buf p = p @ drop (length p) ?buf" by (rule copy_short) simp
  ultimately show ?thesis
    by (subst processBuffer.simps, cases "processResponse (sr_IncrId r) (sr_Err r) (sr_Data r) ck")
       (simp_all add: deliver_def case_prod_beta t(2))
qed

text \<open>Part of a message.\<close>

lemma processBuffer_part:
  assumes "fits_buffer maxPkg r" and "bits r = p @ q" and "q \<noteq> []"
  shows "processBuffer maxPkg (p @ junk) (int (length p)) ck = Some (p @ junk, int (length p), ck)"
proof (cases "length p < 28")
  case True
  then show ?thesis by (simp add: processBuffer.simps)
next
  case False
  have len: "length p < length (bits r)" "length p \<le> bufferLen"
    using assms by (simp_all add: fits_buffer_def)
       (metis add_leD1 bits_length fits_buffer_def length_append assms(1,2))
  have "take 28 (p @ q) = header r"
    unfolding assms(2) [symmetric] by (simp add: bits_def)
  then have "p = header r @ drop 28 p"
    using False by (metis append_take_drop_id le_antisym linorder_not_less nat_le_linear take_append append_Nil2 diff_is_0_eq take0)
  then have "slice_mid (p @ junk) 4 8 = Some (write_u32 (sr_DataLen r))"
    by (metis append.assoc dataLen_bytes)
  moreover have "(of_int (int (length p)) :: 32 word) < sr_DataLen r + 28"
    using off_word [OF len(2)] len(1) total_length(1) [OF assms(1)] by (simp add: word_less_nat_alt)
  ultimately show ?thesis
    using False by (simp add: processBuffer.simps)
qed

section \<open>A stream of messages\<close>

text \<open>The valid bytes of the buffer end inside the next message, if there is one.\<close>

definition partial :: "bytes \<Rightarrow> ServerResponse list \<Rightarrow> bool" where
  "partial p rs \<longleftrightarrow> p = [] \<or> (\<exists>r rs' q. rs = r # rs' \<and> bits r = p @ q \<and> q \<noteq> [])"

lemma split_stream:
  assumes "q @ s = concat (map bits rs)"
  shows "\<exists>rs1 rs2 p. rs = rs1 @ rs2 \<and> q = concat (map bits rs1) @ p \<and> p @ s = concat (map bits rs2) \<and> partial p rs2"
  using assms
proof (induction rs arbitrary: q)
  case Nil
  then show ?case by (simp add: partial_def)
next
  case (Cons r rs)
  show ?case
  proof (cases "length q < length (bits r)")
    case True
    with Cons.prems have "q = take (length q) (bits r)"
      by (simp add: append_eq_append_conv_if del: bits_length)
    then obtain t where t: "bits r = q @ t" by (metis append_take_drop_id)
    with True have "t \<noteq> []" by (auto simp del: bits_length)
    with t Cons.prems show ?thesis
      by (intro exI [of _ "[]"] exI [of _ "r # rs"] exI [of _ q]) (auto simp: partial_def)
  next
    case False
    with Cons.prems have "take (length (bits r)) q = bits r \<and> drop (length (bits r)) q @ s = concat (map bits rs)"
      by (auto simp: append_eq_append_conv_if simp del: bits_length split: if_splits)
    then obtain q' where q': "q = bits r @ q'" "q' @ s = concat (map bits rs)"
      by (metis append_take_drop_id)
    from Cons.IH [OF q'(2)] obtain rs1 rs2 p where "rs = rs1 @ rs2" "q' = concat (map bits rs1) @ p"
      "p @ s = concat (map bits rs2)" "partial p rs2" by blast
    with q'(1) show ?thesis
      by (intro exI [of _ "r # rs1"] exI [of _ rs2] exI [of _ p]) simp
  qed
qed

lemma processBuffer_stream:
  assumes "\<forall>r \<in> set rs1 \<union> set rs2. fits_buffer maxPkg r" and "partial p rs2"
    and "length (concat (map bits rs1) @ p) \<le> bufferLen" and "deliver_all rs1 ck = Some ck'"
  shows "\<exists>junk'. processBuffer maxPkg (concat (map bits rs1) @ p @ junk) (int (length (concat (map bits rs1) @ p))) ck =
      Some (p @ junk', int (length p), ck') \<and>
    length (p @ junk') = length (concat (map bits rs1) @ p @ junk)"
  using assms
proof (induction rs1 arbitrary: junk ck)
  case Nil
  show ?case
  proof (cases "p = []")
    case True
    with Nil show ?thesis by (simp add: processBuffer.simps)
  next
    case False
    with Nil obtain r rs' q where "rs2 = r # rs'" "bits r = p @ q" "q \<noteq> []" by (auto simp: partial_def)
    with Nil processBuffer_part [of maxPkg r p q junk ck] show ?thesis by simp
  qed
next
  case (Cons r rs1)
  let ?p = "concat (map bits rs1) @ p"
  let ?j = "drop (length ?p) (bits r @ ?p @ junk)"
  from Cons.prems(4) obtain k where k: "deliver r ck = Some k" "deliver_all rs1 k = Some ck'"
    by (auto simp: bind_eq_Some_conv)
  have "processBuffer maxPkg (concat (map bits (r # rs1)) @ p @ junk) (int (length (concat (map bits (r # rs1)) @ p))) ck =
      processBuffer maxPkg (?p @ ?j) (int (length ?p)) k"
    using processBuffer_message [of maxPkg r ?p junk ck] Cons.prems(1,3) k(1) by simp
  moreover obtain junk' where "processBuffer maxPkg (?p @ ?j) (int (length ?p)) k = Some (p @ junk', int (length p), ck')"
    "length (p @ junk') = length (?p @ ?j)"
    using Cons.IH [of k ?j] Cons.prems k(2) by auto
  moreover have "length (?p @ ?j) = length (concat (map bits (r # rs1)) @ p @ junk)"
    by (simp del: drop_append)
  ultimately show ?case by (intro exI [of _ junk']) (simp del: drop_append length_append)
qed

section \<open>The channels\<close>

text \<open>Every request that waits has an empty, open channel of its own.\<close>

definition clerk_ok :: "Clerk \<Rightarrow> bool" where
  "clerk_ok ck \<longleftrightarrow>
     (\<forall>i ch. ck_responseCh ck i = Some ch \<longrightarrow> ck_chans ck ch = Some \<lparr>rc_content = [], rc_closed = False\<rparr>) \<and>
     (\<forall>i j ch. ck_responseCh ck i = Some ch \<and> ck_responseCh ck j = Some ch \<longrightarrow> i = j)"

lemma deliver_returns:
  assumes "clerk_ok ck"
  shows "\<exists>ck'. deliver r ck = Some ck' \<and> clerk_ok ck'"
proof (cases "BodyPack_Unpack (sr_Data r)")
  case (Inl e)
  with assms show ?thesis by (simp add: deliver_def processResponse_def)
next
  case (Inr body)
  show ?thesis
  proof (cases "ck_responseCh ck (sr_IncrId r)")
    case None
    with Inr assms show ?thesis by (simp add: deliver_def processResponse_def)
  next
    case (Some ch)
    then have "ck_chans ck ch = Some \<lparr>rc_content = [], rc_closed = False\<rparr>"
      using assms by (simp add: clerk_ok_def)
    moreover have "\<forall>i. i \<noteq> sr_IncrId r \<longrightarrow> ck_responseCh ck i \<noteq> Some ch"
      using Some assms by (auto simp: clerk_ok_def)
    ultimately show ?thesis
      using Inr Some assms by (auto simp: deliver_def processResponse_def clerk_ok_def)
  qed
qed

lemma deliver_all_returns: "clerk_ok ck \<Longrightarrow> \<exists>ck'. deliver_all rs ck = Some ck' \<and> clerk_ok ck'"
proof (induction rs arbitrary: ck)
  case (Cons r rs)
  then show ?case using deliver_returns [of ck r] by (auto simp: bind_eq_Some_conv)
qed simp

lemma deliver_append: "deliver_all (rs1 @ rs2) ck = do { ck1 \<leftarrow> deliver_all rs1 ck; deliver_all rs2 ck1 }"
proof (induction rs1 arbitrary: ck)
  case (Cons r rs1)
  then show ?case by (cases "deliver r ck") simp_all
qed simp

abbreviation with_buffer :: "bytes \<Rightarrow> int \<Rightarrow> Clerk \<Rightarrow> Clerk" where
  "with_buffer b n ck \<equiv> ck\<lparr>ck_getBuffer := b, ck_getOffset := n\<rparr>"

lemma deliver_buffer: "deliver r (with_buffer b n ck) = map_option (with_buffer b n) (deliver r ck)"
  by (cases "BodyPack_Unpack (sr_Data r)"; cases "ck_responseCh ck (sr_IncrId r)";
      cases "ck_chans ck (the (ck_responseCh ck (sr_IncrId r)))") (auto simp: deliver_def processResponse_def)

lemma deliver_all_buffer: "deliver_all rs (with_buffer b n ck) = map_option (with_buffer b n) (deliver_all rs ck)"
proof (induction rs arbitrary: ck)
  case (Cons r rs)
  then show ?case by (cases "deliver r ck") (simp_all add: deliver_buffer)
qed simp

section \<open>Receiving\<close>

definition holds_bytes :: "Clerk \<Rightarrow> bytes \<Rightarrow> bool" where
  "holds_bytes ck p \<longleftrightarrow> length (ck_getBuffer ck) = bufferLen \<and> ck_getOffset ck = int (length p) \<and>
     take (length p) (ck_getBuffer ck) = p"

lemma partial_room:
  assumes "partial p rs" and "\<forall>r \<in> set rs. fits_buffer maxPkg r"
  shows "length p < bufferLen"
proof (cases "p = []")
  case False
  with assms obtain r q where r: "fits_buffer maxPkg r" "bits r = p @ q" "q \<noteq> []" by (auto simp: partial_def)
  have "length p < length (bits r)" using r(2,3) by (simp del: bits_length)
  with r(1) show ?thesis by (simp add: fits_buffer_def)
qed (simp add: bufferLen_def)

lemma receive_step:
  assumes "holds_bytes ck p" and "p @ s = concat (map bits rs)" and "\<forall>r \<in> set rs. fits_buffer maxPkg r"
    and "partial p rs" and "clerk_ok ck"
  shows "\<exists>rs1 rs2 p' left ckd b. receiveGetResponse maxPkg (take n s) ck =
       Some (left, with_buffer b (int (length p')) ckd) \<and>
     rs = rs1 @ rs2 \<and> deliver_all rs1 ck = Some ckd \<and> clerk_ok ckd \<and> length b = bufferLen \<and> take (length p') b = p' \<and>
     p' @ left @ drop n s = concat (map bits rs2) \<and> partial p' rs2 \<and>
     length (left @ drop n s) \<le> length s \<and> (0 < n \<and> s \<noteq> [] \<longrightarrow> length (left @ drop n s) < length s)"
proof -
  define room where "room = drop (length p) (ck_getBuffer ck)"
  define m where "m = min (length room) (length (take n s))"
  define q where "q = p @ take m (take n s)"
  define left where "left = drop m (take n s)"
  define junk where "junk = drop (length (take m (take n s))) room"
  have len: "length room = bufferLen - length p" "length p < bufferLen" "length (ck_getBuffer ck) = bufferLen"
    using assms(1) partial_room [OF assms(4,3)] by (simp_all add: holds_bytes_def room_def)
  have "q @ left @ drop n s = concat (map bits rs)"
    unfolding q_def left_def using assms(2) by (metis append.assoc append_take_drop_id)
  then obtain rs1 rs2 p' where split: "rs = rs1 @ rs2" "q = concat (map bits rs1) @ p'"
      "p' @ left @ drop n s = concat (map bits rs2)" "partial p' rs2"
    using split_stream [of q "left @ drop n s" rs] by blast
  obtain ckd where ckd: "deliver_all rs1 ck = Some ckd" "clerk_ok ckd"
    using deliver_all_returns [OF assms(5)] by blast
  define b where "b = p @ copy room (take m (take n s))"
  have b: "b = q @ junk" by (simp add: b_def q_def junk_def copy_short m_def)
  have lb: "length b = bufferLen" using len by (simp add: b_def copy_def m_def)
  then have lq: "length (concat (map bits rs1) @ p') \<le> bufferLen" using b split(2) by simp
  have "deliver_all rs1 (with_buffer b (int (length q)) ck) = Some (with_buffer b (int (length q)) ckd)"
    by (simp add: deliver_all_buffer ckd)
  from processBuffer_stream [OF _ split(4) lq this, of maxPkg junk] assms(3) split(1) obtain junk' where
    run: "processBuffer maxPkg b (int (length q)) (with_buffer b (int (length q)) ck) =
      Some (p' @ junk', int (length p'), with_buffer b (int (length q)) ckd)" and lj: "length (p' @ junk') = length b"
    unfolding b split(2) by auto
  have "slice_from (ck_getBuffer ck) (ck_getOffset ck) = Some room"
    "take (nat (ck_getOffset ck)) (ck_getBuffer ck) = p" "ck_getOffset ck + int m = int (length q)"
    using assms(1) len by (auto simp: slice_from_def holds_bytes_def room_def q_def m_def)
  with run have "receiveGetResponse maxPkg (take n s) ck = Some (left, with_buffer (p' @ junk') (int (length p')) ckd)"
    by (simp add: receiveGetResponse_def processGetBuffer_def b_def left_def m_def)
  moreover have m: "m \<le> min n (length s)" "0 < n \<and> s \<noteq> [] \<longrightarrow> 0 < m"
    using len by (auto simp: m_def)
  then have "length (left @ drop n s) = length s - m" by (auto simp: left_def)
  with m have "length (left @ drop n s) \<le> length s" "0 < n \<and> s \<noteq> [] \<longrightarrow> length (left @ drop n s) < length s"
    by auto
  moreover have "length (p' @ junk') = bufferLen" "take (length p') (p' @ junk') = p'" using lb lj by simp_all
  ultimately show ?thesis
    using split(1,3,4) ckd by blast
qed

text \<open>Reads of at most \<open>n\<close> bytes each from what is left of the stream.\<close>

fun feed :: "32 word \<Rightarrow> nat list \<Rightarrow> bytes \<Rightarrow> Clerk \<Rightarrow> (bytes \<times> Clerk) option" where
  "feed maxPkg [] s ck = Some (s, ck)"
| "feed maxPkg (n # ns) s ck = do {
     (left, ck1) \<leftarrow> receiveGetResponse maxPkg (take n s) ck;
     feed maxPkg ns (left @ drop n s) ck1
   }"

lemma clerk_ok_buffer: "clerk_ok (with_buffer b n ck) = clerk_ok ck"
  by (simp add: clerk_ok_def)

lemma feed_delivers:
  assumes "holds_bytes ck p" and "p @ s = concat (map bits rs)" and "\<forall>r \<in> set rs. fits_buffer maxPkg r"
    and "partial p rs" and "clerk_ok ck" and "\<forall>n \<in> set ns. 0 < n"
  shows "\<exists>rs1 rs2 p' s' ckd b. feed maxPkg ns s ck = Some (s', with_buffer b (int (length p')) ckd) \<and>
     rs = rs1 @ rs2 \<and> deliver_all rs1 ck = Some ckd \<and> p' @ s' = concat (map bits rs2) \<and> partial p' rs2 \<and>
     length s' \<le> length s - length ns"
  using assms
proof (induction ns arbitrary: ck p s rs)
  case Nil
  have "ck = with_buffer (ck_getBuffer ck) (int (length p)) ck" using Nil.prems(1) by (simp add: holds_bytes_def)
  then have "feed maxPkg [] s ck = Some (s, with_buffer (ck_getBuffer ck) (int (length p)) ck)" by simp
  moreover have "rs = [] @ rs" "deliver_all [] ck = Some ck" "length s \<le> length s - length []" by simp_all
  ultimately show ?case using Nil.prems(2,4) by blast
next
  case (Cons n ns)
  obtain rs1 rs2 p' left ckd b where step:
      "receiveGetResponse maxPkg (take n s) ck = Some (left, with_buffer b (int (length p')) ckd)"
      "rs = rs1 @ rs2" "deliver_all rs1 ck = Some ckd" "clerk_ok ckd" "length b = bufferLen" "take (length p') b = p'"
      "p' @ left @ drop n s = concat (map bits rs2)" "partial p' rs2"
      "length (left @ drop n s) \<le> length s" "0 < n \<and> s \<noteq> [] \<longrightarrow> length (left @ drop n s) < length s"
    using receive_step [OF Cons.prems(1-5), of n] by blast
  let ?k = "with_buffer b (int (length p')) ckd"
  have pre: "holds_bytes ?k p'" "\<forall>r \<in> set rs2. fits_buffer maxPkg r" "clerk_ok ?k" "\<forall>n \<in> set ns. 0 < n"
    using step Cons.prems(3,6) by (simp_all add: holds_bytes_def clerk_ok_buffer)
  obtain rs3 rs4 p'' s' ck'' b'' where rest:
      "feed maxPkg ns (left @ drop n s) ?k = Some (s', with_buffer b'' (int (length p'')) ck'')"
      "rs2 = rs3 @ rs4" "deliver_all rs3 ?k = Some ck''" "p'' @ s' = concat (map bits rs4)" "partial p'' rs4"
      "length s' \<le> length (left @ drop n s) - length ns"
    using Cons.IH [OF pre(1) step(7) pre(2) step(8) pre(3,4)] by blast
  obtain ck3 where ck3: "deliver_all rs3 ckd = Some ck3" "ck'' = with_buffer b (int (length p')) ck3"
    using rest(3) by (auto simp: deliver_all_buffer)
  have "length s' \<le> length s - length (n # ns)"
    using rest(6) step(9,10) Cons.prems(6) by (cases "s = []") auto
  moreover have "feed maxPkg (n # ns) s ck = Some (s', with_buffer b'' (int (length p'')) ck3)"
    using step(1) rest(1) ck3(2) by simp
  moreover have "rs = (rs1 @ rs3) @ rs4" "deliver_all (rs1 @ rs3) ck = Some ck3"
    using step rest ck3 by (simp_all add: deliver_append)
  ultimately show ?case using rest(4,5) by blast
qed

section \<open>Properties\<close>

definition answered :: "ServerResponse \<Rightarrow> Clerk \<Rightarrow> nat \<Rightarrow> bool" where
  "answered r ck ch \<longleftrightarrow> (\<exists>body. BodyPack_Unpack (sr_Data r) = Inr body \<and>
     ck_chans ck ch = Some \<lparr>rc_content = [\<lparr>rs_ErrId = sr_Err r, rs_Bbody = body\<rparr>], rc_closed = True\<rparr>)"

lemma deliver_keeps:
  assumes "deliver r ck = Some ck'" and "sr_IncrId r \<noteq> i"
  shows "ck_responseCh ck' i = ck_responseCh ck i"
    and "ck_responseCh ck (sr_IncrId r) \<noteq> Some ch \<Longrightarrow> ck_chans ck' ch = ck_chans ck ch"
  using assms
  by (auto simp: deliver_def processResponse_def bind_eq_Some_conv split: sum.splits option.splits if_splits)

lemma deliver_answers:
  assumes "clerk_ok ck" and "deliver r ck = Some ck'" and "ck_responseCh ck (sr_IncrId r) = Some ch"
    and "\<exists>body. BodyPack_Unpack (sr_Data r) = Inr body"
  shows "answered r ck' ch \<and> (\<forall>i. ck_responseCh ck' i \<noteq> Some ch)"
  using assms
  by (auto simp: deliver_def processResponse_def clerk_ok_def answered_def split: if_splits)

lemma deliver_all_keeps:
  assumes "deliver_all rs ck = Some ck'" and "\<forall>i. ck_responseCh ck i \<noteq> Some ch"
  shows "ck_chans ck' ch = ck_chans ck ch"
  using assms
proof (induction rs arbitrary: ck)
  case (Cons r rs)
  then obtain k where k: "deliver r ck = Some k" "deliver_all rs k = Some ck'" by (auto simp: bind_eq_Some_conv)
  have "\<forall>i. ck_responseCh k i \<noteq> Some ch" "ck_chans k ch = ck_chans ck ch"
    using k(1) Cons.prems(2)
    by (auto simp: deliver_def processResponse_def bind_eq_Some_conv split: sum.splits option.splits if_splits)
  with Cons.IH [OF k(2)] show ?case by simp
qed simp

lemma deliver_all_answers:
  assumes "clerk_ok ck" and "deliver_all rs ck = Some ck'" and "distinct (map sr_IncrId rs)"
    and "r \<in> set rs" and "ck_responseCh ck (sr_IncrId r) = Some ch" and "\<exists>body. BodyPack_Unpack (sr_Data r) = Inr body"
  shows "answered r ck' ch"
  using assms
proof (induction rs arbitrary: ck)
  case (Cons x rs)
  then obtain k where k: "deliver x ck = Some k" "deliver_all rs k = Some ck'" by (auto simp: bind_eq_Some_conv)
  show ?case
  proof (cases "x = r")
    case True
    with deliver_answers [OF Cons.prems(1) k(1)] Cons.prems(5,6) deliver_all_keeps [OF k(2), of ch] show ?thesis
      by (auto simp: answered_def)
  next
    case False
    with Cons.prems(3,4) have "sr_IncrId x \<noteq> sr_IncrId r" "r \<in> set rs" "distinct (map sr_IncrId rs)" by auto
    with deliver_keeps(1) [OF k(1)] deliver_returns [OF Cons.prems(1), of x] k Cons.prems(5,6) Cons.IH [of k]
    show ?thesis by auto
  qed
qed simp

lemma feed_answers:
  assumes "clerk_ok ck" and "holds_bytes ck []" and "\<forall>r \<in> set rs. fits_buffer maxPkg r"
    and "\<forall>n \<in> set ns. 0 < n" and "length (concat (map bits rs)) \<le> length ns"
    and "distinct (map sr_IncrId rs)" and "\<forall>r \<in> set rs. \<exists>body. BodyPack_Unpack (sr_Data r) = Inr body"
  shows "\<exists>ck'. feed maxPkg ns (concat (map bits rs)) ck = Some ([], ck') \<and> ck_getOffset ck' = 0 \<and>
     (\<forall>r \<in> set rs. \<forall>ch. ck_responseCh ck (sr_IncrId r) = Some ch \<longrightarrow> answered r ck' ch)"
proof -
  obtain rs1 rs2 p' s' ckd b where run:
      "feed maxPkg ns (concat (map bits rs)) ck = Some (s', with_buffer b (int (length p')) ckd)"
      "rs = rs1 @ rs2" "deliver_all rs1 ck = Some ckd" "p' @ s' = concat (map bits rs2)" "partial p' rs2"
      "length s' \<le> length (concat (map bits rs)) - length ns"
    using feed_delivers [OF assms(2) append_Nil assms(3) _ assms(1,4)] by (fastforce simp: partial_def)
  then have "s' = []" using assms(5) by simp
  have "rs2 = []"
  proof (rule ccontr)
    assume "rs2 \<noteq> []"
    then obtain r rest where r: "rs2 = r # rest" by (cases rs2) auto
    with run(4) \<open>s' = []\<close> have "length (bits r) \<le> length p'" by (auto simp del: bits_length)
    moreover have "length p' < length (bits r)"
    proof (cases "p' = []")
      case False
      with run(5) r show ?thesis by (auto simp: partial_def simp del: bits_length)
    qed simp
    ultimately show False by simp
  qed
  with run(4) \<open>s' = []\<close> have "p' = []" by simp
  have "answered r (with_buffer b 0 ckd) ch" if "r \<in> set rs" "ck_responseCh ck (sr_IncrId r) = Some ch" for r ch
    using deliver_all_answers [OF assms(1) run(3)] assms(6,7) that run(2) \<open>rs2 = []\<close> by (simp add: answered_def)
  with run(1) \<open>s' = []\<close> \<open>p' = []\<close> show ?thesis by auto
qed


definition sample_clerk :: Clerk where
  "sample_clerk = \<lparr>ck_clerkId = 101, ck_connections = [GET \<mapsto> 1, PUT \<mapsto> 2, APPEND \<mapsto> 2], ck_maxRetryTime = 1,
     ck_putOffset = 0, ck_getOffset = 0, ck_putBuffer = replicate bufferLen 0,
     ck_getBuffer = replicate bufferLen 0, ck_responseCh = [7 \<mapsto> 0],
     ck_chans = [0 \<mapsto> \<lparr>rc_content = [], rc_closed = False\<rparr>], ck_dead = False\<rparr>"

lemma sample_clerk_ok: "clerk_ok sample_clerk" "holds_bytes sample_clerk []"
  by (auto simp: clerk_ok_def holds_bytes_def sample_clerk_def split: if_splits)

lemma sample_response: "fits_buffer 4096 (OpToResp sample_op 200)" "\<exists>body. BodyPack_Unpack (sr_Data (OpToResp sample_op 200)) = Inr body"
  by (simp_all add: fits_buffer_def OpToResp_def op_body_length sample_op_def within_limit_def bufferLen_def Let_def
      BodyPack_roundtrip unat_of_nat32)


text \<open>
  A response that does not fit into the buffer stops the client: once the buffer is full, a
  read takes nothing and changes nothing, however often it is repeated.
\<close>

theorem oversized_response_stalls:
  assumes "length (ck_getBuffer ck) = bufferLen" and "ck_getOffset ck = int bufferLen"
    and "take bufferLen (bits r) = ck_getBuffer ck" and "bufferLen < 28 + unat (sr_DataLen r)"
    and "unat (sr_DataLen r) + 28 < 2 ^ 32"
  shows "receiveGetResponse maxPkg chunk ck = Some (chunk, ck)"
proof -
  have "ck_getBuffer ck = header r @ take (bufferLen - 28) (sr_Data r)"
    unfolding assms(3) [symmetric] by (simp add: bits_def bufferLen_def)
  then have "slice_mid (ck_getBuffer ck) 4 8 = Some (write_u32 (sr_DataLen r))"
    by (simp add: dataLen_bytes)
  moreover have "(of_int (int bufferLen) :: 32 word) < sr_DataLen r + 28"
    using off_word [of bufferLen] assms(4,5) by (simp add: word_less_nat_alt unat_word_ariths)
  ultimately have "processBuffer maxPkg (ck_getBuffer ck) (int bufferLen) ck = Some (ck_getBuffer ck, int bufferLen, ck)"
    by (subst processBuffer.simps) (simp add: bufferLen_def)
  moreover have "slice_from (ck_getBuffer ck) (ck_getOffset ck) = Some []"
    using assms(1,2) by (simp add: slice_from_def)
  moreover have eq: "ck\<lparr>ck_getOffset := int bufferLen\<rparr> = ck" using assms(2) by (cases ck) simp
  ultimately show ?thesis
    using assms(1,2) by (simp add: receiveGetResponse_def processGetBuffer_def copy_def eq)
qed

definition large_response :: ServerResponse where
  "large_response = empty_resp\<lparr>sr_DataLen := 3000, sr_Data := replicate 3000 0\<rparr>"

theorem oversized_response_stalls_witness:
  "receiveGetResponse 4096 [1, 2, 3] (sample_clerk\<lparr>ck_getBuffer := take bufferLen (bits large_response), ck_getOffset := int bufferLen\<rparr>) =
     Some ([1, 2, 3], sample_clerk\<lparr>ck_getBuffer := take bufferLen (bits large_response), ck_getOffset := int bufferLen\<rparr>)"
  by (rule oversized_response_stalls [of _ large_response])
     (simp_all add: large_response_def empty_resp_def bufferLen_def del: take_replicate)

text \<open>
  The length of a message is computed in 32 bits. A header that announces so many bytes that
  the sum wraps passes the test for a complete message and ends the process.
\<close>

theorem wrapped_length_panics:
  assumes "28 \<le> n" and "n \<le> bufferLen" and "2 ^ 32 - 28 \<le> unat (sr_DataLen r)"
  shows "processBuffer maxPkg (header r @ xs) (int n) ck = None"
proof -
  have lt: "unat (sr_DataLen r) < 2 ^ 32" using unsigned_less [of "sr_DataLen r"] by simp
  have "unat (sr_DataLen r + 28) = (unat (sr_DataLen r) + 28) mod 2 ^ 32"
    by (simp add: unat_word_ariths)
  also have "\<dots> = unat (sr_DataLen r) + 28 - 2 ^ 32"
    using lt assms(3) by (subst le_mod_geq) simp_all
  finally have small: "unat (sr_DataLen r + 28) < 28" using lt by linarith
  then have "\<not> (of_int (int n) :: 32 word) < sr_DataLen r + 28"
    using off_word [OF assms(2)] assms(1) by (simp add: word_less_nat_alt)
  moreover have "uint (sr_DataLen r + 28) < 28"
    using small uint_nat [of "sr_DataLen r + 28"] by linarith
  then have "slice_mid (header r @ xs) 28 (uint (sr_DataLen r + 28)) = None"
    by (simp add: slice_mid_def)
  ultimately show ?thesis
    using assms(1)
    by (subst processBuffer.simps, cases "SerRespPack_Unpack maxPkg (header r)")
       (simp_all add: dataLen_bytes slice_to_def split: IMessage.split)
qed

theorem wrapped_length_panics_witness:
  "processBuffer 0 (header (empty_resp\<lparr>sr_DataLen := 4294967295\<rparr>) @ replicate 2020 0) 100 sample_clerk = None"
  using wrapped_length_panics [of 100 "empty_resp\<lparr>sr_DataLen := 4294967295\<rparr>" 0 "replicate 2020 0" sample_clerk]
  by (simp add: bufferLen_def)

text \<open>
  If no attempt of a request is answered, \<^verbatim>\<open>Get\<close> and \<^verbatim>\<open>Put\<close> return the error of the last attempt;
  \<^verbatim>\<open>Append\<close> looks at the missing result first and ends the process.
\<close>

theorem timeout_outcomes:
  assumes "ws \<noteq> []" and "Answer \<notin> set ws"
  shows "\<exists>e. attempts op ch ws lastErr ck = Some ((None, Some e), ck) \<and>
     Get_result (None, Some e) = Some ([], Some (RequestErr e)) \<and>
     Put_result (None, Some e) = Some (Some (RequestErr e)) \<and> Append_result (None, Some e) = None"
proof -
  have "\<exists>e. attempts op ch ws lastErr ck = Some ((None, Some e), ck)"
    using assms
  proof (induction ws arbitrary: lastErr)
    case (Cons w ws)
    have "\<exists>e. attempts op ch (w # ws) lastErr ck = attempts op ch ws (Some e) ck"
      using Cons.prems by (cases w) (auto split: sum.split)
    with Cons show ?case by (cases "ws = []") auto
  qed simp
  then show ?thesis by (auto simp: Get_result_def Put_result_def Append_result_def deref_def)
qed

theorem timeout_outcomes_witness:
  "attempts APPEND 0 [Timeout] None sample_clerk = Some ((None, Some TimedOut), sample_clerk) \<and>
     Append_result (None, Some TimedOut) = None"
  using timeout_outcomes [of "[Timeout]" APPEND 0 None sample_clerk]
  by (auto simp: sendRequest_def sample_clerk_def split: if_splits)

end
