(* ===== verification/ClusterMg.thy ===== *)
theory ClusterMg
  imports Common Wire
begin

text \<open>
  The cluster manager of \<^verbatim>\<open>src/server/clustermg.go\<close>: it takes requests from the proxy, picks a node
  for each, passes the responses back and keeps the state of the nodes.

  One definition is one round of the loop of a goroutine. The queues are the contents of the
  channels. A connection is a number. \<open>cu_Weights\<close> lists the entries of the map in the order in
  which an iteration visits them. Weights are 32 bit integers with the wrap-around of the
  language; values of \<^verbatim>\<open>rand\<close> are arguments. \<open>dial\<close> is the result of opening a connection.
\<close>

section \<open>State\<close>

record AdjustOp =
  ao_Id :: "32 word"
  ao_Value :: "32 word"

record Node =
  nd_CommitIndex :: "64 word"
  nd_IsLeader :: bool
  nd_Port :: "32 word"
  nd_Ip :: bytes

record Cluster =
  cu_Nodes :: "32 word \<rightharpoonup> Node"
  cu_Weights :: "(32 word, 32 word) gomap"
  cu_AdjustCh :: "AdjustOp list"
  cu_PickMode :: "32 word"
  cu_LeaderId :: "32 word"
  cu_dead :: bool
  cu_Conns :: "32 word \<rightharpoonup> nat"
  cu_ProxyConns :: "32 word \<rightharpoonup> nat"
  cu_SendQue :: "ClientMessage list"
  cu_RespQue :: "ServerResponse list"
  cu_FailQue :: "ServerResponse list"
  cu_closed :: bool

definition MaxAdjustTime :: int where "MaxAdjustTime = 100000"
definition MeanWeight :: "32 word" where "MeanWeight = 10000000"
definition WEIGHT :: "32 word" where "WEIGHT = 0"
definition RANDOM :: "32 word" where "RANDOM = 1"
definition LOG :: "32 word" where "LOG = 2"

definition NewCluster :: Cluster where
  "NewCluster = \<lparr>cu_Nodes = Map.empty, cu_Weights = [], cu_AdjustCh = [], cu_PickMode = WEIGHT, cu_LeaderId = 0,
     cu_dead = False, cu_Conns = Map.empty, cu_ProxyConns = Map.empty, cu_SendQue = [], cu_RespQue = [],
     cu_FailQue = [], cu_closed = False\<rparr>"

definition SetPickMod :: "32 word \<Rightarrow> Cluster \<Rightarrow> Cluster" where
  "SetPickMod m cu =
     cu\<lparr>cu_PickMode := (if m = RANDOM \<or> m = LOG \<or> m = WEIGHT then m else WEIGHT)\<rparr>"

definition adjust :: "32 word \<Rightarrow> 32 word \<Rightarrow> Cluster \<Rightarrow> Cluster" where
  "adjust i v cu = cu\<lparr>cu_AdjustCh := cu_AdjustCh cu @ [\<lparr>ao_Id = i, ao_Value = v\<rparr>]\<rparr>"

section \<open>Weights\<close>

text \<open>Division of 32 bit integers, rounded towards zero.\<close>

definition sdiv32 :: "32 word \<Rightarrow> 32 word \<Rightarrow> 32 word" where
  "sdiv32 a b = of_int (go_div (sint a) (sint b))"

definition totalWeight :: "(32 word, 32 word) gomap \<Rightarrow> 32 word" where
  "totalWeight ws = sum_list (map snd ws)"

definition balanced :: "32 word \<Rightarrow> 32 word \<Rightarrow> 32 word" where
  "balanced avgWeight v =
     (let v1 = v + (MeanWeight - avgWeight) in v1 + sdiv32 (v1 - MeanWeight) 2)"

text \<open>The division by the number of weights panics if there are none.\<close>

definition balanceWeight :: "Cluster \<Rightarrow> Cluster option" where
  "balanceWeight cu =
     (if (of_nat (length (cu_Weights cu)) :: 32 word) = 0 then None
      else (let avgWeight = sdiv32 (totalWeight (cu_Weights cu)) (of_nat (length (cu_Weights cu)))
            in Some (cu\<lparr>cu_Weights := map (\<lambda>(i, v). (i, balanced avgWeight v)) (cu_Weights cu)\<rparr>)))"

text \<open>\<^verbatim>\<open>adjustWeight\<close>; \<open>count\<close> is its counter.\<close>

definition adjustWeight :: "int \<Rightarrow> Cluster \<Rightarrow> (int \<times> Cluster) option" where
  "adjustWeight count cu = (case cu_AdjustCh cu of
       [] \<Rightarrow> Some (count, cu)
     | op # q \<Rightarrow> do {
         let cu0 = cu\<lparr>cu_AdjustCh := q\<rparr>;
         (count1, cu1) \<leftarrow> (if count + 1 > MaxAdjustTime
                           then do { c \<leftarrow> balanceWeight cu0; Some (0, c) } else Some (count + 1, cu0));
         let w = (case map_of (cu_Weights cu1) (ao_Id op) of
             None \<Rightarrow> MeanWeight + ao_Value op | Some weight \<Rightarrow> weight + ao_Value op);
         Some (count1, cu1\<lparr>cu_Weights := gm_put (ao_Id op) w (cu_Weights cu1)\<rparr>)
       })"

section \<open>Picking a node\<close>

fun pickWeight :: "(32 word, 32 word) gomap \<Rightarrow> 32 word \<Rightarrow> 32 word \<Rightarrow> 32 word" where
  "pickWeight [] pickedWeight selectId = selectId"
| "pickWeight ((i, v) # ws) pickedWeight selectId =
     (let p = pickedWeight - v in if sint p \<le> 0 then i else pickWeight ws p selectId)"

fun randomPass :: "32 word \<Rightarrow> 32 word list \<Rightarrow> int \<Rightarrow> 32 word \<Rightarrow> int \<times> 32 word" where
  "randomPass leader [] n selectId = (n, selectId)"
| "randomPass leader (i # is) n selectId =
     (if i = leader then randomPass leader is n selectId
      else if n - 1 < 1 then (n - 1, i) else randomPass leader is (n - 1) i)"

lemma randomPass_le: "fst (randomPass leader is n s) \<le> n"
  by (induction leader "is" n s rule: randomPass.induct) auto

lemma randomPass_less:
  "i \<in> set is \<Longrightarrow> i \<noteq> leader \<Longrightarrow> fst (randomPass leader is n s) < n"
proof (induction leader "is" n s rule: randomPass.induct)
  case (2 leader j js n s)
  then show ?case using randomPass_le [of leader js "n - 1" j] by (cases "j = leader") auto
qed simp

text \<open>The outer loop; with no node but the leader it never ends.\<close>

function pickRandom :: "32 word \<Rightarrow> 32 word list \<Rightarrow> int \<Rightarrow> 32 word \<Rightarrow> 32 word option" where
  "pickRandom leader is n selectId =
     (if n \<le> 0 then Some selectId
      else if \<forall>i \<in> set is. i = leader then None
      else (case randomPass leader is n selectId of (n', s) \<Rightarrow> pickRandom leader is n' s))"
  by pat_completeness auto
termination
proof (relation "measure (\<lambda>(leader, is, n, s). nat n)", goal_cases)
  case (2 leader "is" n s n' s')
  then obtain i where "i \<in> set is" "i \<noteq> leader" by blast
  from randomPass_less [OF this, of n s] 2 have "n' < n" by (metis fst_conv)
  with 2(1) show ?case by auto
qed simp

declare pickRandom.simps [simp del]

text \<open>
  \<^verbatim>\<open>pick\<close>: \<open>r\<close> is the value of the random number, which \<^verbatim>\<open>rand\<close> does not give for a bound that is not
  positive. In the mode \<open>LOG\<close> the function locks the mutex that it holds and waits forever.
\<close>

definition pick :: "32 word \<Rightarrow> int \<Rightarrow> Cluster \<Rightarrow> 32 word option" where
  "pick op r cu =
     (if op = GET then
        (if cu_PickMode cu = WEIGHT then
           (if sint (totalWeight (cu_Weights cu)) \<le> 0 then None
            else Some (pickWeight (cu_Weights cu) (of_int r) (cu_LeaderId cu)))
         else if cu_PickMode cu = RANDOM then
           (if cu_Weights cu = [] then None
            else pickRandom (cu_LeaderId cu) (map fst (cu_Weights cu)) r (cu_LeaderId cu))
         else if cu_PickMode cu = LOG then None
         else Some (cu_LeaderId cu))
      else Some (cu_LeaderId cu))"

section \<open>Requests and responses\<close>

definition connectToNode :: "nat option \<Rightarrow> 32 word \<Rightarrow> Cluster \<Rightarrow> bool \<times> Cluster" where
  "connectToNode dial i cu = (case cu_Nodes cu i of
       None \<Rightarrow> (False, cu)
     | Some _ \<Rightarrow> (case dial of
           None \<Rightarrow> (False, cu)
         | Some conn \<Rightarrow> (True, cu\<lparr>cu_Conns := (cu_Conns cu)(i \<mapsto> conn)\<rparr>)))"

text \<open>
  \<^verbatim>\<open>procSendQue\<close>: one round of the inner loop for the message \<open>msg\<close>. \<open>Again\<close> is a further round;
  otherwise the message is done with, and the bytes written, if any, are returned with the
  connection. A failed write is only logged.
\<close>

datatype send_step = Again Cluster | Done "(nat \<times> bytes) option" Cluster

definition sendOn :: "nat \<Rightarrow> 32 word \<Rightarrow> ClientMessage \<Rightarrow> Cluster \<Rightarrow> send_step" where
  "sendOn conn selectId msg cu = (case ClientDataPack_Pack (IClient msg) of
       Inl e \<Rightarrow> Done None cu
     | Inr bitData \<Rightarrow> Done (Some (conn, bitData)) (adjust selectId (-1) cu))"

definition procSendQue_try :: "int \<Rightarrow> nat option \<Rightarrow> ClientMessage \<Rightarrow> Cluster \<Rightarrow> send_step option" where
  "procSendQue_try r dial msg cu = do {
     selectId \<leftarrow> pick (cm_OpId msg) r cu;
     (case cu_Conns cu selectId of
        Some conn \<Rightarrow> Some (sendOn conn selectId msg cu)
      | None \<Rightarrow> (case connectToNode dial selectId cu of
            (False, cu1) \<Rightarrow> Some (Again cu1)
          | (True, cu1) \<Rightarrow> do {
              conn \<leftarrow> cu_Conns cu1 selectId;
              Some (sendOn conn selectId msg cu1)
            }))
   }"

text \<open>The whole round, with the random numbers and connections of its attempts; \<open>None\<close> if they do not suffice.\<close>

fun procSendQue_loop :: "(int \<times> nat option) list \<Rightarrow> ClientMessage \<Rightarrow> Cluster \<Rightarrow>
    ((nat \<times> bytes) option \<times> Cluster) option" where
  "procSendQue_loop [] msg cu = None"
| "procSendQue_loop ((r, dial) # rs) msg cu = do {
     s \<leftarrow> procSendQue_try r dial msg cu;
     (case s of Done out cu1 \<Rightarrow> Some (out, cu1) | Again cu1 \<Rightarrow> procSendQue_loop rs msg cu1)
   }"

definition procSendQue :: "(int \<times> nat option) list \<Rightarrow> Cluster \<Rightarrow> ((nat \<times> bytes) option \<times> Cluster) option" where
  "procSendQue rs cu = (case cu_SendQue cu of
       [] \<Rightarrow> Some (None, cu)
     | msg # q \<Rightarrow> procSendQue_loop rs msg (cu\<lparr>cu_SendQue := q\<rparr>))"

definition procRespQue :: "Cluster \<Rightarrow> (nat \<times> bytes) option \<times> Cluster" where
  "procRespQue cu = (case cu_RespQue cu of
       [] \<Rightarrow> (None, cu)
     | resp # q \<Rightarrow>
         (let cu1 = cu\<lparr>cu_RespQue := q\<rparr> in
          case cu_ProxyConns cu1 (sr_ClerkId resp) of
            None \<Rightarrow> (None, cu1)
          | Some conn \<Rightarrow> (case RespToBinary resp of
                Inl e \<Rightarrow> (None, cu1)
              | Inr bitData \<Rightarrow> (Some (conn, bitData), cu1))))"

text \<open>
  \<^verbatim>\<open>procFailedReq\<close>: a \<^verbatim>\<open>case\<close> without statements does nothing. A request that is sent again is put in
  the queue at once or, if the leader is still the node that failed, after 800 milliseconds.
\<close>

definition procFailedReq :: "Cluster \<Rightarrow> Cluster" where
  "procFailedReq cu = (case cu_FailQue cu of
       [] \<Rightarrow> cu
     | resp # q \<Rightarrow>
         (let cu1 = adjust (sr_ServerId resp) (-10) (cu\<lparr>cu_FailQue := q\<rparr>);
              retry = cu1\<lparr>cu_SendQue := cu_SendQue cu1 @ [RespToReq resp]\<rparr> in
          if sr_Err resp = errCode ErrLeaderChanged then cu1
          else if sr_Err resp = errCode ErrWrongLeader then retry
          else if sr_Err resp = errCode ErrChanClosed then cu1
          else if sr_Err resp = errCode ErrHandleTimeout then retry
          else cu1))"

text \<open>\<^verbatim>\<open>serveServ\<close>: one response from the connection of a node.\<close>

definition serveServ :: "32 word \<Rightarrow> bytes \<Rightarrow> Cluster \<Rightarrow> (io_err + bytes) \<times> Cluster" where
  "serveServ maxPkg stream cu = (case readServerResponse maxPkg stream of
       Inl e \<Rightarrow> (Inl e, cu)
     | Inr (resp, rest) \<Rightarrow>
         (Inr rest,
          if sr_Err resp = errCode OK \<or> sr_Err resp = errCode ErrNoKey
          then adjust (sr_ServerId resp) 1 (cu\<lparr>cu_RespQue := cu_RespQue cu @ [resp]\<rparr>)
          else cu\<lparr>cu_FailQue := cu_FailQue cu @ [resp]\<rparr>))"

text \<open>\<^verbatim>\<open>serve\<close>: one request from a proxy; the type assertion on a header that was rejected panics.\<close>

definition serve :: "32 word \<Rightarrow> nat \<Rightarrow> bytes \<Rightarrow> Cluster \<Rightarrow> ((io_err + bytes) \<times> Cluster) option" where
  "serve maxPkg conn stream cu = (case readFull requestLen stream of
       Inl e \<Rightarrow> Some (Inl e, cu)
     | Inr (headerBuffer, s1) \<Rightarrow> do {
         cmsg \<leftarrow> (case ClientDataPack_Unpack maxPkg headerBuffer of Inr (IClient m) \<Rightarrow> Some m | _ \<Rightarrow> None);
         (case readFull (unat (cm_DataLen cmsg)) s1 of
            Inl e \<Rightarrow> Some (Inl e, cu)
          | Inr (body, rest) \<Rightarrow>
              Some (Inr rest,
                cu\<lparr>cu_ProxyConns := (cu_ProxyConns cu)(cm_ClerkId cmsg \<mapsto> conn),
                   cu_SendQue := cu_SendQue cu @ [cmsg\<lparr>cm_Data := body\<rparr>]\<rparr>))
       })"

section \<open>The state of the nodes\<close>

text \<open>
  The confirmation of a first status message: the buffer starts with four zero bytes, behind which
  the code is written.
\<close>

definition syncConfirm :: bytes where
  "syncConfirm = replicate 4 0 @ write_u32 (errCode OK)"

definition setNode :: "SyncMsg \<Rightarrow> Cluster \<Rightarrow> Cluster" where
  "setNode msg cu = (case cu_Nodes cu (sm_ServerId msg) of
       None \<Rightarrow> cu\<lparr>cu_Nodes := (cu_Nodes cu)(sm_ServerId msg \<mapsto>
           \<lparr>nd_CommitIndex = sm_CommitIndex msg, nd_IsLeader = sm_IsLeader msg, nd_Port = sm_Port msg, nd_Ip = sm_Ip msg\<rparr>)\<rparr>
     | Some node \<Rightarrow> cu\<lparr>cu_Nodes := (cu_Nodes cu)(sm_ServerId msg \<mapsto>
           node\<lparr>nd_CommitIndex := sm_CommitIndex msg, nd_IsLeader := sm_IsLeader msg, nd_Port := sm_Port msg, nd_Ip := sm_Ip msg\<rparr>)\<rparr>)"

definition setNodeState :: "SyncMsg \<Rightarrow> Cluster \<Rightarrow> Cluster" where
  "setNodeState msg cu = (case cu_Nodes cu (sm_ServerId msg) of
       None \<Rightarrow> cu\<lparr>cu_Nodes := (cu_Nodes cu)(sm_ServerId msg \<mapsto>
           \<lparr>nd_CommitIndex = sm_CommitIndex msg, nd_IsLeader = sm_IsLeader msg, nd_Port = 0, nd_Ip = []\<rparr>)\<rparr>
     | Some node \<Rightarrow> cu\<lparr>cu_Nodes := (cu_Nodes cu)(sm_ServerId msg \<mapsto>
           node\<lparr>nd_CommitIndex := sm_CommitIndex msg, nd_IsLeader := sm_IsLeader msg\<rparr>)\<rparr>)"

definition setLeader :: "SyncMsg \<Rightarrow> Cluster \<Rightarrow> Cluster" where
  "setLeader msg cu = (if sm_IsLeader msg then cu\<lparr>cu_LeaderId := sm_ServerId msg\<rparr> else cu)"

text \<open>The difference of the commit indexes, cut to 32 bits.\<close>

definition commitDiff :: "32 word \<Rightarrow> Cluster \<Rightarrow> 32 word" where
  "commitDiff i cu = (case (cu_Nodes cu (cu_LeaderId cu), cu_Nodes cu i) of
       (Some leader, Some node) \<Rightarrow> ucast (nd_CommitIndex node - nd_CommitIndex leader)
     | _ \<Rightarrow> 0)"

text \<open>
  \<^verbatim>\<open>handleSync\<close>: one status message. The length of the address is a signed 16 bit integer and so is
  the size of the buffer for it; a negative size panics.
\<close>

definition handleSync :: "nat option \<Rightarrow> bytes \<Rightarrow> Cluster \<Rightarrow> ((io_err + (bytes \<times> bytes)) \<times> Cluster) option" where
  "handleSync dial stream cu =
     (case ebind (readFull syncHeadLen stream) (\<lambda>(headBuffer, s1).
             ebind (SyncMsgPack_UnpackHead headBuffer) (\<lambda>msg. Inr (msg, s1))) of
        Inl e \<Rightarrow> Some (Inl e, cu)
      | Inr (msg, s1) \<Rightarrow>
          if sint (sm_IpLen msg) > 0 then
            (if sint (sm_IpLen msg + 4) < 0 then None
             else (case readFull (nat (sint (sm_IpLen msg + 4))) s1 of
                 Inl e \<Rightarrow> Some (Inl e, cu)
               | Inr (bodyBuffer, s2) \<Rightarrow> do {
                   r \<leftarrow> SyncMsgPack_UnpackBody bodyBuffer msg;
                   (case r of
                      Inl e \<Rightarrow> Some (Inl e, cu)
                    | Inr msg1 \<Rightarrow>
                        (let cu1 = setLeader msg1 (setNode msg1 cu);
                             cu2 = (if cu_Conns cu1 (sm_ServerId msg1) = None
                                    then snd (connectToNode dial (sm_ServerId msg1) cu1) else cu1)
                         in Some (Inr (s2, syncConfirm), cu2)))
                 }))
          else
            (let cu1 = setNodeState msg (setLeader msg cu)
             in Some (Inr (s1, []), adjust (sm_ServerId msg) (commitDiff (sm_ServerId msg) cu1) cu1)))"

text \<open>Closing a channel twice panics.\<close>

definition Stop :: "Cluster \<Rightarrow> Cluster option" where
  "Stop cu = (if cu_closed cu then None else Some (cu\<lparr>cu_dead := True, cu_closed := True\<rparr>))"

end
