(* ===== verification/ClusterPick.thy ===== *)
theory ClusterPick
  imports ClusterMg
begin

text \<open>
  How the cluster manager chooses a node for a read: the share of a node under the weights
  (\<open>pick_weight_share\<close>), that the random mode returns (\<open>pick_random_returns\<close>), what the
  rebalancing of the weights does (\<open>balance_widens_gap\<close>) and what happens to a read before the
  weights are known (\<open>early_read_panics\<close>).
\<close>

section \<open>Weights\<close>

abbreviation weight_sum :: "(32 word, 32 word) gomap \<Rightarrow> int" where
  "weight_sum ws \<equiv> sum_list (map (\<lambda>p. sint (snd p)) ws)"

definition small_weights :: "(32 word, 32 word) gomap \<Rightarrow> bool" where
  "small_weights ws \<longleftrightarrow> (\<forall>p \<in> set ws. 0 \<le> sint (snd p)) \<and> weight_sum ws < 2 ^ 31"

lemma sint_small: "- (2 ^ 31) \<le> i \<Longrightarrow> i < 2 ^ 31 \<Longrightarrow> sint (of_int i :: 32 word) = i"
  by (simp add: signed_of_int signed_take_bit_int_eq_self)

lemma small_weights_Cons:
  assumes "small_weights (p # ws)"
  shows "small_weights ws" and "0 \<le> sint (snd p)" and "0 \<le> weight_sum ws"
proof -
  show p: "0 \<le> sint (snd p)" using assms by (simp add: small_weights_def)
  show s: "0 \<le> weight_sum ws"
    using assms by (auto simp: small_weights_def intro!: sum_list_nonneg)
  from assms p show "small_weights ws" by (auto simp: small_weights_def)
qed

lemma totalWeight_small: "small_weights ws \<Longrightarrow> sint (totalWeight ws) = weight_sum ws"
proof -
  assume s: "small_weights ws"
  have "totalWeight ws = of_int (weight_sum ws)"
    by (induction ws) (simp_all add: totalWeight_def)
  moreover have "0 \<le> weight_sum ws"
    using s by (auto simp: small_weights_def intro!: sum_list_nonneg)
  ultimately show ?thesis
    using s by (simp add: small_weights_def sint_small)
qed

lemma pickWeight_Cons:
  assumes "0 \<le> r" and "r < 2 ^ 31" and "0 \<le> sint v"
  shows "pickWeight ((i, v) # ws) (of_int r) s = (if r \<le> sint v then i else pickWeight ws (of_int (r - sint v)) s)"
proof -
  have "of_int r - v = of_int (r - sint v)" by simp
  moreover have "sint v < 2 ^ 31" using sint_less [of v] by simp
  with assms have "sint (of_int (r - sint v) :: 32 word) = r - sint v" by (intro sint_small) simp_all
  ultimately show ?thesis by (simp add: Let_def)
qed

text \<open>Which node a number selects.\<close>

lemma pickWeight_selects:
  assumes "small_weights (as @ (i, v) # bs)" and "0 \<le> r" and "as = [] \<or> weight_sum as < r" and "r \<le> weight_sum as + sint v"
  shows "pickWeight (as @ (i, v) # bs) (of_int r) s = i"
  using assms
proof (induction as arbitrary: r)
  case Nil
  moreover have "sint v < 2 ^ 31" using sint_less [of v] by simp
  ultimately show ?case using pickWeight_Cons [of r v i bs s] by (simp add: small_weights_def)
next
  case (Cons p as)
  obtain j w where p: "p = (j, w)" by fastforce
  note c = small_weights_Cons [OF Cons.prems(1) [simplified append_Cons]]
  have s: "0 \<le> weight_sum as" and "weight_sum as + sint v \<le> weight_sum (as @ (i, v) # bs)"
    using c(1) by (auto simp: small_weights_def intro!: sum_list_nonneg)
  then have r: "r < 2 ^ 31" using Cons.prems(1,4) by (simp add: small_weights_def)
  have "sint w < r" using Cons.prems(3) s p by simp
  then have "pickWeight ((p # as) @ (i, v) # bs) (of_int r) s = pickWeight (as @ (i, v) # bs) (of_int (r - sint w)) s"
    using pickWeight_Cons [OF Cons.prems(2) r] c(2) p by simp
  also have "\<dots> = i"
    by (rule Cons.IH [OF c(1)]) (use Cons.prems(3,4) p \<open>sint w < r\<close> in auto)
  finally show ?case .
qed

text \<open>Every number below the sum lies in the range of exactly one node.\<close>

lemma pickWeight_range:
  assumes "small_weights ws" and "0 \<le> r" and "r < weight_sum ws"
  shows "\<exists>as i v bs. ws = as @ (i, v) # bs \<and> (as = [] \<or> weight_sum as < r) \<and> r \<le> weight_sum as + sint v"
  using assms
proof (induction ws arbitrary: r)
  case (Cons p ws)
  obtain j w where p: "p = (j, w)" by fastforce
  show ?case
  proof (cases "r \<le> sint w")
    case True
    then show ?thesis by (intro exI [of _ "[]"] exI [of _ j] exI [of _ w] exI [of _ ws]) (simp add: p)
  next
    case False
    then obtain as i v bs where "ws = as @ (i, v) # bs" "as = [] \<or> weight_sum as < r - sint w" "r - sint w \<le> weight_sum as + sint v"
      using Cons.IH [of "r - sint w"] Cons.prems small_weights_Cons(1) p by fastforce
    then show ?thesis
      using False by (intro exI [of _ "p # as"] exI [of _ i] exI [of _ v] exI [of _ bs]) (auto simp: p)
  qed
qed simp

lemma split_at_key:
  "as @ (i, v) # bs = cs @ (i, u) # ds \<Longrightarrow> distinct (map fst (as @ (i, v) # bs)) \<Longrightarrow> as = cs \<and> v = u"
proof (induction as arbitrary: cs)
  case Nil
  then show ?case by (cases cs) auto
next
  case (Cons p as)
  then show ?case by (cases cs) auto
qed

text \<open>
  C32: in the weighted mode a read goes to a node exactly if the random number is above the weights
  of the nodes before it and at most those plus its own. As the numbers start at 0, the first node
  gets one number more than its weight and the last one less.
\<close>

theorem pick_weight_share:
  assumes "cu_PickMode cu = WEIGHT" and "cu_Weights cu = as @ (i, v) # bs" and "small_weights (cu_Weights cu)"
    and "distinct (map fst (cu_Weights cu))" and "0 \<le> r" and "r < weight_sum (cu_Weights cu)"
  shows "pick GET r cu = Some i \<longleftrightarrow> (as = [] \<or> weight_sum as < r) \<and> r \<le> weight_sum as + sint v"
proof -
  have pick: "pick GET r cu = Some (pickWeight (cu_Weights cu) (of_int r) (cu_LeaderId cu))"
    using assms(1,3,5,6) by (simp add: pick_def totalWeight_small)
  obtain cs j u ds where sel: "cu_Weights cu = cs @ (j, u) # ds" "cs = [] \<or> weight_sum cs < r" "r \<le> weight_sum cs + sint u"
    using pickWeight_range [OF assms(3,5,6)] by blast
  have j: "pickWeight (cu_Weights cu) (of_int r) (cu_LeaderId cu) = j"
    using pickWeight_selects [of cs j u ds r] sel assms(3,5) by simp
  show ?thesis
  proof
    assume "pick GET r cu = Some i"
    with pick j have "i = j" by simp
    with assms(2,4) sel(1) split_at_key [of as i v bs cs u ds] have "as = cs \<and> v = u" by simp
    with sel(2,3) show "(as = [] \<or> weight_sum as < r) \<and> r \<le> weight_sum as + sint v" by simp
  next
    assume "(as = [] \<or> weight_sum as < r) \<and> r \<le> weight_sum as + sint v"
    with pick pickWeight_selects [of as i v bs r] assms(2,3,5) show "pick GET r cu = Some i" by simp
  qed
qed

theorem pick_weight_share_witness:
  "pick GET 3 (NewCluster\<lparr>cu_Weights := [(1, 3), (2, 3)]\<rparr>) = Some 1 \<and>
   pick GET 4 (NewCluster\<lparr>cu_Weights := [(1, 3), (2, 3)]\<rparr>) = Some 2"
  using pick_weight_share [of "NewCluster\<lparr>cu_Weights := [(1, 3), (2, 3)]\<rparr>" "[]" 1 3 "[(2, 3)]" 3]
    pick_weight_share [of "NewCluster\<lparr>cu_Weights := [(1, 3), (2, 3)]\<rparr>" "[(1, 3)]" 2 3 "[]" 4]
  by (simp add: NewCluster_def small_weights_def)

section \<open>The random mode\<close>

lemma randomPass_selects: "snd (randomPass leader is n s) \<in> insert s (set is - {leader})"
  by (induction leader "is" n s rule: randomPass.induct) auto

lemma randomPass_follower:
  "\<exists>i \<in> set is. i \<noteq> leader \<Longrightarrow> snd (randomPass leader is n s) \<in> set is - {leader}"
proof (induction leader "is" n s rule: randomPass.induct)
  case (2 leader j js n s)
  then show ?case
    using randomPass_selects [of leader js "n - 1" j] by (cases "j = leader") auto
qed simp

lemma pickRandom_follower:
  assumes "\<exists>i \<in> set is. i \<noteq> leader" and "0 < n \<or> s \<in> set is - {leader}"
  shows "\<exists>i \<in> set is - {leader}. pickRandom leader is n s = Some i"
  using assms
proof (induction leader "is" n s rule: pickRandom.induct)
  case (1 leader "is" n s)
  show ?case
  proof (cases "n \<le> 0")
    case True
    with 1 show ?thesis by (auto simp: pickRandom.simps)
  next
    case False
    obtain n' s' where p: "randomPass leader is n s = (n', s')" by fastforce
    with randomPass_follower [OF 1(2), of n s] have "s' \<in> set is - {leader}" by simp
    with False 1(2) 1(1) [OF False _ p [symmetric]] have "\<exists>i \<in> set is - {leader}. pickRandom leader is n' s' = Some i"
      by auto
    with False 1(2) p show ?thesis by (subst pickRandom.simps) auto
  qed
qed

text \<open>
  In the random mode a read is given to a node for every value of the random number: the leader
  for 0, and one of the other nodes otherwise. The search always ends.
\<close>

theorem pick_random_returns:
  assumes "cu_PickMode cu = RANDOM" and "distinct (map fst (cu_Weights cu))" and "0 \<le> r" and "r < go_len (cu_Weights cu)"
  shows "\<exists>i. pick GET r cu = Some i \<and>
     (if r = 0 then i = cu_LeaderId cu else i \<in> fst ` set (cu_Weights cu) \<and> i \<noteq> cu_LeaderId cu)"
proof (cases "r = 0")
  case True
  with assms show ?thesis
    by (auto simp: pick_def WEIGHT_def RANDOM_def go_len_def pickRandom.simps)
next
  case False
  let ?is = "map fst (cu_Weights cu)"
  have "\<exists>i \<in> set ?is. i \<noteq> cu_LeaderId cu"
  proof (rule ccontr)
    assume "\<not> ?thesis"
    then have "set ?is \<subseteq> {cu_LeaderId cu}" by blast
    then have "card (set ?is) \<le> 1" using card_mono [of "{cu_LeaderId cu}"] by fastforce
    with assms False distinct_card [OF assms(2)] show False by (simp add: go_len_def)
  qed
  from pickRandom_follower [OF this, of r "cu_LeaderId cu"] False assms show ?thesis
    by (auto simp: pick_def WEIGHT_def RANDOM_def go_len_def)
qed

theorem pick_random_returns_witness:
  "\<exists>i. pick GET 2 (NewCluster\<lparr>cu_PickMode := RANDOM, cu_Weights := [(0, 5), (1, 5), (2, 5)]\<rparr>) = Some i \<and> i \<noteq> 0"
  using pick_random_returns [of "NewCluster\<lparr>cu_PickMode := RANDOM, cu_Weights := [(0, 5), (1, 5), (2, 5)]\<rparr>" 2]
  by (auto simp: NewCluster_def go_len_def)

section \<open>Rebalancing\<close>

lemma go_div_bounds: "0 < b \<Longrightarrow> \<bar>go_div a b\<bar> \<le> \<bar>a\<bar>" "0 < b \<Longrightarrow> 0 \<le> a \<Longrightarrow> 0 \<le> go_div a b"
proof -
  assume b: "0 < b"
  have "\<bar>a\<bar> div \<bar>b\<bar> \<le> \<bar>a\<bar>" using b zdiv_mono2 [of "\<bar>a\<bar>" 1 b] by simp
  moreover have "0 \<le> \<bar>a\<bar> div \<bar>b\<bar>" using b by (simp add: pos_imp_zdiv_nonneg_iff)
  ultimately show "\<bar>go_div a b\<bar> \<le> \<bar>a\<bar>"
    using b by (cases "0 < a") (simp_all add: go_div_def abs_mult sgn_if)
qed (simp add: go_div_def sgn_if pos_imp_zdiv_nonneg_iff)

lemma go_div_two_mono: "x \<le> y \<Longrightarrow> go_div x 2 \<le> go_div y 2" "x + 3 \<le> y \<Longrightarrow> go_div x 2 < go_div y 2"
  by (auto simp: go_div_def sgn_if)

definition balanced_int :: "int \<Rightarrow> int \<Rightarrow> int" where
  "balanced_int avg v = v - avg + 10000000 + go_div (v - avg) 2"

lemma sint_balanced:
  assumes "0 \<le> sint v" "sint v \<le> 10 ^ 9" "0 \<le> sint avg" "sint avg \<le> 10 ^ 9"
  shows "sint (balanced avg v) = balanced_int (sint avg) (sint v)"
proof -
  let ?d = "sint v - sint avg"
  have d: "\<bar>?d\<bar> \<le> 10 ^ 9" using assms by linarith
  have "sint (of_int ?d :: 32 word) = ?d" using d by (intro sint_small) simp_all
  then have v1: "sint (v - avg) = ?d" by simp
  have "balanced avg v = of_int (balanced_int (sint avg) (sint v))"
    by (simp add: balanced_def Let_def sdiv32_def v1 balanced_int_def MeanWeight_def algebra_simps)
  moreover have "\<bar>go_div ?d 2\<bar> \<le> 10 ^ 9" using go_div_bounds(1) [of 2 ?d] d by linarith
  then have "- (2 ^ 31) \<le> balanced_int (sint avg) (sint v)" "balanced_int (sint avg) (sint v) < 2 ^ 31"
    using d by (simp_all add: balanced_int_def abs_le_iff)
  ultimately show ?thesis by (simp add: sint_small)
qed

lemma average_bounds:
  assumes "small_weights ws" and "\<forall>p \<in> set ws. sint (snd p) \<le> 10 ^ 9" and "length ws < 2 ^ 31" and "ws \<noteq> []"
  defines "avg \<equiv> sdiv32 (totalWeight ws) (of_nat (length ws))"
  shows "0 \<le> sint avg" and "sint avg \<le> 10 ^ 9" and "(of_nat (length ws) :: 32 word) \<noteq> 0"
proof -
  let ?n = "int (length ws)"
  have n: "sint (of_nat (length ws) :: 32 word) = ?n" "0 < ?n"
    using sint_small [of ?n] assms(3,4) by simp_all
  then show "(of_nat (length ws) :: 32 word) \<noteq> 0" by auto
  have s: "0 \<le> weight_sum ws" using assms(1) by (auto simp: small_weights_def intro!: sum_list_nonneg)
  have "weight_sum ws \<le> 10 ^ 9 * ?n"
    using sum_list_mono [of ws "\<lambda>p. sint (snd p)" "\<lambda>_. 10 ^ 9"] assms(2) by (simp add: sum_list_triv)
  with s n have d: "0 \<le> go_div (weight_sum ws) ?n" "go_div (weight_sum ws) ?n \<le> 10 ^ 9"
    using zdiv_mono1 [of "weight_sum ws" "10 ^ 9 * ?n" ?n] go_div_bounds(2) [of ?n "weight_sum ws"]
    by (auto simp: go_div_def sgn_if)
  have "avg = of_int (go_div (weight_sum ws) ?n)"
    by (simp add: avg_def sdiv32_def totalWeight_small [OF assms(1)] n(1))
  with d show "0 \<le> sint avg" "sint avg \<le> 10 ^ 9" by (simp_all add: sint_small)
qed

text \<open>
  Rebalancing never narrows the gap between two nodes, and widens every gap of at least 3,
  for weights at which no sum overflows.
\<close>

theorem balance_widens_gap:
  assumes "small_weights (cu_Weights cu)" and "\<forall>p \<in> set (cu_Weights cu). sint (snd p) \<le> 10 ^ 9"
    and "length (cu_Weights cu) < 2 ^ 31"
    and "map_of (cu_Weights cu) i = Some a" and "map_of (cu_Weights cu) j = Some b" and "sint a \<le> sint b"
  shows "\<exists>cu' a' b'. balanceWeight cu = Some cu' \<and> map_of (cu_Weights cu') i = Some a' \<and> map_of (cu_Weights cu') j = Some b' \<and>
     sint b - sint a \<le> sint b' - sint a' \<and> (sint a + 3 \<le> sint b \<longrightarrow> sint b - sint a < sint b' - sint a')"
proof -
  let ?avg = "sdiv32 (totalWeight (cu_Weights cu)) (of_nat (length (cu_Weights cu)))"
  let ?cu = "cu\<lparr>cu_Weights := map (\<lambda>(i, v). (i, balanced ?avg v)) (cu_Weights cu)\<rparr>"
  have "cu_Weights cu \<noteq> []" using assms(4) by auto
  note avg = average_bounds [OF assms(1,2,3) this]
  have "0 \<le> sint v \<and> sint v \<le> 10 ^ 9" if "map_of (cu_Weights cu) k = Some v" for k v
    using map_of_SomeD [OF that] assms(1,2) by (auto simp: small_weights_def)
  then have bal: "sint (balanced ?avg v) = balanced_int (sint ?avg) (sint v)" if "map_of (cu_Weights cu) k = Some v" for k v
    using that sint_balanced avg by blast
  have "balanceWeight cu = Some ?cu" using avg(3) by (simp add: balanceWeight_def Let_def)
  moreover have "map_of (cu_Weights ?cu) i = Some (balanced ?avg a)" "map_of (cu_Weights ?cu) j = Some (balanced ?avg b)"
    using assms(4,5) by (simp_all add: map_of_map)
  moreover have "sint b - sint a \<le> sint (balanced ?avg b) - sint (balanced ?avg a)"
    using go_div_two_mono(1) [of "sint a - sint ?avg" "sint b - sint ?avg"] assms(6)
    by (simp add: bal [OF assms(4)] bal [OF assms(5)] balanced_int_def)
  moreover have "sint a + 3 \<le> sint b \<longrightarrow> sint b - sint a < sint (balanced ?avg b) - sint (balanced ?avg a)"
    using go_div_two_mono(2) [of "sint a - sint ?avg" "sint b - sint ?avg"]
    by (simp add: bal [OF assms(4)] bal [OF assms(5)] balanced_int_def)
  ultimately show ?thesis by blast
qed

theorem balance_widens_gap_witness:
  "\<exists>cu' a' b'. balanceWeight (NewCluster\<lparr>cu_Weights := [(1, 9999990), (2, 10000010)]\<rparr>) = Some cu' \<and>
     map_of (cu_Weights cu') 1 = Some a' \<and> map_of (cu_Weights cu') 2 = Some b' \<and> 20 < sint b' - sint a'"
proof -
  let ?cu = "NewCluster\<lparr>cu_Weights := [(1, 9999990), (2, 10000010)]\<rparr>"
  have "small_weights (cu_Weights ?cu)" "\<forall>p \<in> set (cu_Weights ?cu). sint (snd p) \<le> 10 ^ 9"
    "length (cu_Weights ?cu) < 2 ^ 31" "map_of (cu_Weights ?cu) 1 = Some 9999990" "map_of (cu_Weights ?cu) 2 = Some 10000010"
    "sint (9999990 :: 32 word) \<le> sint (10000010 :: 32 word)"
    by (simp_all add: small_weights_def)
  from balance_widens_gap [OF this] show ?thesis by simp blast
qed

section \<open>Reads before the weights are known\<close>

lemma connectToNode_weights [simp]: "cu_Weights (snd (connectToNode dial i cu)) = cu_Weights cu"
  "cu_PickMode (snd (connectToNode dial i cu)) = cu_PickMode cu"
  by (auto simp: connectToNode_def split: option.splits)

lemma syncConfirm_nonempty [simp]: "syncConfirm \<noteq> []" "[] \<noteq> syncConfirm"
  by (simp_all add: syncConfirm_def)

lemma first_status_weights:
  "handleSync dial stream cu = Some (Inr (rest, syncConfirm), cu') \<Longrightarrow>
   cu_Weights cu' = cu_Weights cu \<and> cu_PickMode cu' = cu_PickMode cu"
  by (auto simp: handleSync_def Let_def setNode_def setLeader_def
      split: sum.splits prod.splits if_splits option.splits bind_splits)

fun first_statuses :: "(nat option \<times> bytes) list \<Rightarrow> Cluster \<Rightarrow> Cluster option" where
  "first_statuses [] cu = Some cu"
| "first_statuses ((dial, stream) # ms) cu = (case handleSync dial stream cu of
       Some (Inr (rest, out), cu1) \<Rightarrow> if out = syncConfirm then first_statuses ms cu1 else None
     | _ \<Rightarrow> None)"

text \<open>
  The first status message of a node gives it no weight: however many nodes have announced
  themselves to a new cluster manager, a read that arrives before the second message of one of them
  ends the process, while a write is sent to the leader.
\<close>

theorem early_read_panics:
  assumes "first_statuses ms NewCluster = Some cu"
  shows "pick GET r cu = None \<and> (op \<noteq> GET \<longrightarrow> pick op r cu = Some (cu_LeaderId cu))"
proof -
  have "first_statuses ms c = Some cu \<Longrightarrow> cu_Weights cu = cu_Weights c \<and> cu_PickMode cu = cu_PickMode c" for c
    by (induction ms c rule: first_statuses.induct)
      (auto dest: first_status_weights split: option.splits sum.splits prod.splits if_splits)
  from this [OF assms] have "cu_Weights cu = []" "cu_PickMode cu = WEIGHT" by (simp_all add: NewCluster_def)
  then show ?thesis by (simp add: pick_def totalWeight_def)
qed

definition first_status :: bytes where
  "first_status = SyncMsgPack_PackAddr \<lparr>sm_CommitIndex = 0, sm_IsLeader = True, sm_IpLen = 1, sm_ServerId = 2,
     sm_Port = 80, sm_Ip = [104]\<rparr>"

theorem early_read_panics_witness:
  "\<exists>cu. first_statuses [(Some 7, first_status)] NewCluster = Some cu \<and> pick GET 3 cu = None \<and> pick PUT 3 cu = Some 2"
proof -
  have "map_option cu_LeaderId (first_statuses [(Some 7, first_status)] NewCluster) = Some 2"
    by code_simp
  then obtain cu where "first_statuses [(Some 7, first_status)] NewCluster = Some cu" "cu_LeaderId cu = 2"
    by (auto simp del: first_statuses.simps)
  with early_read_panics [of "[(Some 7, first_status)]" cu 3 PUT] show ?thesis by (simp add: GET_def PUT_def)
qed

end
