(* ===== verification/KvService.thy ===== *)
theory KvService
  imports KvRead ClerkStream ClusterPick
begin

text \<open>
  The service as a whole: the way of a request from the client through the cluster manager to a
  server (\<open>request_reaches_server\<close>) and of a read back to the caller (\<open>get_end_to_end\<close>), what
  becomes of a write that reaches a server that is not the leader (\<open>rejected_write_is_lost\<close>), and
  the messages by which a server makes itself known (\<open>sync_handshake\<close>).
\<close>

section \<open>Requests\<close>

text \<open>What the client packs for a key and a value is what the server side packs for the operation.\<close>

lemma packData_is_OpToBinary:
  assumes "packData uid ch (key @ value) ty (of_nat (length key)) ck = (Inr (bs, i), ck')"
  shows "OpToBinary \<lparr>op_Optype = ty, op_IncrId = uid, op_ClerkId = ck_clerkId ck, op_Key = key, op_Value = value\<rparr> = Inr bs"
    and "i = uid" and "ck_responseCh ck' uid \<noteq> None"
  using assms
  by (auto simp: packData_def prepareData_def OpToBinary_def op_body_def Let_def split: if_splits sum.splits)

lemma serve_reads:
  assumes "readClientMessage maxPkg stream = Inr (m, rest)"
  shows "serve maxPkg conn stream cu = Some (Inr rest,
     cu\<lparr>cu_ProxyConns := (cu_ProxyConns cu)(cm_ClerkId m \<mapsto> conn), cu_SendQue := cu_SendQue cu @ [m]\<rparr>)"
  using assms
  by (auto simp: serve_def readClientMessage_def split: sum.splits IMessage.splits prod.splits)

lemma pick_frame [simp]: "pick op r (cu\<lparr>cu_SendQue := q\<rparr>) = pick op r cu" "pick op r (cu\<lparr>cu_ProxyConns := f\<rparr>) = pick op r cu"
  by (simp_all add: pick_def)

text \<open>
  C24: the bytes the client packs for a request go through the cluster manager unchanged and are
  read by the server as that request. The cluster manager remembers the connection of the client.
\<close>

theorem request_reaches_server:
  assumes "packData uid ch (key @ value) ty (of_nat (length key)) ck = (Inr (bs, i), ck')"
    and "4 + length key + length value < 2 ^ 32" and "within_limit maxPkg (of_nat (4 + length key + length value))"
    and "cu_SendQue cu = []" and "pick ty r cu = Some node" and "cu_Conns cu node = Some conn" and "\<not> kv_closed kv"
  shows "\<exists>cu1 cu2 kv'. serve maxPkg pconn (bs @ rest) cu = Some (Inr rest, cu1) \<and>
     procSendQue [(r, dial)] cu1 = Some (Some (conn, bs), cu2) \<and>
     handleClientConnection maxPkg sconn (bs @ rest') kv = Some (Inr rest', kv') \<and>
     kv_processQue kv' = kv_processQue kv @
       [\<lparr>op_Optype = ty, op_IncrId = uid, op_ClerkId = ck_clerkId ck, op_Key = key, op_Value = value\<rparr>] \<and>
     kv_clientConns kv' (ck_clerkId ck) \<noteq> None \<and> cu_ProxyConns cu2 (ck_clerkId ck) = Some pconn \<and>
     ck_responseCh ck' uid \<noteq> None"
proof -
  let ?op = "\<lparr>op_Optype = ty, op_IncrId = uid, op_ClerkId = ck_clerkId ck, op_Key = key, op_Value = value\<rparr>"
  note bs = packData_is_OpToBinary [OF assms(1)]
  let ?d = "BodyPack_Pack (op_body ?op)"
  let ?m = "\<lparr>cm_OpId = ty, cm_DataLen = of_nat (length ?d), cm_IncrId = uid, cm_ClerkId = ck_clerkId ck, cm_Data = ?d\<rparr>"
  have pack: "ClientDataPack_Pack (IClient ?m) = Inr bs" using bs(1) by (simp add: OpToBinary_def Let_def)
  moreover have "unat (cm_DataLen ?m) = length (cm_Data ?m)"
    using unat_of_nat32 [of "length ?d"] assms(2) by (simp add: op_body_length)
  moreover have "within_limit maxPkg (cm_DataLen ?m)" using assms(3) by (simp add: op_body_length)
  ultimately have m: "readClientMessage maxPkg (bs @ x) = Inr (?m, x)" for x by (rule readClientMessage_Pack)
  let ?cu1 = "cu\<lparr>cu_ProxyConns := (cu_ProxyConns cu)(ck_clerkId ck \<mapsto> pconn), cu_SendQue := [?m]\<rparr>"
  let ?cu2 = "adjust node (-1) (?cu1\<lparr>cu_SendQue := []\<rparr>)"
  have "serve maxPkg pconn (bs @ rest) cu = Some (Inr rest, ?cu1)"
    using serve_reads [OF m] assms(4) by simp
  moreover have "procSendQue [(r, dial)] ?cu1 = Some (Some (conn, bs), ?cu2)"
    using assms(5,6) pack by (simp add: procSendQue_def procSendQue_try_def sendOn_def)
  moreover have "ClientMsgToOp (IClient ?m) = Some (Inr ?op)"
    using assms(2) by (simp add: ClientMsgToOp_def BodyPack_roundtrip Body_split)
  then have "\<exists>kv'. handleClientConnection maxPkg sconn (bs @ rest') kv = Some (Inr rest', kv') \<and>
      kv_processQue kv' = kv_processQue kv @ [?op] \<and> kv_clientConns kv' (ck_clerkId ck) \<noteq> None"
    using assms(7) by (simp add: handleClientConnection_def m)
  moreover have "cu_ProxyConns ?cu2 (ck_clerkId ck) = Some pconn" by (simp add: adjust_def)
  ultimately show ?thesis using bs(3) by blast
qed

theorem request_reaches_server_witness:
  "\<exists>bs i ck' cu1 cu2 kv'. packData 9 1 [107] GET 1 sample_clerk = (Inr (bs, i), ck') \<and>
     serve 4096 3 bs (NewCluster\<lparr>cu_Weights := [(2, 10)], cu_Conns := [2 \<mapsto> 4]\<rparr>) = Some (Inr [], cu1) \<and>
     procSendQue [(5, None)] cu1 = Some (Some (4, bs), cu2) \<and>
     handleClientConnection 4096 6 bs sample_kv = Some (Inr [], kv') \<and>
     kv_processQue kv' = [\<lparr>op_Optype = GET, op_IncrId = 9, op_ClerkId = 101, op_Key = [107], op_Value = []\<rparr>]"
proof -
  let ?cu = "NewCluster\<lparr>cu_Weights := [(2, 10)], cu_Conns := [2 \<mapsto> 4]\<rparr>"
  obtain bs i ck' where "packData 9 1 ([107] @ []) GET (of_nat (length [107 :: byte])) sample_clerk = (Inr (bs, i), ck')"
    by (auto simp: packData_def prepareData_def ClientDataPack_Pack_def Let_def)
  moreover have "4 + length [107 :: byte] + length ([] :: bytes) < 2 ^ 32"
    "within_limit 4096 (of_nat (4 + length [107 :: byte] + length ([] :: bytes)))" by (simp_all add: within_limit_def)
  moreover have "cu_SendQue ?cu = []" "pick GET 5 ?cu = Some 2" "cu_Conns ?cu 2 = Some 4" "\<not> kv_closed sample_kv"
    by (simp_all add: NewCluster_def pick_def totalWeight_def sample_kv_def)
  ultimately show ?thesis
    using request_reaches_server [of 9 1 "[107]" "[]" GET sample_clerk bs i ck' 4096 ?cu 5 2 4 sample_kv 3 "[]" None 6 "[]"]
    by (auto simp: sample_kv_def sample_clerk_def)
qed

section \<open>Reads\<close>

lemma processBuffer_step:
  assumes "processBuffer maxPkg buf off ck = Some (buf', off', ck')"
  shows "ck' = ck \<or> (\<exists>i e d x ck1 buf1 off1. nat off1 < nat off \<and> processResponse i e d ck = Some (x, ck1) \<and>
     processBuffer maxPkg buf1 off1 ck1 = Some (buf', off', ck'))"
proof (cases "ck' = ck")
  case False
  let ?total = "\<lambda>bs. (le_decode bs :: 32 word) + of_nat respHeadLen"
  note eq = assms [unfolded processBuffer.simps [of maxPkg buf off ck]]
  from eq False have off: "\<not> off < int respHeadLen" by auto
  with eq obtain lenBytes where l: "slice_mid buf 4 8 = Some lenBytes" by (auto simp: bind_eq_Some_conv)
  with eq False off have "\<not> (of_int off :: 32 word) < ?total lenBytes" by (auto simp: Let_def)
  with eq off l have "\<exists>i e d body x ck1 rest. slice_mid buf (int respHeadLen) (uint (?total lenBytes)) = Some body \<and>
      processResponse i e d ck = Some (x, ck1) \<and>
      processBuffer maxPkg (copy buf rest) (off - uint (?total lenBytes)) ck1 = Some (buf', off', ck')"
    by (simp add: Let_def bind_eq_Some_conv) blast
  then obtain i e d body x ck1 rest
    where p: "slice_mid buf (int respHeadLen) (uint (?total lenBytes)) = Some body"
      "processResponse i e d ck = Some (x, ck1)"
      "processBuffer maxPkg (copy buf rest) (off - uint (?total lenBytes)) ck1 = Some (buf', off', ck')" by blast
  with off have "nat (off - uint (?total lenBytes)) < nat off"
    by (auto simp: slice_mid_def respHeadLen_def split: if_splits)
  with p show ?thesis by blast
qed simp

lemma processBuffer_connections:
  "processBuffer maxPkg buf off ck = Some (buf', off', ck') \<Longrightarrow> ck_connections ck' = ck_connections ck"
proof (induction "nat off" arbitrary: buf off ck rule: less_induct)
  case less
  have "processResponse i e d ck = Some (x, ck1) \<Longrightarrow> ck_connections ck1 = ck_connections ck" for i e d x ck1
    by (auto simp: processResponse_def bind_eq_Some_conv split: sum.splits option.splits if_splits)
  with processBuffer_step [OF less.prems] less.hyps show ?case by metis
qed

lemma feed_connections: "feed maxPkg ns s ck = Some (s', ck') \<Longrightarrow> ck_connections ck' = ck_connections ck"
  by (induction maxPkg ns s ck rule: feed.induct)
     (fastforce simp: receiveGetResponse_def processGetBuffer_def Let_def bind_eq_Some_conv dest: processBuffer_connections)+

text \<open>A response the client waits for goes from the queue of the server to the channel of the request.\<close>

lemma response_reaches_client:
  assumes "kv_sendQueues kv = r # q" and "kv_clientConns kv (sr_ClerkId r) = Some conn" and "writeOk conn"
    and "cu_RespQue cu = []" and "cu_ProxyConns cu (sr_ClerkId r) = Some pconn" and "sr_Err r \<in> {200, 100}"
    and "clerk_ok ck" and "holds_bytes ck []" and "ck_responseCh ck (sr_IncrId r) = Some ch"
    and "fits_buffer maxPkg r" and "BodyPack_Unpack (sr_Data r) = Inr body"
    and "\<forall>n \<in> set ns. 0 < n" and "length (bits r) \<le> length ns"
  shows "\<exists>cu1 cu2 ck'. handleClientResponse writeOk kv = (True, Some (conn, bits r), kv\<lparr>kv_sendQueues := q\<rparr>) \<and>
     serveServ maxPkg (bits r @ rest) cu = (Inr rest, cu1) \<and> procRespQue cu1 = (Some (pconn, bits r), cu2) \<and>
     feed maxPkg ns (bits r) ck = Some ([], ck') \<and> ck_connections ck' = ck_connections ck \<and>
     ck_chans ck' ch = Some \<lparr>rc_content = [\<lparr>rs_ErrId = sr_Err r, rs_Bbody = body\<rparr>], rc_closed = True\<rparr>"
proof -
  have "handleClientResponse writeOk kv = (True, Some (conn, bits r), kv\<lparr>kv_sendQueues := q\<rparr>)"
    using assms(1-3) by (simp add: handleClientResponse_def RespToBinary_bits)
  moreover have "readServerResponse maxPkg (bits r @ rest) = Inr (r, rest)"
    using readServerResponse_Pack [of r "bits r" maxPkg] RespToBinary_bits [of r] assms(10)
    by (simp add: RespToBinary_def fits_buffer_def)
  then have "serveServ maxPkg (bits r @ rest) cu = (Inr rest, adjust (sr_ServerId r) 1 (cu\<lparr>cu_RespQue := [r]\<rparr>))"
    using assms(4,6) by (auto simp: serveServ_def)
  moreover have "\<exists>cu2. procRespQue (adjust (sr_ServerId r) 1 (cu\<lparr>cu_RespQue := [r]\<rparr>)) = (Some (pconn, bits r), cu2)"
    using assms(5) by (simp add: procRespQue_def adjust_def RespToBinary_bits)
  moreover obtain ck' where "feed maxPkg ns (bits r) ck = Some ([], ck')" "answered r ck' ch"
    using feed_answers [OF assms(7,8), of "[r]" maxPkg ns] assms(9-13) by auto
  moreover from this assms(11) have "ck_chans ck' ch = Some \<lparr>rc_content = [\<lparr>rs_ErrId = sr_Err r, rs_Bbody = body\<rparr>], rc_closed = True\<rparr>"
    by (auto simp: answered_def)
  moreover note feed_connections [OF calculation(4)]
  ultimately show ?thesis by blast
qed



section \<open>Writes that reach a follower\<close>

text \<open>
  A write that reaches a server that is not the leader is lost without a word: the server answers
  that the leader has changed, the cluster manager takes the answer for a failed request, and
  neither sends the request again nor tells the client.
\<close>

theorem rejected_write_is_lost:
  assumes "kv_processQue kv = op # q" and "op_Optype op \<noteq> GET" and "rf_role (kv_rf kv) \<noteq> Leader"
    and "\<And>h. kv_history kv (op_ClerkId op) = Some h \<Longrightarrow> sr_IncrId h \<noteq> op_IncrId op"
    and "kv_sendQueues kv = []" and "\<not> kv_closed kv" and "kv_clientConns kv (op_ClerkId op) = Some conn" and "writeOk conn"
    and "cu_FailQue cu = []" and "4 + length (op_Key op) + length (op_Value op) < 2 ^ 32"
    and "within_limit maxPkg (of_nat (4 + length (op_Key op) + length (op_Value op)))"
  shows "\<exists>kv1 kv2 out cu1. handleOpQue c kv = Some kv1 \<and> handleClientResponse writeOk kv1 = (True, Some (conn, out), kv2) \<and>
     kv_processQue kv2 = q \<and> kv_sendQueues kv2 = [] \<and> serveServ maxPkg (out @ rest) cu = (Inr rest, cu1) \<and>
     cu_FailQue cu1 = [OpToResp op (errCode ErrLeaderChanged)] \<and>
     cu_SendQue (procFailedReq cu1) = cu_SendQue cu \<and> cu_RespQue (procFailedReq cu1) = cu_RespQue cu \<and>
     cu_FailQue (procFailedReq cu1) = []"
proof -
  let ?r = "OpToResp op 102"
  let ?kv1 = "kv\<lparr>kv_processQue := q, kv_rf := ResetHeartTimer ImmidiateTime (kv_rf kv), kv_sendQueues := [?r]\<rparr>"
  have "handleOpQue c kv = Some ?kv1"
    using assms(1-6)
    by (auto simp: handleOpQue_def handleOpQue_new_def handleOpQue_start_def Start_def send_resp_def Let_def split: option.splits)
  moreover have "handleClientResponse writeOk ?kv1 = (True, Some (conn, bits ?r), ?kv1\<lparr>kv_sendQueues := []\<rparr>)"
    using assms(7,8) by (simp add: handleClientResponse_def RespToBinary_bits OpToResp_def Let_def)
  moreover have "unat (sr_DataLen ?r) = length (sr_Data ?r)" "within_limit maxPkg (sr_DataLen ?r)"
    using unat_of_nat32 [OF assms(10)] assms(11) by (simp_all add: OpToResp_def Let_def op_body_length)
  then have "readServerResponse maxPkg (bits ?r @ rest) = Inr (?r, rest)"
    using readServerResponse_Pack [of ?r "bits ?r" maxPkg] RespToBinary_bits [of ?r] by (simp add: RespToBinary_def)
  then have "serveServ maxPkg (bits ?r @ rest) cu = (Inr rest, cu\<lparr>cu_FailQue := [?r]\<rparr>)"
    using assms(9) by (simp add: serveServ_def OpToResp_def Let_def)
  moreover have "sr_Err ?r = 102" by (simp add: OpToResp_def Let_def)
  ultimately show ?thesis by (simp add: procFailedReq_def adjust_def Let_def)
qed

theorem rejected_write_is_lost_witness:
  "\<exists>kv1 kv2 out cu1. handleOpQue sample_codec (sample_kv\<lparr>kv_processQue := [sample_op], kv_clientConns := [3 \<mapsto> 5]\<rparr>) = Some kv1 \<and>
     handleClientResponse (\<lambda>_. True) kv1 = (True, Some (5, out), kv2) \<and> serveServ 4096 out NewCluster = (Inr [], cu1) \<and>
     cu_FailQue cu1 = [OpToResp sample_op 102] \<and>
     cu_SendQue (procFailedReq cu1) = [] \<and> cu_RespQue (procFailedReq cu1) = [] \<and> cu_FailQue (procFailedReq cu1) = []"
proof -
  let ?kv = "sample_kv\<lparr>kv_processQue := [sample_op], kv_clientConns := [3 \<mapsto> 5]\<rparr>"
  have kv: "kv_processQue ?kv = sample_op # []" "op_Optype sample_op \<noteq> GET" "rf_role (kv_rf ?kv) \<noteq> Leader"
    "\<And>h. kv_history ?kv (op_ClerkId sample_op) = Some h \<Longrightarrow> sr_IncrId h \<noteq> op_IncrId sample_op"
    "kv_sendQueues ?kv = []" "\<not> kv_closed ?kv" "kv_clientConns ?kv (op_ClerkId sample_op) = Some 5" "cu_FailQue NewCluster = []"
    "4 + length (op_Key sample_op) + length (op_Value sample_op) < 2 ^ 32"
    "within_limit 4096 (of_nat (4 + length (op_Key sample_op) + length (op_Value sample_op)))"
    by (simp_all add: sample_kv_def sample_op_def GET_def PUT_def Make_def NewCluster_def within_limit_def)
  from rejected_write_is_lost [OF kv(1-7) TrueI kv(8-10), of sample_codec "[]"] show ?thesis
    by (auto simp: NewCluster_def)
qed

section \<open>Status messages\<close>

lemma SyncMsg_head:
  "SyncMsgPack_UnpackHead (SyncMsgPack_Pack m) = Inr (m\<lparr>sm_Port := 0, sm_Ip := []\<rparr>)" "length (SyncMsgPack_Pack m) = syncHeadLen"
  using u32.dec_enc_nil
  by (auto simp: SyncMsgPack_UnpackHead_def SyncMsgPack_Pack_def syncHeadLen_def codec_simps)

lemma SyncMsg_body: "SyncMsgPack_UnpackBody (write_u32 (sm_Port m) @ sm_Ip m) m' = Some (Inr (m'\<lparr>sm_Port := sm_Port m, sm_Ip := sm_Ip m\<rparr>))"
  using u32.dec_enc_nil [of "sm_Port m"]
  by (simp add: SyncMsgPack_UnpackBody_def slice_to_def slice_from_def)

lemma handleSync_address:
  assumes "0 < length (sm_Ip m)" and "length (sm_Ip m) + 4 < 2 ^ 15" and "sm_IpLen m = of_nat (length (sm_Ip m))"
  shows "handleSync dial (SyncMsgPack_PackAddr m @ rest) cu = Some (Inr (rest, syncConfirm),
     let cu1 = setLeader m (setNode m cu)
     in if cu_Conns cu1 (sm_ServerId m) = None then snd (connectToNode dial (sm_ServerId m) cu1) else cu1)"
proof -
  let ?b = "write_u32 (sm_Port m) @ sm_Ip m"
  have m: "SyncMsgPack_PackAddr m @ rest = SyncMsgPack_Pack m @ ?b @ rest"
    by (simp add: SyncMsgPack_PackAddr_def SyncMsgPack_Pack_def)
  have len: "sint (of_int (int n) :: 16 word) = int n" if "n < 2 ^ 15" for n
    using that by (simp only: signed_of_int) (simp add: signed_take_bit_int_eq_self)
  have "sm_IpLen m + 4 = of_int (int (length (sm_Ip m) + 4))" using assms(3) by simp
  then have "sint (sm_IpLen m + 4) = int (length ?b)" using len [OF assms(2)] by simp
  moreover have "sint (sm_IpLen m) = int (length (sm_Ip m))" using len [of "length (sm_Ip m)"] assms(2,3) by simp
  moreover have "m\<lparr>sm_Port := sm_Port m, sm_Ip := sm_Ip m\<rparr> = m" by simp
  ultimately show ?thesis
    using assms(1) unfolding handleSync_def m
    by (simp add: readFull_append SyncMsg_head SyncMsg_body Let_def del: append_assoc)
qed

lemma handleSync_state:
  assumes "sm_IpLen m = 0" and "sm_Port m = 0" and "sm_Ip m = []"
  shows "handleSync dial (SyncMsgPack_Pack m @ rest) cu = Some (Inr (rest, []),
     let cu1 = setNodeState m (setLeader m cu)
     in adjust (sm_ServerId m) (commitDiff (sm_ServerId m) cu1) cu1)"
proof -
  have "m\<lparr>sm_Port := 0, sm_Ip := []\<rparr> = m" using assms by (cases m) simp
  note eq = this
  from assms(1) show ?thesis
    by (simp add: handleSync_def readFull_append SyncMsg_head eq Let_def del: append_assoc)
qed

lemma sync_code: "readFull 4 syncConfirm = Inr (replicate 4 0, write_u32 200)" "read_u32 (replicate 4 0) = Inr (0, [])" "errName 0 = []"
proof -
  show "readFull 4 syncConfirm = Inr (replicate 4 0, write_u32 200)"
    using readFull_append [of "replicate 4 0" 4] by (simp add: syncConfirm_def)
  show "read_u32 (replicate 4 0) = Inr (0, [])" by code_simp
  show "errName 0 = []" by (simp add: errName_def ErrIdMap_def)
qed

text \<open>
  C26: the first status message of a server makes the cluster manager know its address and open a
  connection, and the confirmation makes the server go over to short messages, which change the
  state of the node and keep its address. The code in the confirmation, though, is read as 0,
  which is no name.
\<close>

theorem sync_handshake:
  assumes "\<not> kv_initialized kv" and "0 < length (kv_ip kv)" and "length (kv_ip kv) + 4 < 2 ^ 15"
    and "cu_Conns cu (kv_me kv) = None" and "kv_initialized kv2" and "kv_me kv2 = kv_me kv"
  shows "\<exists>cu1 cu2. handleSync (Some conn) (statusMsg kv @ rest) cu = Some (Inr (rest, syncConfirm), cu1) \<and>
     cu_Nodes cu1 (kv_me kv) = Some \<lparr>nd_CommitIndex = of_int (rf_commitIndex (kv_rf kv)),
       nd_IsLeader = (rf_role (kv_rf kv) = Leader), nd_Port = kv_sendPort kv, nd_Ip = kv_ip kv\<rparr> \<and>
     cu_Conns cu1 (kv_me kv) = Some conn \<and>
     cu_LeaderId cu1 = (if rf_role (kv_rf kv) = Leader then kv_me kv else cu_LeaderId cu) \<and>
     sendStatus None (Inr syncConfirm) kv = (Inr [], kv\<lparr>kv_initialized := True\<rparr>) \<and>
     handleSync dial (statusMsg kv2 @ rest') cu1 = Some (Inr (rest', []), cu2) \<and>
     cu_Nodes cu2 (kv_me kv) = Some \<lparr>nd_CommitIndex = of_int (rf_commitIndex (kv_rf kv2)),
       nd_IsLeader = (rf_role (kv_rf kv2) = Leader), nd_Port = kv_sendPort kv, nd_Ip = kv_ip kv\<rparr> \<and>
     (\<exists>d. cu_AdjustCh cu2 = cu_AdjustCh cu1 @ [\<lparr>ao_Id = kv_me kv, ao_Value = d\<rparr>])"
proof -
  define m where "m = \<lparr>sm_CommitIndex = of_int (rf_commitIndex (kv_rf kv)), sm_IsLeader = (rf_role (kv_rf kv) = Leader),
     sm_IpLen = of_nat (length (kv_ip kv)), sm_ServerId = kv_me kv, sm_Port = kv_sendPort kv, sm_Ip = kv_ip kv\<rparr>"
  define m2 where "m2 = \<lparr>sm_CommitIndex = of_int (rf_commitIndex (kv_rf kv2)), sm_IsLeader = (rf_role (kv_rf kv2) = Leader),
     sm_IpLen = 0, sm_ServerId = kv_me kv, sm_Port = 0, sm_Ip = []\<rparr>"
  have "statusMsg kv = SyncMsgPack_PackAddr m" "statusMsg kv2 = SyncMsgPack_Pack m2"
    using assms(1,5,6) by (simp_all add: statusMsg_def GetState_def m_def m2_def)
  moreover define cu1 where "cu1 = snd (connectToNode (Some conn) (kv_me kv) (setLeader m (setNode m cu)))"
  have conns: "cu_Conns (setLeader m (setNode m cu)) (kv_me kv) = None"
    using assms(4) by (simp add: setLeader_def setNode_def split: option.splits)
  have "handleSync (Some conn) (SyncMsgPack_PackAddr m @ rest) cu = Some (Inr (rest, syncConfirm), cu1)"
    using handleSync_address [of m] assms(2,3) conns by (simp add: m_def cu1_def)
  moreover define cu2 where "cu2 = (let c = setNodeState m2 (setLeader m2 cu1) in adjust (kv_me kv) (commitDiff (kv_me kv) c) c)"
  have "handleSync dial (SyncMsgPack_Pack m2 @ rest') cu1 = Some (Inr (rest', []), cu2)"
    using handleSync_state [of m2] by (simp add: m2_def cu2_def)
  moreover have node: "cu_Nodes cu1 (kv_me kv) = Some \<lparr>nd_CommitIndex = sm_CommitIndex m, nd_IsLeader = sm_IsLeader m,
      nd_Port = kv_sendPort kv, nd_Ip = kv_ip kv\<rparr>" "cu_Conns cu1 (kv_me kv) = Some conn"
    "cu_LeaderId cu1 = (if rf_role (kv_rf kv) = Leader then kv_me kv else cu_LeaderId cu)"
    by (auto simp: cu1_def connectToNode_def setLeader_def setNode_def m_def split: option.splits)
  moreover have "cu_Nodes cu2 (kv_me kv) = Some \<lparr>nd_CommitIndex = sm_CommitIndex m2, nd_IsLeader = sm_IsLeader m2,
      nd_Port = kv_sendPort kv, nd_Ip = kv_ip kv\<rparr>" "\<exists>d. cu_AdjustCh cu2 = cu_AdjustCh cu1 @ [\<lparr>ao_Id = kv_me kv, ao_Value = d\<rparr>]"
    using node(1) by (auto simp: cu2_def adjust_def setNodeState_def setLeader_def m2_def Let_def split: option.splits)
  moreover have "sendStatus None (Inr syncConfirm) kv = (Inr [], kv\<lparr>kv_initialized := True\<rparr>)"
    using assms(1) by (simp add: sendStatus_def sync_code)
  ultimately show ?thesis by (simp add: m_def m2_def)
qed

theorem sync_handshake_witness:
  "\<exists>cu1 cu2. handleSync (Some 8) (statusMsg (sample_kv\<lparr>kv_ip := [49], kv_sendPort := 80\<rparr>)) NewCluster = Some (Inr ([], syncConfirm), cu1) \<and>
     cu_Conns cu1 0 = Some 8 \<and>
     handleSync None (statusMsg (sample_kv\<lparr>kv_initialized := True\<rparr>)) cu1 = Some (Inr ([], []), cu2) \<and>
     map_option nd_Port (cu_Nodes cu2 0) = Some 80"
proof -
  let ?kv = "sample_kv\<lparr>kv_ip := [49], kv_sendPort := 80\<rparr>"
  have "\<not> kv_initialized ?kv" "0 < length (kv_ip ?kv)" "length (kv_ip ?kv) + 4 < 2 ^ 15" "cu_Conns NewCluster (kv_me ?kv) = None"
    "kv_initialized (sample_kv\<lparr>kv_initialized := True\<rparr>)" "kv_me (sample_kv\<lparr>kv_initialized := True\<rparr>) = kv_me ?kv"
    by (simp_all add: sample_kv_def NewCluster_def)
  from sync_handshake [OF this, of 8 "[]" None "[]"] show ?thesis
    by (auto simp: sample_kv_def)
qed

end
