(* ===== verification/TcpProxy.thy ===== *)
theory TcpProxy
  imports Common Persister
begin

text \<open>
  The proxy of \<^verbatim>\<open>src/proxy/tcpproxy.go\<close>, which gives every client connection to one of its
  endpoints. A remote is named by its position in \<^verbatim>\<open>remotes\<close>, as the slices of \<^verbatim>\<open>pick\<close> hold pointers. The
  random numbers and the outcome of \<^verbatim>\<open>net.Dial\<close> are arguments; copying the bytes between two
  connections is done by the library and not modelled.

  \<open>pick_active\<close> says which remote is picked, \<open>serve_ends\<close> that the loop of \<^verbatim>\<open>serve\<close> ends,
  \<open>weightless_ignore_priority\<close> and \<open>failed_accept_panics\<close> what goes wrong.
\<close>

section \<open>State\<close>

record SRV =
  srv_Target :: bytes
  srv_Port :: "16 word"
  srv_Priority :: "16 word"
  srv_Weight :: "16 word"

record remote =
  rm_srv :: SRV
  rm_addr :: bytes
  rm_inactive :: bool

record TCPProxy =
  tp_Endpoints :: "SRV list"
  tp_MonitorInterval :: int
  tp_remotes :: "remote list"
  tp_pickCount :: int
  tp_stopped :: bool

definition isActive :: "remote \<Rightarrow> bool" where
  "isActive r \<longleftrightarrow> \<not> rm_inactive r"

definition inactivate :: "nat \<Rightarrow> TCPProxy \<Rightarrow> TCPProxy" where
  "inactivate i tp = tp\<lparr>tp_remotes := (tp_remotes tp)[i := (tp_remotes tp ! i)\<lparr>rm_inactive := True\<rparr>]\<rparr>"

definition tryReactivate :: "bool \<Rightarrow> remote \<Rightarrow> remote" where
  "tryReactivate dialOk r = (if dialOk then r\<lparr>rm_inactive := False\<rparr> else r)"

text \<open>The part of \<^verbatim>\<open>Run\<close> before the listeners; the interval is in seconds.\<close>

definition JoinHostPort :: "bytes \<Rightarrow> bytes \<Rightarrow> bytes" where
  "JoinHostPort host port =
     (if 58 \<in> set host then ascii ''['' @ host @ ascii '']:'' @ port else host @ ascii '':'' @ port)"

definition Run :: "TCPProxy \<Rightarrow> TCPProxy" where
  "Run tp = tp\<lparr>
     tp_MonitorInterval := (if tp_MonitorInterval tp = 0 then 300 else tp_MonitorInterval tp),
     tp_remotes := tp_remotes tp @ map (\<lambda>srv. \<lparr>rm_srv = srv,
        rm_addr = JoinHostPort (srv_Target srv) (ascii (Itoa (uint (srv_Port srv)))), rm_inactive = False\<rparr>) (tp_Endpoints tp)\<rparr>"

section \<open>Picking a remote\<close>

text \<open>The loop that finds the best priority class.\<close>

record scan =
  sc_bestPr :: "16 word"
  sc_w :: int
  sc_weighted :: "nat list"
  sc_unweighted :: "nat list"

definition scan_class :: "nat \<Rightarrow> remote \<Rightarrow> scan \<Rightarrow> scan" where
  "scan_class i r s =
     (if 0 < srv_Weight (rm_srv r)
      then s\<lparr>sc_weighted := sc_weighted s @ [i], sc_w := sc_w s + uint (srv_Weight (rm_srv r))\<rparr>
      else s\<lparr>sc_unweighted := sc_unweighted s @ [i]\<rparr>)"

definition scan_one :: "nat \<Rightarrow> remote \<Rightarrow> scan \<Rightarrow> scan" where
  "scan_one i r s =
     (if \<not> isActive r then s
      else if srv_Priority (rm_srv r) < sc_bestPr s
      then scan_class i r \<lparr>sc_bestPr = srv_Priority (rm_srv r), sc_w = 0, sc_weighted = [], sc_unweighted = []\<rparr>
      else if srv_Priority (rm_srv r) = sc_bestPr s then scan_class i r s
      else s)"

fun scan_all :: "nat \<Rightarrow> remote list \<Rightarrow> scan \<Rightarrow> scan" where
  "scan_all i [] s = s"
| "scan_all i (r # rs) s = scan_all (Suc i) rs (scan_one i r s)"

definition scan_start :: scan where
  "scan_start = \<lparr>sc_bestPr = 65535, sc_w = 0, sc_weighted = [], sc_unweighted = []\<rparr>"

fun pickWeighted :: "remote list \<Rightarrow> nat list \<Rightarrow> int \<Rightarrow> nat option" where
  "pickWeighted rs [] n = None"
| "pickWeighted rs (i # is) n =
     (let c = n - uint (srv_Weight (rm_srv (rs ! i))) in if c \<le> 0 then Some i else pickWeighted rs is c)"

text \<open>The loop over all remotes; \<open>n\<close> is the number of rounds left.\<close>

fun pickRobin :: "remote list \<Rightarrow> nat \<Rightarrow> int \<Rightarrow> nat option \<times> int" where
  "pickRobin rs 0 count = (None, count)"
| "pickRobin rs (Suc n) count =
     (let i = nat (count mod int (length rs)) in
      if isActive (rs ! i) then (Some i, count + 1) else pickRobin rs n (count + 1))"

text \<open>
  \<open>r100\<close> is the value of \<^verbatim>\<open>rand.Intn(100)\<close>; that of \<^verbatim>\<open>rand.Intn(w)\<close> is \<open>rw\<close> modulo the sum, which can be
  any number below it. The counter starts at 0 and only grows.
\<close>

definition pick :: "int \<Rightarrow> int \<Rightarrow> TCPProxy \<Rightarrow> nat option \<times> TCPProxy" where
  "pick r100 rw tp =
     (let rs = tp_remotes tp;
          s = scan_all 0 rs scan_start;
          us = sc_unweighted s;
          robin = (if us = [] then (None, tp)
                   else (case pickRobin rs (length rs) (tp_pickCount tp) of (p, c) \<Rightarrow> (p, tp\<lparr>tp_pickCount := c\<rparr>)))
      in if sc_weighted s = [] then robin
         else if us \<noteq> [] \<and> r100 = 1
         then (Some (us ! nat (tp_pickCount tp mod int (length us))), tp\<lparr>tp_pickCount := tp_pickCount tp + 1\<rparr>)
         else (case pickWeighted rs (sc_weighted s) (rw mod sc_w s) of Some i \<Rightarrow> (Some i, tp) | None \<Rightarrow> robin))"

section \<open>Serving a connection\<close>

text \<open>
  The loop of \<^verbatim>\<open>serve\<close>; each round has its random numbers and says whether the connection to the
  remote can be opened. \<open>None\<close> means that the rounds given do not suffice.
\<close>

fun serve_loop :: "(int \<times> int \<times> bool) list \<Rightarrow> TCPProxy \<Rightarrow> (nat option \<times> TCPProxy) option" where
  "serve_loop [] tp = None"
| "serve_loop ((r100, rw, dialOk) # xs) tp = (case pick r100 rw tp of
       (None, tp1) \<Rightarrow> Some (None, tp1)
     | (Some i, tp1) \<Rightarrow> if dialOk then Some (Some i, tp1) else serve_loop xs (inactivate i tp1))"

text \<open>
  \<^verbatim>\<open>serve\<close>: the remote the connection is given to, if any. A nil connection is dereferenced, to be
  closed or to copy from it.
\<close>

definition serve :: "(int \<times> int \<times> bool) list \<Rightarrow> nat option \<Rightarrow> TCPProxy \<Rightarrow> (nat option \<times> TCPProxy) option" where
  "serve xs conn tp = do {
     (out, tp1) \<leftarrow> serve_loop xs tp;
     _ \<leftarrow> deref conn;
     Some (out, tp1)
   }"

text \<open>
  One round of the two accepting loops of \<^verbatim>\<open>Run\<close>: on an error \<^verbatim>\<open>Accept\<close> returns no connection, which
  is served all the same. The channel for the error has room for one.
\<close>

definition acceptLoop :: "(int \<times> int \<times> bool) list \<Rightarrow> nat option \<Rightarrow> nat \<Rightarrow> TCPProxy \<Rightarrow> (nat \<times> TCPProxy) option" where
  "acceptLoop xs accepted errs tp =
     (if accepted = None \<and> 1 \<le> errs then None
      else do {
        (_, tp1) \<leftarrow> serve xs accepted tp;
        Some (if accepted = None then errs + 1 else errs, tp1)
      })"

text \<open>A round of \<^verbatim>\<open>runMonitor\<close>; \<open>dialOk\<close> says which remotes can be reached.\<close>

definition runMonitor :: "(nat \<Rightarrow> bool) \<Rightarrow> TCPProxy \<Rightarrow> TCPProxy" where
  "runMonitor dialOk tp = tp\<lparr>tp_remotes := map (\<lambda>(i, r). if isActive r then r else tryReactivate (dialOk i) r)
     (zip [0..<length (tp_remotes tp)] (tp_remotes tp))\<rparr>"

definition Stop :: "TCPProxy \<Rightarrow> TCPProxy option" where
  "Stop tp = (if tp_stopped tp then None else Some (tp\<lparr>tp_stopped := True\<rparr>))"

section \<open>The class of the best priority\<close>

definition class_of :: "remote list \<Rightarrow> bool \<Rightarrow> 16 word \<Rightarrow> nat list" where
  "class_of rs weighted p = [j \<leftarrow> [0..<length rs]. isActive (rs ! j) \<and> srv_Priority (rm_srv (rs ! j)) = p \<and>
     (0 < srv_Weight (rm_srv (rs ! j))) = weighted]"

lemma class_of_snoc:
  "class_of (rs @ [r]) weighted p = class_of rs weighted p @
     (if isActive r \<and> srv_Priority (rm_srv r) = p \<and> (0 < srv_Weight (rm_srv r)) = weighted then [length rs] else [])"
proof -
  have "[j \<leftarrow> [0..<length rs]. P ((rs @ [r]) ! j)] = [j \<leftarrow> [0..<length rs]. P (rs ! j)]" for P
    by (rule filter_cong) (auto simp: nth_append)
  from this [of "\<lambda>x. isActive x \<and> srv_Priority (rm_srv x) = p \<and> (0 < srv_Weight (rm_srv x)) = weighted"] show ?thesis
    by (simp add: class_of_def)
qed

definition weight_at :: "remote list \<Rightarrow> nat \<Rightarrow> int" where
  "weight_at rs j = uint (srv_Weight (rm_srv (rs ! j)))"

lemma scan_snoc: "scan_all i (rs @ [r]) s = scan_one (i + length rs) r (scan_all i rs s)"
  by (induction rs arbitrary: i s) simp_all

definition scanned :: "remote list \<Rightarrow> scan \<Rightarrow> bool" where
  "scanned rs s \<longleftrightarrow> sc_weighted s = class_of rs True (sc_bestPr s) \<and> sc_unweighted s = class_of rs False (sc_bestPr s) \<and>
     sc_w s = sum_list (map (weight_at rs) (sc_weighted s)) \<and>
     (\<forall>r \<in> set rs. isActive r \<longrightarrow> sc_bestPr s \<le> srv_Priority (rm_srv r))"

lemma weight_at_snoc [simp]:
  "map (weight_at (rs @ [r])) (class_of rs weighted p) = map (weight_at rs) (class_of rs weighted p)"
  by (auto simp: weight_at_def class_of_def nth_append)

lemma weight_at_last [simp]: "weight_at (rs @ [r]) (length rs) = uint (srv_Weight (rm_srv r))"
  by (simp add: weight_at_def)

lemma class_of_empty:
  "(\<And>r. r \<in> set rs \<Longrightarrow> isActive r \<Longrightarrow> p < srv_Priority (rm_srv r)) \<Longrightarrow> class_of rs weighted p = []"
  unfolding class_of_def filter_empty_conv using nth_mem by fastforce

lemma scanned_skip:
  "scanned rs s \<Longrightarrow> \<not> isActive r \<or> sc_bestPr s < srv_Priority (rm_srv r) \<Longrightarrow> scanned (rs @ [r]) s"
  by (auto simp: scanned_def class_of_snoc)

lemma scanned_class:
  assumes "scanned rs s" and "isActive r" and "srv_Priority (rm_srv r) = sc_bestPr s"
  shows "scanned (rs @ [r]) (scan_class (length rs) r s)"
proof (cases "0 < srv_Weight (rm_srv r)")
  case True
  with assms have "scanned (rs @ [r]) (s\<lparr>sc_weighted := sc_weighted s @ [length rs], sc_w := sc_w s + uint (srv_Weight (rm_srv r))\<rparr>)"
    by (simp add: scanned_def class_of_snoc)
  with True show ?thesis by (simp only: scan_class_def if_True)
next
  case False
  with assms have "scanned (rs @ [r]) (s\<lparr>sc_unweighted := sc_unweighted s @ [length rs]\<rparr>)"
    by (simp add: scanned_def class_of_snoc)
  with False show ?thesis by (simp only: scan_class_def if_False)
qed

lemma scan_one_scanned:
  assumes "scanned rs s"
  shows "scanned (rs @ [r]) (scan_one (length rs) r s)"
proof -
  let ?p = "srv_Priority (rm_srv r)"
  let ?new = "\<lparr>sc_bestPr = ?p, sc_w = 0, sc_weighted = [], sc_unweighted = []\<rparr>"
  have low: "scanned rs ?new" if "?p < sc_bestPr s"
  proof -
    have p: "?p < srv_Priority (rm_srv x)" if "x \<in> set rs" "isActive x" for x
      using assms that \<open>?p < sc_bestPr s\<close> by (auto simp: scanned_def intro: less_le_trans)
    then have "class_of rs weighted ?p = []" for weighted by (rule class_of_empty)
    with p show ?thesis by (simp add: scanned_def less_imp_le)
  qed
  consider "\<not> isActive r" | "isActive r" "?p < sc_bestPr s" | "isActive r" "?p = sc_bestPr s" | "isActive r" "sc_bestPr s < ?p"
    using linorder_less_linear [of "?p" "sc_bestPr s"] by blast
  then show ?thesis
  proof cases
    case 2
    with scanned_class [OF low, of r] show ?thesis by (simp add: scan_one_def)
  next
    case 3
    with scanned_class [OF assms, of r] show ?thesis by (simp add: scan_one_def)
  qed (use scanned_skip [OF assms, of r] in \<open>auto simp: scan_one_def\<close>)
qed

lemma scan_all_scanned: "scanned rs (scan_all 0 rs scan_start)"
proof (induction rs rule: rev_induct)
  case (snoc r rs)
  then show ?case using scan_one_scanned [of rs] by (simp add: scan_snoc)
qed (simp add: scanned_def scan_start_def class_of_def)

section \<open>Which remote is picked\<close>

abbreviation active :: "TCPProxy \<Rightarrow> nat \<Rightarrow> bool" where
  "active tp i \<equiv> i < length (tp_remotes tp) \<and> isActive (tp_remotes tp ! i)"

abbreviation priority :: "TCPProxy \<Rightarrow> nat \<Rightarrow> 16 word" where
  "priority tp i \<equiv> srv_Priority (rm_srv (tp_remotes tp ! i))"

abbreviation has_weight :: "TCPProxy \<Rightarrow> nat \<Rightarrow> bool" where
  "has_weight tp i \<equiv> 0 < srv_Weight (rm_srv (tp_remotes tp ! i))"

definition best :: "TCPProxy \<Rightarrow> nat \<Rightarrow> bool" where
  "best tp i \<longleftrightarrow> active tp i \<and> (\<forall>j. active tp j \<longrightarrow> priority tp i \<le> priority tp j)"

lemma in_class_of:
  "i \<in> set (class_of rs weighted p) \<longleftrightarrow> i < length rs \<and> isActive (rs ! i) \<and> srv_Priority (rm_srv (rs ! i)) = p \<and>
     (0 < srv_Weight (rm_srv (rs ! i))) = weighted"
  by (auto simp: class_of_def)

lemma max_priority: "(65535 :: 16 word) \<le> w \<Longrightarrow> w = 65535"
proof -
  assume "(65535 :: 16 word) \<le> w"
  moreover have "(65535 :: 16 word) = - 1" by simp
  ultimately show ?thesis using word_n1_ge [of w] by (metis order_antisym)
qed

lemma scan_best_step: "sc_bestPr (scan_one i r s) = (if isActive r \<and> srv_Priority (rm_srv r) < sc_bestPr s then srv_Priority (rm_srv r) else sc_bestPr s)"
  by (simp add: scan_one_def scan_class_def)

lemma scan_best_attained:
  "sc_bestPr (scan_all i rs s) = sc_bestPr s \<or> (\<exists>r \<in> set rs. isActive r \<and> srv_Priority (rm_srv r) = sc_bestPr (scan_all i rs s))"
proof (induction rs arbitrary: i s)
  case (Cons r rs)
  from Cons.IH [of "Suc i" "scan_one i r s"] show ?case
    by (auto simp: scan_best_step split: if_splits)
qed simp

text \<open>The scan collects exactly the remotes of the best priority, with weight and without.\<close>

lemma scan_collects_best:
  fixes tp :: TCPProxy
  defines "s \<equiv> scan_all 0 (tp_remotes tp) scan_start"
  shows "set (sc_weighted s) = {i. best tp i \<and> has_weight tp i}"
    and "set (sc_unweighted s) = {i. best tp i \<and> \<not> has_weight tp i}"
    and "sc_w s = sum_list (map (weight_at (tp_remotes tp)) (sc_weighted s))"
proof -
  have sc: "scanned (tp_remotes tp) s" unfolding s_def by (rule scan_all_scanned)
  have low: "sc_bestPr s \<le> priority tp j" if "active tp j" for j
    using sc that by (simp add: scanned_def)
  have "priority tp i = sc_bestPr s" if b: "best tp i" for i
  proof (cases "sc_bestPr s = 65535")
    case True
    from b have "active tp i" by (simp add: best_def)
    from low [OF this] max_priority True show ?thesis by metis
  next
    case False
    then have "sc_bestPr s \<noteq> sc_bestPr scan_start" by (simp add: scan_start_def)
    with scan_best_attained [of 0 "tp_remotes tp" scan_start] obtain r
      where r: "r \<in> set (tp_remotes tp)" "isActive r" "srv_Priority (rm_srv r) = sc_bestPr s"
      unfolding s_def by metis
    then obtain j where j: "active tp j" "priority tp j = sc_bestPr s" by (metis in_set_conv_nth)
    from b have "active tp i" "priority tp i \<le> priority tp j" using j(1) by (simp_all add: best_def)
    with low [OF \<open>active tp i\<close>] j(2) show ?thesis by simp
  qed
  with low have b: "best tp i \<longleftrightarrow> active tp i \<and> priority tp i = sc_bestPr s" for i unfolding best_def by metis
  from sc have "sc_weighted s = class_of (tp_remotes tp) True (sc_bestPr s)" "sc_unweighted s = class_of (tp_remotes tp) False (sc_bestPr s)"
    by (simp_all add: scanned_def)
  then show "set (sc_weighted s) = {i. best tp i \<and> has_weight tp i}" "set (sc_unweighted s) = {i. best tp i \<and> \<not> has_weight tp i}"
    by (simp_all only: b) (auto simp: in_class_of)
  show "sc_w s = sum_list (map (weight_at (tp_remotes tp)) (sc_weighted s))" using sc by (simp add: scanned_def)
qed

lemma best_exists: "active tp i \<Longrightarrow> \<exists>j. best tp j"
proof -
  assume "active tp i"
  then have "finite {priority tp j | j. active tp j}" "{priority tp j | j. active tp j} \<noteq> {}" by auto
  from Min_in [OF this] Min_le [OF this(1)] show ?thesis by (force simp: best_def)
qed

lemma pickWeighted_member: "pickWeighted rs is n = Some i \<Longrightarrow> i \<in> set is"
  by (induction rs "is" n rule: pickWeighted.induct) (auto simp: Let_def split: if_splits)

lemma pickWeighted_picks:
  "is \<noteq> [] \<Longrightarrow> n < sum_list (map (weight_at rs) is) \<Longrightarrow> \<exists>i. pickWeighted rs is n = Some i"
proof (induction rs "is" n rule: pickWeighted.induct)
  case (2 rs i "is" n)
  then show ?case by (cases "is = []") (auto simp: Let_def weight_at_def)
qed simp

lemma pickRobin_active:
  "pickRobin rs n c = (Some i, c') \<Longrightarrow> rs \<noteq> [] \<Longrightarrow> i < length rs \<and> isActive (rs ! i)"
  by (induction rs n c rule: pickRobin.induct) (auto simp: Let_def nat_less_iff split: if_splits)

lemma pickRobin_round:
  "pickRobin rs n c = (None, c') \<Longrightarrow> k < n \<Longrightarrow> \<not> isActive (rs ! nat ((c + int k) mod int (length rs)))"
proof (induction rs n c arbitrary: k rule: pickRobin.induct)
  case (2 rs n c)
  then show ?case by (cases k) (auto simp: Let_def ac_simps split: if_splits)
qed simp

lemma pickRobin_finds:
  assumes "j < length rs" and "isActive (rs ! j)"
  shows "\<exists>i c'. pickRobin rs (length rs) c = (Some i, c')"
proof (rule ccontr)
  let ?n = "int (length rs)"
  assume "\<not> ?thesis"
  then obtain c' where "pickRobin rs (length rs) c = (None, c')" by (cases "pickRobin rs (length rs) c") auto
  moreover have "0 < ?n" using assms(1) by linarith
  then have m: "0 \<le> (int j - c) mod ?n" "(int j - c) mod ?n < ?n" by simp_all
  ultimately have "\<not> isActive (rs ! nat ((c + int (nat ((int j - c) mod ?n))) mod ?n))"
    by (intro pickRobin_round [of rs "length rs" c c']) linarith+
  moreover have "(c + int (nat ((int j - c) mod ?n))) mod ?n = int j mod ?n" using m(1) by (simp add: mod_simps)
  ultimately show False using assms by simp
qed

lemma pick_robin:
  assumes "sc_weighted (scan_all 0 (tp_remotes tp) scan_start) = []" and "active tp j"
  shows "\<exists>i. fst (pick r100 rw tp) = Some i \<and> active tp i"
proof -
  obtain k where "best tp k" using best_exists [OF assms(2)] by blast
  then have "sc_unweighted (scan_all 0 (tp_remotes tp) scan_start) \<noteq> []"
    using scan_collects_best(1,2) [of tp] assms(1) by fastforce
  moreover obtain i c where p: "pickRobin (tp_remotes tp) (length (tp_remotes tp)) (tp_pickCount tp) = (Some i, c)"
    using pickRobin_finds [of j "tp_remotes tp"] assms(2) by blast
  moreover from pickRobin_active [OF p] assms(2) have "active tp i" by fastforce
  ultimately show ?thesis using assms(1) by (simp add: pick_def Let_def)
qed

lemma weight_at_nonneg: "0 \<le> weight_at rs i"
  by (simp add: weight_at_def)

lemma pick_weighted:
  assumes "sc_weighted (scan_all 0 (tp_remotes tp) scan_start) \<noteq> []"
  shows "\<exists>i. fst (pick r100 rw tp) = Some i \<and> best tp i"
proof -
  let ?s = "scan_all 0 (tp_remotes tp) scan_start"
  let ?us = "sc_unweighted ?s"
  note sc = scan_collects_best [of tp]
  show ?thesis
  proof (cases "?us \<noteq> [] \<and> r100 = 1")
    case True
    then have "?us ! nat (tp_pickCount tp mod int (length ?us)) \<in> set ?us" by (intro nth_mem) (simp add: nat_less_iff)
    with sc(2) have "best tp (?us ! nat (tp_pickCount tp mod int (length ?us)))" by blast
    with True assms show ?thesis by (simp add: pick_def Let_def)
  next
    case False
    have "0 < weight_at (tp_remotes tp) i" if "i \<in> set (sc_weighted ?s)" for i
      using that sc(1) by (auto simp: weight_at_def word_less_def)
    with assms have "0 < sc_w ?s" unfolding sc(3) by (cases "sc_weighted ?s") (auto intro!: add_pos_nonneg sum_list_nonneg simp: weight_at_nonneg)
    then obtain i where i: "pickWeighted (tp_remotes tp) (sc_weighted ?s) (rw mod sc_w ?s) = Some i"
      using pickWeighted_picks [OF assms, of "rw mod sc_w ?s" "tp_remotes tp"] sc(3) by fastforce
    then have "best tp i" using pickWeighted_member sc(1) by blast
    with False assms i show ?thesis by (auto simp: pick_def Let_def)
  qed
qed

lemma pick_none: "\<forall>i. \<not> active tp i \<Longrightarrow> fst (pick r100 rw tp) = None"
proof -
  assume "\<forall>i. \<not> active tp i"
  then have "set (sc_weighted (scan_all 0 (tp_remotes tp) scan_start)) = {}" "set (sc_unweighted (scan_all 0 (tp_remotes tp) scan_start)) = {}"
    unfolding scan_collects_best by (auto simp: best_def)
  then show ?thesis by (simp add: pick_def Let_def)
qed

lemma pick_cases:
  "(\<forall>i. \<not> active tp i) \<and> fst (pick r100 rw tp) = None \<or>
   (\<exists>i. fst (pick r100 rw tp) = Some i \<and> active tp i \<and> ((\<exists>j. best tp j \<and> has_weight tp j) \<longrightarrow> best tp i))"
proof (cases "\<exists>j. active tp j")
  case False
  with pick_none show ?thesis by blast
next
  case True
  show ?thesis
  proof (cases "sc_weighted (scan_all 0 (tp_remotes tp) scan_start) = []")
    case w: True
    with scan_collects_best(1) [of tp] have "\<not> (best tp j \<and> has_weight tp j)" for j by auto
    with pick_robin [OF w] True show ?thesis by blast
  next
    case False
    from pick_weighted [OF this] show ?thesis by (auto simp: best_def)
  qed
qed

lemma pick_remotes [simp]: "tp_remotes (snd (pick r100 rw tp)) = tp_remotes tp"
  by (auto simp: pick_def Let_def split: prod.splits option.splits)

text \<open>Three remotes: one of priority 1 with a weight, one of priority 1 without, one of priority 2.\<close>

definition sample_remote :: "16 word \<Rightarrow> 16 word \<Rightarrow> remote" where
  "sample_remote pr w = \<lparr>rm_srv = \<lparr>srv_Target = ascii ''a'', srv_Port = 80, srv_Priority = pr, srv_Weight = w\<rparr>,
     rm_addr = ascii ''a:80'', rm_inactive = False\<rparr>"

definition sample_proxy :: TCPProxy where
  "sample_proxy = \<lparr>tp_Endpoints = [], tp_MonitorInterval = 300,
     tp_remotes = [sample_remote 2 7, sample_remote 1 0, sample_remote 1 5], tp_pickCount = 0, tp_stopped = False\<rparr>"

lemma sample_remotes:
  "active sample_proxy i \<longleftrightarrow> i = 0 \<or> i = 1 \<or> i = 2" "has_weight sample_proxy 2" "priority sample_proxy 2 = 1"
  "priority sample_proxy 0 = 2" "priority sample_proxy 1 = 1"
proof -
  have "i < 3 \<longleftrightarrow> i = 0 \<or> i = 1 \<or> i = 2" by auto
  then show "active sample_proxy i \<longleftrightarrow> i = 0 \<or> i = 1 \<or> i = 2"
    by (auto simp: sample_proxy_def sample_remote_def isActive_def)
qed (simp_all add: sample_proxy_def sample_remote_def)

lemma sample_best: "best sample_proxy 2"
  unfolding best_def sample_remotes(1) using sample_remotes(3-5) by auto

text \<open>
  C28: \<^verbatim>\<open>pick\<close> gives a remote exactly if one is active, and it is an active one; if the best priority
  among the active remotes has one with a weight, the picked one has that priority.
\<close>

theorem pick_active:
  "case fst (pick r100 rw tp) of
     None \<Rightarrow> \<forall>i. \<not> active tp i
   | Some i \<Rightarrow> active tp i \<and> ((\<exists>j. best tp j \<and> has_weight tp j) \<longrightarrow> best tp i)"
  using pick_cases [of tp r100 rw] by auto

theorem pick_active_witness:
  "\<exists>i. fst (pick 0 3 sample_proxy) = Some i \<and> active sample_proxy i \<and> best sample_proxy i"
proof -
  have "active sample_proxy 2" by (simp add: sample_remotes(1))
  then have "\<not> (\<forall>i. \<not> active sample_proxy i)" by blast
  with pick_active [of sample_proxy 0 3] obtain i where "fst (pick 0 3 sample_proxy) = Some i" "active sample_proxy i"
    "(\<exists>j. best sample_proxy j \<and> has_weight sample_proxy j) \<longrightarrow> best sample_proxy i"
    by (cases "fst (pick 0 3 sample_proxy)") auto
  with sample_best sample_remotes(2) show ?thesis by blast
qed

text \<open>
  If no active remote of the best priority has a weight, the remotes take turns whatever their
  priority: a remote that a better one should keep idle is picked as soon as it is its turn.
\<close>

lemma weightless_ignore_priority:
  assumes "\<And>j. best tp j \<Longrightarrow> \<not> has_weight tp j" and "0 \<le> tp_pickCount tp"
    and "i = nat (tp_pickCount tp mod int (length (tp_remotes tp)))" and "active tp i"
  shows "fst (pick r100 rw tp) = Some i"
proof -
  have "sc_weighted (scan_all 0 (tp_remotes tp) scan_start) = []"
    using scan_collects_best(1) [of tp] assms(1) by (auto simp flip: set_empty)
  moreover obtain k where "best tp k" using best_exists [OF assms(4)] by blast
  then have "sc_unweighted (scan_all 0 (tp_remotes tp) scan_start) \<noteq> []"
    using scan_collects_best(2) [of tp] assms(1) by fastforce
  moreover obtain n where "length (tp_remotes tp) = Suc n" using assms(4) by (cases "length (tp_remotes tp)") auto
  then have "pickRobin (tp_remotes tp) (length (tp_remotes tp)) (tp_pickCount tp) = (Some i, tp_pickCount tp + 1)"
    using assms(3,4) by (simp add: Let_def)
  ultimately show ?thesis by (simp add: pick_def Let_def)
qed

section \<open>The loop of serve\<close>

abbreviation actives :: "TCPProxy \<Rightarrow> nat set" where
  "actives tp \<equiv> {i. active tp i}"

lemma inactivate_actives: "actives (inactivate i tp) = actives tp - {i}"
  by (cases "i < length (tp_remotes tp)") (auto simp: inactivate_def isActive_def nth_list_update split: if_splits)

lemma serve_loop_returns:
  assumes "card (actives tp) < length xs"
  shows "\<exists>out tp'. serve_loop xs tp = Some (out, tp') \<and>
     (case out of None \<Rightarrow> actives tp' = {} | Some i \<Rightarrow> active tp i \<and> active tp' i)"
  using assms
proof (induction xs arbitrary: tp)
  case (Cons x xs)
  obtain r100 rw dialOk where x: "x = (r100, rw, dialOk)" by (cases x) auto
  obtain p tp1 where p: "pick r100 rw tp = (p, tp1)" by fastforce
  have r: "tp_remotes tp1 = tp_remotes tp" using pick_remotes [of r100 rw tp] p by simp
  show ?case
  proof (cases "\<exists>i. p = Some i \<and> \<not> dialOk")
    case True
    then obtain i where i: "p = Some i" "\<not> dialOk" by blast
    from pick_cases [of tp r100 rw] have "active tp i" unfolding p i(1) by simp
    have a: "actives (inactivate i tp1) = actives tp - {i}" unfolding inactivate_actives r ..
    moreover have "card (actives tp - {i}) < card (actives tp)" using \<open>active tp i\<close> by (intro card_Diff1_less) auto
    ultimately have "card (actives (inactivate i tp1)) < length xs" using Cons.prems by simp
    from Cons.IH [OF this] obtain out tp' where IH: "serve_loop xs (inactivate i tp1) = Some (out, tp')"
      "case out of None \<Rightarrow> actives tp' = {} | Some k \<Rightarrow> active (inactivate i tp1) k \<and> active tp' k" by blast
    have "active tp k" if "active (inactivate i tp1) k" for k using that a by blast
    with IH have "case out of None \<Rightarrow> actives tp' = {} | Some k \<Rightarrow> active tp k \<and> active tp' k" by (cases out) auto
    moreover have "serve_loop (x # xs) tp = Some (out, tp')" using IH(1) p i x by simp
    ultimately show ?thesis by blast
  next
    case False
    then have "serve_loop (x # xs) tp = Some (p, tp1)" using x p by (auto split: option.splits)
    moreover from pick_cases [of tp r100 rw] have "case p of None \<Rightarrow> actives tp1 = {} | Some k \<Rightarrow> active tp k \<and> active tp1 k"
      unfolding p r by (cases p) simp_all
    ultimately show ?thesis by blast
  qed
qed simp



text \<open>The loop ends, so a connection is served; but \<^verbatim>\<open>serve\<close> is also called after \<^verbatim>\<open>Accept\<close> has failed.\<close>

lemma failed_accept_panics:
  "card (actives tp) < length xs \<Longrightarrow> (\<exists>out tp'. serve xs (Some conn) tp = Some (out, tp')) \<and> acceptLoop xs None errs tp = None"
  using serve_loop_returns [of tp xs] by (auto simp: serve_def acceptLoop_def deref_def)

lemma inactive_until_monitor:
  "i < length (tp_remotes tp) \<Longrightarrow> active (runMonitor dialOk tp) i \<longleftrightarrow> active tp i \<or> dialOk i"
  by (auto simp: runMonitor_def tryReactivate_def isActive_def)

end
