(* ===== verification/LabGob.thy ===== *)
theory LabGob
  imports Prelude
begin

text \<open>
  The checks of \<^verbatim>\<open>src/labgob/labgob.go\<close>, the wrapper around the encoder of snapshots: \<^verbatim>\<open>checkType\<close> looks for
  fields that the encoder would drop, \<^verbatim>\<open>checkDefault\<close> for values that decoding would not overwrite.

  What \<^verbatim>\<open>reflect\<close> says of a type is a table: a type is a number, its kind the entry of the table. A type
  may contain itself through a pointer, so the table may be cyclic. The global variables \<^verbatim>\<open>checked\<close> and
  \<^verbatim>\<open>errorCount\<close> are the record \<open>lab\<close>; \<open>isUpper\<close> is the test of the first letter of a name.

  \<open>checkType_reports\<close> says that the checker ends and counts every bad field it can reach once,
  \<open>checkDefault_counts\<close> what the other one counts.
\<close>

section \<open>Types\<close>

datatype kind =
  Struct "(string \<times> nat) list"
| Slice nat
| Array nat
| Ptr nat
| MapOf nat nat
| OtherKind

type_synonym types = "kind list"

definition Kind :: "types \<Rightarrow> nat \<Rightarrow> kind" where
  "Kind env t = (if t < length env then env ! t else OtherKind)"

record lab =
  lg_checked :: "nat list"
  lg_errorCount :: int

text \<open>
  The calls of \<^verbatim>\<open>checkType\<close> that the body for a type makes, in order; a field of a struct has a name that
  is looked at before.
\<close>

fun elemCalls :: "kind \<Rightarrow> (string option \<times> nat) list" where
  "elemCalls (Struct fs) = map (\<lambda>(name, t). (Some name, t)) fs"
| "elemCalls (Slice t) = [(None, t)]"
| "elemCalls (Array t) = [(None, t)]"
| "elemCalls (Ptr t) = [(None, t)]"
| "elemCalls (MapOf elem key) = [(None, elem), (None, key)]"
| "elemCalls OtherKind = []"

definition complain :: "(string \<Rightarrow> bool) \<Rightarrow> string option \<Rightarrow> lab \<Rightarrow> lab" where
  "complain isUpper name s = (case name of
       Some f \<Rightarrow> if isUpper f then s else s\<lparr>lg_errorCount := lg_errorCount s + 1\<rparr>
     | None \<Rightarrow> s)"

definition unseen :: "types \<Rightarrow> lab \<Rightarrow> nat set" where
  "unseen env s = {..<length env} - set (lg_checked s)"

lemma complain_checked [simp]: "lg_checked (complain isUpper name s) = lg_checked s"
  by (simp add: complain_def split: option.split)

lemma elemCalls_out_of_range: "\<not> t < length env \<Longrightarrow> elemCalls (Kind env t) = []"
  by (simp add: Kind_def)

function checkCalls :: "(string \<Rightarrow> bool) \<Rightarrow> types \<Rightarrow> (string option \<times> nat) list \<Rightarrow> lab \<Rightarrow> lab" where
  "checkCalls isUpper env [] s = s"
| "checkCalls isUpper env ((name, t) # cs) s =
     (let s1 = complain isUpper name s in
      if t \<in> set (lg_checked s1) then checkCalls isUpper env cs s1
      else checkCalls isUpper env cs
             (checkCalls isUpper env (elemCalls (Kind env t)) (s1\<lparr>lg_checked := t # lg_checked s1\<rparr>)))"
  by pat_completeness auto

lemma checkCalls_dom_mono:
  "checkCalls_dom (isUpper, env, cs, s) \<Longrightarrow> set (lg_checked s) \<subseteq> set (lg_checked (checkCalls isUpper env cs s))"
proof (induction isUpper env cs s rule: checkCalls.pinduct)
  case (2 isUpper env name t cs s)
  show ?case
  proof (cases "t \<in> set (lg_checked s)")
    case True
    with 2 show ?thesis by (simp add: checkCalls.psimps(2) [OF 2(1)] Let_def)
  next
    case False
    with 2(3) [OF refl, simplified] 2(4) [OF refl, simplified] show ?thesis
      by (auto simp: checkCalls.psimps(2) [OF 2(1)] Let_def)
  qed
qed (simp add: checkCalls.psimps)

lemma unseen_less:
  assumes "t < length env" and "t \<notin> set (lg_checked s)" and "set (t # lg_checked s) \<subseteq> set (lg_checked s')"
  shows "card (unseen env s') < card (unseen env s)"
  using assms by (intro psubset_card_mono) (auto simp: unseen_def)

lemma unseen_le: "set (lg_checked s) \<subseteq> set (lg_checked s') \<Longrightarrow> card (unseen env s') \<le> card (unseen env s)"
  by (intro card_mono) (auto simp: unseen_def)

termination checkCalls
proof (relation "measures [\<lambda>(isUpper, env, cs, s). card (unseen env s), \<lambda>(isUpper, env, cs, s). length cs]", goal_cases)
  case (2 isUpper env name t cs s s1)
  then have "unseen env s1 = unseen env s" by (simp add: unseen_def)
  then show ?case by simp
next
  case (3 isUpper env name t cs s s1)
  then have u: "unseen env s1 = unseen env s" by (simp add: unseen_def)
  let ?s = "s1\<lparr>lg_checked := t # lg_checked s1\<rparr>"
  show ?case
  proof (cases "t < length env")
    case True
    with 3 u unseen_less [of t env s1 ?s] show ?thesis by simp
  next
    case False
    then have "unseen env ?s = unseen env s1" by (auto simp: unseen_def)
    with False u show ?thesis by (simp add: elemCalls_out_of_range)
  qed
next
  case (4 isUpper env name t cs s s1)
  then have "unseen env s1 = unseen env s" by (simp add: unseen_def)
  moreover from checkCalls_dom_mono [OF 4(3)] have "set (lg_checked s1) \<subseteq>
      set (lg_checked (checkCalls isUpper env (elemCalls (Kind env t)) (s1\<lparr>lg_checked := t # lg_checked s1\<rparr>)))" by simp
  from unseen_le [OF this, of env] calculation show ?case by (auto simp: le_less)
qed simp

definition checkType :: "(string \<Rightarrow> bool) \<Rightarrow> types \<Rightarrow> nat \<Rightarrow> lab \<Rightarrow> lab" where
  "checkType isUpper env t s = checkCalls isUpper env [(None, t)] s"

text \<open>A value is known by its type; \<^verbatim>\<open>reflect.TypeOf(nil)\<close> is nil, and its kind cannot be asked for.\<close>

definition checkValue :: "(string \<Rightarrow> bool) \<Rightarrow> types \<Rightarrow> nat option \<Rightarrow> lab \<Rightarrow> lab option" where
  "checkValue isUpper env v s = do { t \<leftarrow> deref v; Some (checkType isUpper env t s) }"

section \<open>Which fields are reported\<close>

abbreviation parts :: "types \<Rightarrow> nat \<Rightarrow> nat set" where
  "parts env t \<equiv> snd ` set (elemCalls (Kind env t))"

definition within :: "types \<Rightarrow> (nat \<times> nat) set" where
  "within env = {(t, u). u \<in> parts env t}\<^sup>*"

definition lower_fields :: "(string \<Rightarrow> bool) \<Rightarrow> (string option \<times> nat) list \<Rightarrow> int" where
  "lower_fields isUpper cs = int (length [c \<leftarrow> cs. case fst c of Some f \<Rightarrow> \<not> isUpper f | None \<Rightarrow> False])"

abbreviation lower_in :: "(string \<Rightarrow> bool) \<Rightarrow> types \<Rightarrow> nat \<Rightarrow> int" where
  "lower_in isUpper env t \<equiv> lower_fields isUpper (elemCalls (Kind env t))"

lemma lower_fields_Cons:
  "lower_fields isUpper ((name, t) # cs) + lg_errorCount s =
   lg_errorCount (complain isUpper name s) + lower_fields isUpper cs"
  by (simp add: lower_fields_def complain_def split: option.split)

definition explored :: "(string \<Rightarrow> bool) \<Rightarrow> types \<Rightarrow> (string option \<times> nat) list \<Rightarrow> lab \<Rightarrow> lab \<Rightarrow> bool" where
  "explored isUpper env cs s s' \<longleftrightarrow>
     set (lg_checked s) \<subseteq> set (lg_checked s') \<and> snd ` set cs \<subseteq> set (lg_checked s') \<and>
     set (lg_checked s') \<subseteq> set (lg_checked s) \<union> within env `` (snd ` set cs) \<and>
     (\<forall>u \<in> set (lg_checked s') - set (lg_checked s). parts env u \<subseteq> set (lg_checked s')) \<and>
     lg_errorCount s' = lg_errorCount s + lower_fields isUpper cs +
       (\<Sum>u \<in> set (lg_checked s') - set (lg_checked s). lower_in isUpper env u)"

lemma within_step: "u \<in> parts env t \<Longrightarrow> (u, v) \<in> within env \<Longrightarrow> (t, v) \<in> within env"
  unfolding within_def by (rule converse_rtrancl_into_rtrancl) auto

lemma within_refl: "(t, t) \<in> within env"
  by (simp add: within_def)

lemma exploredD:
  assumes "explored isUpper env cs s s'"
  shows "set (lg_checked s) \<subseteq> set (lg_checked s')" and "snd ` set cs \<subseteq> set (lg_checked s')"
    and "set (lg_checked s') \<subseteq> set (lg_checked s) \<union> within env `` (snd ` set cs)"
    and "u \<in> set (lg_checked s') - set (lg_checked s) \<Longrightarrow> parts env u \<subseteq> set (lg_checked s')"
    and "lg_errorCount s' = lg_errorCount s + lower_fields isUpper cs +
       (\<Sum>u \<in> set (lg_checked s') - set (lg_checked s). lower_in isUpper env u)"
  using assms unfolding explored_def by metis+

lemma explored_skip:
  assumes "t \<in> set (lg_checked s)" and "explored isUpper env cs (complain isUpper name s) s'"
  shows "explored isUpper env ((name, t) # cs) s s'"
proof -
  note d = exploredD [OF assms(2), unfolded complain_checked]
  have "lg_errorCount s' = lg_errorCount s + lower_fields isUpper ((name, t) # cs) +
      (\<Sum>u \<in> set (lg_checked s') - set (lg_checked s). lower_in isUpper env u)"
    using d(5) lower_fields_Cons [of isUpper name t cs s] by linarith
  moreover have "snd ` set ((name, t) # cs) \<subseteq> set (lg_checked s')" using d(1,2) assms(1) by auto
  moreover have "set (lg_checked s') \<subseteq> set (lg_checked s) \<union> within env `` (snd ` set ((name, t) # cs))" using d(3) by auto
  ultimately show ?thesis using d(1,4) unfolding explored_def by metis
qed

lemma explored_visit:
  assumes "t \<notin> set (lg_checked s)"
    and "explored isUpper env (elemCalls (Kind env t)) ((complain isUpper name s)\<lparr>lg_checked := t # lg_checked s\<rparr>) s2"
    and "explored isUpper env cs s2 s'"
  shows "explored isUpper env ((name, t) # cs) s s'"
proof -
  let ?A = "set (lg_checked s)" and ?B = "set (lg_checked s2)" and ?C = "set (lg_checked s')"
  note d = exploredD [OF assms(2)] and e = exploredD [OF assms(3)]
  have sub: "insert t ?A \<subseteq> ?B" "?B \<subseteq> ?C" using d(1) e(1) by simp_all
  have "?B \<subseteq> insert t ?A \<union> within env `` parts env t" using d(3) by simp
  moreover have "within env `` parts env t \<subseteq> within env `` {t}" using within_step by blast
  ultimately have 1: "?C \<subseteq> ?A \<union> within env `` (snd ` set ((name, t) # cs))"
    using e(3) within_refl [of t env] by (simp only: list.set image_insert snd_conv) blast
  have 2: "parts env u \<subseteq> ?C" if u: "u \<in> ?C - ?A" for u
  proof -
    consider "u = t" | "u \<in> ?B - insert t ?A" | "u \<in> ?C - ?B" using u by blast
    then show ?thesis
    proof cases
      case 1
      with d(2) sub show ?thesis by (meson subset_trans)
    next
      case 2
      then have "u \<in> ?B - set (lg_checked ((complain isUpper name s)\<lparr>lg_checked := t # lg_checked s\<rparr>))" by simp
      from d(4) [OF this] sub show ?thesis by (meson subset_trans)
    next
      case 3
      from e(4) [OF this] show ?thesis .
    qed
  qed
  have new: "?C - ?A = insert t (?B - insert t ?A) \<union> (?C - ?B)" using assms(1) sub by blast
  have "(\<Sum>u \<in> ?C - ?A. lower_in isUpper env u) =
      (\<Sum>u \<in> insert t (?B - insert t ?A). lower_in isUpper env u) + (\<Sum>u \<in> ?C - ?B. lower_in isUpper env u)"
    unfolding new using sub by (intro sum.union_disjoint) auto
  also have "(\<Sum>u \<in> insert t (?B - insert t ?A). lower_in isUpper env u) =
      lower_in isUpper env t + (\<Sum>u \<in> ?B - insert t ?A. lower_in isUpper env u)" by simp
  finally have sum: "(\<Sum>u \<in> ?C - ?A. lower_in isUpper env u) =
      lower_in isUpper env t + (\<Sum>u \<in> ?B - insert t ?A. lower_in isUpper env u) + (\<Sum>u \<in> ?C - ?B. lower_in isUpper env u)" .
  have "lg_errorCount s2 = lg_errorCount (complain isUpper name s) + lower_in isUpper env t + (\<Sum>u \<in> ?B - insert t ?A. lower_in isUpper env u)"
    using d(5) by simp
  with e(5) sum lower_fields_Cons [of isUpper name t cs s]
  have "lg_errorCount s' = lg_errorCount s + lower_fields isUpper ((name, t) # cs) + (\<Sum>u \<in> ?C - ?A. lower_in isUpper env u)"
    by linarith
  moreover have "snd ` set ((name, t) # cs) \<subseteq> ?C" using e(2) sub by auto
  moreover have "?A \<subseteq> ?C" using sub by blast
  ultimately show ?thesis using 1 2 unfolding explored_def by metis
qed

lemma checkCalls_explored: "explored isUpper env cs s (checkCalls isUpper env cs s)"
proof (induction isUpper env cs s rule: checkCalls.induct)
  case (1 isUpper env s)
  then show ?case by (simp add: explored_def lower_fields_def)
next
  case (2 isUpper env name t cs s)
  show ?case
  proof (cases "t \<in> set (lg_checked s)")
    case True
    with 2(1) [OF refl] explored_skip show ?thesis by (simp add: Let_def)
  next
    case False
    with 2(2,3) [OF refl] explored_visit [OF False] show ?thesis by (simp add: Let_def)
  qed
qed

definition closed_checked :: "types \<Rightarrow> lab \<Rightarrow> bool" where
  "closed_checked env s \<longleftrightarrow> (\<forall>u \<in> set (lg_checked s). parts env u \<subseteq> set (lg_checked s))"

lemma explored_type:
  assumes "closed_checked env s"
  shows "let s' = checkType isUpper env t s in
     set (lg_checked s') = set (lg_checked s) \<union> within env `` {t} \<and> closed_checked env s' \<and>
     lg_errorCount s' = lg_errorCount s + (\<Sum>u \<in> within env `` {t} - set (lg_checked s). lower_in isUpper env u)"
proof -
  define s' where "s' = checkType isUpper env t s"
  have ex: "explored isUpper env [(None, t)] s s'" unfolding s'_def checkType_def by (rule checkCalls_explored)
  note d = exploredD [OF ex]
  have closed: "closed_checked env s'"
    unfolding closed_checked_def
  proof
    fix u
    assume u: "u \<in> set (lg_checked s')"
    show "parts env u \<subseteq> set (lg_checked s')"
    proof (cases "u \<in> set (lg_checked s)")
      case True
      with assms d(1) show ?thesis unfolding closed_checked_def by blast
    next
      case False
      with u d(4) show ?thesis by blast
    qed
  qed
  from d(2) have "t \<in> set (lg_checked s')" by simp
  have "u \<in> set (lg_checked s')" if "(t, u) \<in> within env" for u
    using that unfolding within_def
  proof (induction rule: rtrancl_induct)
    case (step u v)
    with closed show ?case unfolding closed_checked_def by blast
  qed fact
  then have set: "set (lg_checked s') = set (lg_checked s) \<union> within env `` {t}" using d(1,3) by auto
  then have "set (lg_checked s') - set (lg_checked s) = within env `` {t} - set (lg_checked s)" by blast
  moreover have "lg_errorCount s' = lg_errorCount s + (\<Sum>u \<in> set (lg_checked s') - set (lg_checked s). lower_in isUpper env u)"
    using d(5) by (simp add: lower_fields_def)
  ultimately show ?thesis unfolding Let_def s'_def [symmetric] using closed set by simp
qed

text \<open>
  C29: \<^verbatim>\<open>checkType\<close> ends on every type, cyclic ones included. It looks at exactly the types that occur in
  the given one, and counts every field with a name that is not capitalised of those that were not
  looked at before, each once.
\<close>

theorem checkType_reports:
  assumes "closed_checked env s"
  shows "let s' = checkType isUpper env t s in
     set (lg_checked s') = set (lg_checked s) \<union> within env `` {t} \<and> closed_checked env s' \<and>
     lg_errorCount s' = lg_errorCount s + (\<Sum>u \<in> within env `` {t} - set (lg_checked s). lower_in isUpper env u)"
  by (rule explored_type [OF assms])

text \<open>The type of the test of the repository: \<^verbatim>\<open>[]map[*T4]int\<close> where \<^verbatim>\<open>T4\<close> has the fields \<^verbatim>\<open>Yes\<close> and \<^verbatim>\<open>no\<close>.\<close>

definition sample_types :: types where
  "sample_types = [Slice 1, MapOf 3 2, Ptr 4, OtherKind, Struct [(''Yes'', 3), (''no'', 3)]]"

definition ascii_upper :: "string \<Rightarrow> bool" where
  "ascii_upper name = (case name of [] \<Rightarrow> False | c # _ \<Rightarrow> 65 \<le> (of_char c :: nat) \<and> (of_char c :: nat) \<le> 90)"

theorem checkType_reports_witness:
  "let s = \<lparr>lg_checked = [], lg_errorCount = 0\<rparr>; s' = checkType ascii_upper sample_types 0 s in
   set (lg_checked s') = within sample_types `` {0} \<and> lg_errorCount s' = 1"
proof -
  let ?s = "\<lparr>lg_checked = [], lg_errorCount = 0\<rparr>"
  have "lg_errorCount (checkType ascii_upper sample_types 0 ?s) = 1" by code_simp
  moreover have "closed_checked sample_types ?s" by (simp add: closed_checked_def)
  from checkType_reports [OF this, of ascii_upper 0]
  have "set (lg_checked (checkType ascii_upper sample_types 0 ?s)) = within sample_types `` {0}" by (simp add: Let_def)
  ultimately show ?thesis by (simp add: Let_def)
qed

section \<open>Values that are not overwritten\<close>

text \<open>
  A value as \<^verbatim>\<open>checkDefault1\<close> sees it: of a basic kind it is known by the name of its type and whether it is the
  zero value. The warnings are the names printed.
\<close>

datatype goval =
  VStruct "(string \<times> goval) list"
| VPtr "goval option"
| VBasic string bool
| VOther

record warn =
  wn_errorCount :: int
  wn_printed :: "string list"

definition field_name :: "string \<Rightarrow> string \<Rightarrow> string" where
  "field_name name f = (if name \<noteq> [] then name @ ''.'' @ f else f)"

fun checkDefault1 :: "goval \<Rightarrow> int \<Rightarrow> string \<Rightarrow> warn \<Rightarrow> warn"
  and checkFields :: "(string \<times> goval) list \<Rightarrow> int \<Rightarrow> string \<Rightarrow> warn \<Rightarrow> warn" where
  "checkDefault1 (VStruct fs) depth name s = (if depth > 3 then s else checkFields fs depth name s)"
| "checkDefault1 (VPtr None) depth name s = s"
| "checkDefault1 (VPtr (Some v)) depth name s = (if depth > 3 then s else checkDefault1 v (depth + 1) name s)"
| "checkDefault1 (VBasic ty isZero) depth name s =
     (if depth > 3 \<or> isZero then s
      else s\<lparr>wn_errorCount := wn_errorCount s + 1,
             wn_printed := wn_printed s @ (if wn_errorCount s < 1 then [if name = [] then ty else name] else [])\<rparr>)"
| "checkDefault1 VOther depth name s = s"
| "checkFields [] depth name s = s"
| "checkFields ((f, v) # fs) depth name s =
     checkFields fs depth name (checkDefault1 v (depth + 1) (field_name name f) s)"

definition checkDefault :: "goval option \<Rightarrow> warn \<Rightarrow> warn" where
  "checkDefault value s = (case value of None \<Rightarrow> s | Some v \<Rightarrow> checkDefault1 v 1 [] s)"

text \<open>The basic values that are not zero in a value, with their depth and name.\<close>

fun leaves :: "goval \<Rightarrow> int \<Rightarrow> string \<Rightarrow> (int \<times> string) list"
  and field_leaves :: "(string \<times> goval) list \<Rightarrow> int \<Rightarrow> string \<Rightarrow> (int \<times> string) list" where
  "leaves (VStruct fs) depth name = field_leaves fs depth name"
| "leaves (VPtr None) depth name = []"
| "leaves (VPtr (Some v)) depth name = leaves v (depth + 1) name"
| "leaves (VBasic ty isZero) depth name = (if isZero then [] else [(depth, if name = [] then ty else name)])"
| "leaves VOther depth name = []"
| "field_leaves [] depth name = []"
| "field_leaves ((f, v) # fs) depth name = leaves v (depth + 1) (field_name name f) @ field_leaves fs depth name"

definition report :: "(int \<times> string) list \<Rightarrow> warn \<Rightarrow> warn" where
  "report ls s = fold (\<lambda>l s. s\<lparr>wn_errorCount := wn_errorCount s + 1,
     wn_printed := wn_printed s @ (if wn_errorCount s < 1 then [snd l] else [])\<rparr>) [l \<leftarrow> ls. fst l \<le> 3] s"

lemma leaves_deep:
  "l \<in> set (leaves v depth name) \<Longrightarrow> depth \<le> fst l" "l \<in> set (field_leaves fs depth name) \<Longrightarrow> depth < fst l"
  by (induction v depth name and fs depth name rule: leaves_field_leaves.induct) (fastforce split: if_splits)+

lemma report_deep: "\<forall>l \<in> set ls. 3 < fst l \<Longrightarrow> report ls s = s"
proof -
  assume "\<forall>l \<in> set ls. 3 < fst l"
  then have "[l \<leftarrow> ls. fst l \<le> 3] = []" by (auto simp: filter_empty_conv)
  then show ?thesis by (simp add: report_def)
qed

lemma report_Nil: "report [] s = s"
  by (simp add: report_def)

lemma report_append: "report (ls @ ls') s = report ls' (report ls s)"
  by (simp add: report_def)

text \<open>
  \<^verbatim>\<open>checkDefault1\<close> reports the values that are not zero down to the third level and no others; the
  pointer that \<^verbatim>\<open>Decode\<close> is given counts as a level.
\<close>

lemma checkDefault_counts:
  "checkDefault1 v depth name s = report (leaves v depth name) s"
  "checkFields fs depth name s = report (field_leaves fs depth name) s"
proof (induction v depth name s and fs depth name s rule: checkDefault1_checkFields.induct)
  case (1 fs depth name s)
  show ?case
  proof (cases "depth > 3")
    case True
    then have "\<forall>l \<in> set (field_leaves fs depth name). 3 < fst l" using leaves_deep(2) by fastforce
    with True show ?thesis by (simp add: report_deep)
  next
    case False
    with 1 show ?thesis by simp
  qed
next
  case (3 v depth name s)
  show ?case
  proof (cases "depth > 3")
    case True
    then have "\<forall>l \<in> set (leaves v (depth + 1) name). 3 < fst l" using leaves_deep(1) by fastforce
    with True show ?thesis by (simp add: report_deep)
  next
    case False
    with 3 show ?thesis by simp
  qed
next
  case (4 ty isZero depth name s)
  then show ?case by (simp add: report_def)
qed (simp_all add: report_append report_Nil)

section \<open>The encoder and the decoder\<close>

text \<open>
  \<^verbatim>\<open>Encode\<close>, \<^verbatim>\<open>EncodeValue\<close>, \<^verbatim>\<open>Register\<close> and \<^verbatim>\<open>Decode\<close> check and then call the library, which is the argument \<open>gob\<close>. \<^verbatim>\<open>errorCount\<close> is the
  one counter of both checks.
\<close>

definition Encode :: "(string \<Rightarrow> bool) \<Rightarrow> types \<Rightarrow> ('v \<Rightarrow> 'e + bytes) \<Rightarrow> nat option \<Rightarrow> 'v \<Rightarrow> lab \<Rightarrow> (('e + bytes) \<times> lab) option" where
  "Encode isUpper env gob t v s = do {
     s1 \<leftarrow> checkValue isUpper env t s;
     Some (gob v, s1)
   }"

definition Register :: "(string \<Rightarrow> bool) \<Rightarrow> types \<Rightarrow> nat option \<Rightarrow> lab \<Rightarrow> lab option" where
  "Register isUpper env t s = checkValue isUpper env t s"

definition Decode :: "(string \<Rightarrow> bool) \<Rightarrow> types \<Rightarrow> ('v \<Rightarrow> 'e + 'v) \<Rightarrow> nat option \<Rightarrow> goval option \<Rightarrow> 'v \<Rightarrow> lab \<Rightarrow>
    (('e + 'v) \<times> string list \<times> lab) option" where
  "Decode isUpper env gob t value v s = do {
     s1 \<leftarrow> checkValue isUpper env t s;
     let w = checkDefault value \<lparr>wn_errorCount = lg_errorCount s1, wn_printed = []\<rparr>;
     Some (gob v, wn_printed w, s1\<lparr>lg_errorCount := wn_errorCount w\<rparr>)
   }"

lemma report_count: "wn_errorCount (report ls s) = wn_errorCount s + int (length [l \<leftarrow> ls. fst l \<le> 3])"
proof -
  have "wn_errorCount (fold (\<lambda>l s. s\<lparr>wn_errorCount := wn_errorCount s + 1,
      wn_printed := wn_printed s @ (if wn_errorCount s < 1 then [snd l] else [])\<rparr>) xs s) = wn_errorCount s + int (length xs)" for xs s
    by (induction xs arbitrary: s) simp_all
  then show ?thesis by (simp add: report_def)
qed

text \<open>
  Decoding into a variable adds to the counter the fields its type would lose and the values in it
  that are not zero down to the third level.
\<close>

lemma Decode_counts:
  assumes "closed_checked env s" and "Decode isUpper env gob (Some t) (Some value) v s = Some (r, ws, s')"
  shows "lg_errorCount s' = lg_errorCount s + (\<Sum>u \<in> within env `` {t} - set (lg_checked s). lower_in isUpper env u) +
     int (length [l \<leftarrow> leaves value 1 []. fst l \<le> 3])"
proof -
  have "lg_errorCount s' = lg_errorCount (checkType isUpper env t s) + int (length [l \<leftarrow> leaves value 1 []. fst l \<le> 3])"
    using assms(2) by (auto simp: Decode_def checkValue_def deref_def checkDefault_def checkDefault_counts report_count Let_def)
  with explored_type [OF assms(1), of isUpper t] show ?thesis by (simp add: Let_def)
qed

end
