(* ===== verification/Conf.thy ===== *)
theory Conf
  imports KvServer
begin

text \<open>
  The configuration of \<^verbatim>\<open>src/conf/globalobj.go\<close>: the defaults that \<^verbatim>\<open>init\<close> sets and what \<^verbatim>\<open>Reload\<close> takes from the
  three files. A file is missing, malformed, or holds a value of the expected shape, which may be
  \<^verbatim>\<open>null\<close>; decoding JSON is done by the library. Addresses are byte strings, as in the server.

  \<open>Reload_addresses\<close> says when a reload succeeds and which addresses the servers get,
  \<open>Reload_keeps_ClusterConf\<close> that the cluster manager never sees the file.
\<close>

section \<open>State\<close>

record Node =
  no_Name :: bytes
  no_SerAddr :: bytes
  no_NodeAddr :: bytes
  no_SyncAddr :: bytes

record serversConfig =
  sf_NodeNum :: int
  sf_SyncAddr :: bytes
  sf_ServAddr :: bytes
  sf_Servers :: "Node list"

record proxyConfg =
  pc_GetAddr :: bytes
  pc_PutAddr :: bytes
  pc_ResAddr :: bytes
  pc_SyncAddr :: bytes

record clientConfig =
  cc_ClientNum :: int

record GlobalObj =
  go_ProxyAddrs :: "32 word \<rightharpoonup> bytes"
  go_ClusterConf :: serversConfig
  go_ServerAddrs :: "(string \<rightharpoonup> bytes) list"
  go_ClientNum :: int

section \<open>Defaults\<close>

definition serverMap :: "serversConfig \<Rightarrow> Node \<Rightarrow> string \<rightharpoonup> bytes" where
  "serverMap sc nd = [''cluster_sync'' \<mapsto> sf_SyncAddr sc, ''cluster_serv'' \<mapsto> sf_ServAddr sc,
     ''raft'' \<mapsto> no_NodeAddr nd, ''server'' \<mapsto> no_SerAddr nd, ''sync'' \<mapsto> no_SyncAddr nd]"

definition defaultNode :: "nat \<Rightarrow> Node" where
  "defaultNode i = \<lparr>no_Name = ascii (''server_'' @ showNat i), no_SerAddr = ascii (''127.0.0.1:5000'' @ showNat i),
     no_NodeAddr = ascii (''127.0.0.1:5003'' @ showNat i), no_SyncAddr = ascii (''127.0.0.1:5005'' @ showNat i)\<rparr>"

definition defaultConf :: serversConfig where
  "defaultConf = \<lparr>sf_NodeNum = 5, sf_SyncAddr = ascii ''127.0.0.1:9999'', sf_ServAddr = ascii ''127.0.0.1:9998'',
     sf_Servers = map defaultNode [0..<5]\<rparr>"

text \<open>What \<^verbatim>\<open>init\<close> builds before it calls \<^verbatim>\<open>Reload\<close>.\<close>

definition defaultObject :: GlobalObj where
  "defaultObject = \<lparr>go_ProxyAddrs = [0 \<mapsto> ascii ''127.0.0.1:9000'', 1 \<mapsto> ascii ''127.0.0.1:9001''],
     go_ClusterConf = defaultConf, go_ServerAddrs = map (serverMap defaultConf) (sf_Servers defaultConf), go_ClientNum = 1\<rparr>"

section \<open>Reload\<close>

datatype 'a json = Missing | Malformed | Parsed "'a option"

text \<open>The loop over the servers; indexing past the end of the list panics.\<close>

fun serverAddrs :: "serversConfig \<Rightarrow> nat \<Rightarrow> nat \<Rightarrow> (string \<rightharpoonup> bytes) list option" where
  "serverAddrs sc i 0 = Some []"
| "serverAddrs sc i (Suc n) = do {
     nd \<leftarrow> at (sf_Servers sc) (int i);
     rest \<leftarrow> serverAddrs sc (Suc i) n;
     Some (serverMap sc nd # rest)
   }"

definition clientNum :: "clientConfig json \<Rightarrow> int \<Rightarrow> int option" where
  "clientNum clientFile old = (case clientFile of
       Parsed c \<Rightarrow> do { cfg \<leftarrow> deref c; Some (cc_ClientNum cfg) }
     | _ \<Rightarrow> Some old)"

definition Reload :: "bool \<Rightarrow> proxyConfg json \<Rightarrow> serversConfig json \<Rightarrow> clientConfig json \<Rightarrow> GlobalObj \<Rightarrow> GlobalObj option" where
  "Reload cwdOk proxyFile serversFile clientFile g =
     (if \<not> cwdOk then Some g
      else (case proxyFile of
          Missing \<Rightarrow> Some g
        | Malformed \<Rightarrow> None
        | Parsed p \<Rightarrow> (case serversFile of
              Missing \<Rightarrow> Some g
            | Malformed \<Rightarrow> None
            | Parsed s \<Rightarrow> do {
                cliNum \<leftarrow> clientNum clientFile (go_ClientNum g);
                px \<leftarrow> deref p;
                sc \<leftarrow> deref s;
                if sf_NodeNum sc < 0 then None
                else do {
                  addrs \<leftarrow> serverAddrs sc 0 (nat (sf_NodeNum sc));
                  Some (g\<lparr>go_ProxyAddrs := (go_ProxyAddrs g)(0 \<mapsto> pc_GetAddr px, 1 \<mapsto> pc_PutAddr px),
                          go_ServerAddrs := addrs, go_ClientNum := cliNum\<rparr>)
                }
              })))"

definition conf_init :: "bool \<Rightarrow> proxyConfg json \<Rightarrow> serversConfig json \<Rightarrow> clientConfig json \<Rightarrow> GlobalObj option" where
  "conf_init cwdOk proxyFile serversFile clientFile = Reload cwdOk proxyFile serversFile clientFile defaultObject"

section \<open>What a reload gives\<close>

lemma serverAddrs_eq:
  "serverAddrs sc i n = (if i + n \<le> length (sf_Servers sc) \<or> n = 0 then Some (map (serverMap sc) (take n (drop i (sf_Servers sc)))) else None)"
proof (induction n arbitrary: i)
  case (Suc n)
  show ?case
  proof (cases "i < length (sf_Servers sc)")
    case True
    then have "drop i (sf_Servers sc) = sf_Servers sc ! i # drop (Suc i) (sf_Servers sc)" by (simp add: Cons_nth_drop_Suc)
    with True Suc show ?thesis by (auto simp: at_def)
  next
    case False
    then show ?thesis by (simp add: at_def)
  qed
qed simp

text \<open>
  A reload with all files present succeeds exactly if the number of nodes is not negative and at
  most that of the servers listed; then server \<open>i\<close> gets its own three addresses and the two of the
  cluster manager. With a larger number the process ends.
\<close>

lemma Reload_addresses:
  "Reload True (Parsed (Some px)) (Parsed (Some sc)) (Parsed (Some cl)) g =
     (if 0 \<le> sf_NodeNum sc \<and> sf_NodeNum sc \<le> int (length (sf_Servers sc))
      then Some (g\<lparr>go_ProxyAddrs := (go_ProxyAddrs g)(0 \<mapsto> pc_GetAddr px, 1 \<mapsto> pc_PutAddr px),
        go_ServerAddrs := map (serverMap sc) (take (nat (sf_NodeNum sc)) (sf_Servers sc)), go_ClientNum := cc_ClientNum cl\<rparr>)
      else None)"
  by (auto simp: Reload_def clientNum_def deref_def serverAddrs_eq)

text \<open>
  The addresses of the cluster manager in \<^verbatim>\<open>ClusterConf\<close>, which \<^verbatim>\<open>StartServer\<close> uses, stay the defaults whatever
  the file says, while the servers are told those of the file.
\<close>

lemma Reload_keeps_ClusterConf:
  assumes "conf_init cwdOk pf sf cf = Some g"
  shows "go_ClusterConf g = defaultConf"
  using assms
  by (auto simp: conf_init_def Reload_def defaultObject_def bind_eq_Some_conv split: if_splits json.splits)

definition conf_ok :: "GlobalObj \<Rightarrow> bool" where
  "conf_ok g \<longleftrightarrow> (\<forall>m \<in> set (go_ServerAddrs g). dom m = {''cluster_sync'', ''cluster_serv'', ''raft'', ''server'', ''sync''}) \<and>
     {0, 1} \<subseteq> dom (go_ProxyAddrs g)"

lemma serverMap_dom: "dom (serverMap sc nd) = {''cluster_sync'', ''cluster_serv'', ''raft'', ''server'', ''sync''}"
  by (auto simp: serverMap_def split: if_splits)

text \<open>Every configuration the program runs with has the five addresses of every server and both of the proxy.\<close>

lemma conf_init_ok:
  assumes "conf_init cwdOk pf sf cf = Some g"
  shows "conf_ok g"
proof -
  have "conf_ok defaultObject" by (auto simp: conf_ok_def defaultObject_def serverMap_dom)
  moreover have "conf_ok (g0\<lparr>go_ProxyAddrs := p(0 \<mapsto> a, 1 \<mapsto> b), go_ServerAddrs := ms, go_ClientNum := n\<rparr>)"
    if r: "serverAddrs sc 0 k = Some ms" for g0 p a b ms n sc k
  proof -
    obtain nds where "ms = map (serverMap sc) nds" using r by (auto simp: serverAddrs_eq split: if_splits)
    then show ?thesis by (simp add: conf_ok_def serverMap_dom)
  qed
  ultimately show ?thesis
    using assms by (auto simp: conf_init_def Reload_def bind_eq_Some_conv split: if_splits json.splits)
qed

end
