(* ===== verification/StartUp.thy ===== *)
theory StartUp
  imports Conf ClusterMg TcpProxy KvSnapshot
begin

text \<open>
  The program of \<^verbatim>\<open>src/main/main.go\<close>: how the configuration, the proxy, the cluster manager, the persisters and
  the servers are put together (\<open>StartServer\<close>), and the loop of the client program. The listeners are taken
  to be opened; the wait for the servers is in the theory \<open>Listeners\<close>, and the end of the input is not modelled.

  \<open>service_starts\<close> says what the service consists of; the cluster manager and the proxy in front of it
  have the default addresses whatever the configuration file says (\<open>cluster_address_ignored\<close>).
\<close>

section \<open>The service\<close>

definition addr_of :: "string \<Rightarrow> (string \<rightharpoonup> bytes) \<Rightarrow> bytes" where
  "addr_of k m = (case m k of None \<Rightarrow> [] | Some a \<Rightarrow> a)"

fun startServers :: "gob \<Rightarrow> codec \<Rightarrow> 'l lru \<Rightarrow> (nat \<Rightarrow> disk) \<Rightarrow> int \<Rightarrow> int list \<Rightarrow> nat \<Rightarrow> (string \<rightharpoonup> bytes) list \<Rightarrow>
    'l KVServer list option" where
  "startServers g c lru disks now peerIds i [] = Some []"
| "startServers g c lru disks now peerIds i (addr # addrs) = do {
     ps \<leftarrow> MakePersister c lru (int i) (disks i);
     kv \<leftarrow> StartKVServer g peerIds (of_nat i) ps (addr_of ''server'' addr) (addr_of ''sync'' addr) 1000 now;
     rest \<leftarrow> startServers g c lru disks now peerIds (Suc i) addrs;
     Some (kv # rest)
   }"

record 'l service =
  sv_proxy :: TCPProxy
  sv_cluster :: Cluster
  sv_servAddr :: bytes
  sv_syncAddr :: bytes
  sv_servers :: "'l KVServer list"

text \<open>The result is \<open>None\<close> inside if the port of the proxy is no number, which ends the program without a panic.\<close>

definition StartServer :: "gob \<Rightarrow> codec \<Rightarrow> 'l lru \<Rightarrow> (nat \<Rightarrow> disk) \<Rightarrow> int \<Rightarrow> GlobalObj \<Rightarrow> 'l service option option" where
  "StartServer g c lru disks now obj = do {
     let conf = go_ClusterConf obj;
     let serverAddr = Split 58 (sf_ServAddr conf);
     p \<leftarrow> at serverAddr 1;
     (case Atoi p of
        None \<Rightarrow> Some None
      | Some port \<Rightarrow> do {
          target \<leftarrow> at serverAddr 0;
          let endpoint = \<lparr>srv_Target = target, srv_Port = of_int port, srv_Priority = 0, srv_Weight = 0\<rparr>;
          servers \<leftarrow> startServers g c lru disks now (map int [0..<length (go_ServerAddrs obj)]) 0 (go_ServerAddrs obj);
          Some (Some \<lparr>sv_proxy = Run \<lparr>tp_Endpoints = [endpoint], tp_MonitorInterval = 0, tp_remotes = [],
                                      tp_pickCount = 0, tp_stopped = False\<rparr>,
                      sv_cluster = NewCluster, sv_servAddr = sf_ServAddr conf, sv_syncAddr = sf_SyncAddr conf,
                      sv_servers = servers\<rparr>)
        })
   }"

section \<open>What is started\<close>

lemma startServers_returns:
  assumes "\<And>k. k < length addrs \<Longrightarrow> \<exists>ps. MakePersister c lru (int (i + k)) (disks (i + k)) = Some ps"
    and "\<And>k. k < length addrs \<Longrightarrow> portOf (addr_of ''server'' (addrs ! k)) \<noteq> None \<and> portOf (addr_of ''sync'' (addrs ! k)) \<noteq> None"
  shows "\<exists>kvs. startServers g c lru disks now ids i addrs = Some kvs \<and> length kvs = length addrs \<and>
     (\<forall>k < length addrs. kv_me (kvs ! k) = of_nat (i + k) \<and> \<not> kv_initialized (kvs ! k) \<and>
        Some (kv_ip (kvs ! k), kv_sendPort (kvs ! k)) = portOf (addr_of ''server'' (addrs ! k)))"
  using assms
proof (induction addrs arbitrary: i)
  case (Cons addr addrs)
  obtain ps where ps: "MakePersister c lru (int i) (disks i) = Some ps" using Cons.prems(1) [of 0] by auto
  obtain ip port x sport where p: "portOf (addr_of ''server'' addr) = Some (ip, port)" "portOf (addr_of ''sync'' addr) = Some (x, sport)"
    using Cons.prems(2) [of 0] by auto
  obtain kv where kv: "StartKVServer g ids (of_nat i) ps (addr_of ''server'' addr) (addr_of ''sync'' addr) 1000 now = Some kv"
    "kv_me kv = of_nat i" "\<not> kv_initialized kv" "kv_ip kv = ip" "kv_sendPort kv = port"
    using p by (cases "ReadSnapshot ps") (auto simp: StartKVServer_def LoadSnapshot_def Let_def split: option.splits)
  have "\<exists>ps. MakePersister c lru (int (Suc i + k)) (disks (Suc i + k)) = Some ps" if "k < length addrs" for k
    using Cons.prems(1) [of "Suc k"] that by simp
  moreover have "portOf (addr_of ''server'' (addrs ! k)) \<noteq> None \<and> portOf (addr_of ''sync'' (addrs ! k)) \<noteq> None" if "k < length addrs" for k
    using Cons.prems(2) [of "Suc k"] that by simp
  ultimately obtain kvs where rest: "startServers g c lru disks now ids (Suc i) addrs = Some kvs" "length kvs = length addrs"
    "\<forall>k < length addrs. kv_me (kvs ! k) = of_nat (Suc i + k) \<and> \<not> kv_initialized (kvs ! k) \<and>
       Some (kv_ip (kvs ! k), kv_sendPort (kvs ! k)) = portOf (addr_of ''server'' (addrs ! k))"
    using Cons.IH [of "Suc i"] by blast
  have "kv_me ((kv # kvs) ! k) = of_nat (i + k) \<and> \<not> kv_initialized ((kv # kvs) ! k) \<and>
      Some (kv_ip ((kv # kvs) ! k), kv_sendPort ((kv # kvs) ! k)) = portOf (addr_of ''server'' ((addr # addrs) ! k))"
    if "k < length (addr # addrs)" for k
    using that kv(2-5) p(1) rest(3) by (cases k) auto
  moreover have "startServers g c lru disks now ids i (addr # addrs) = Some (kv # kvs)"
    using ps kv(1) rest(1) by simp
  ultimately show ?case using rest(2) by (intro exI [of _ "kv # kvs"]) simp
qed simp

lemma default_address: "Split 58 (sf_ServAddr defaultConf) = [ascii ''127.0.0.1'', ascii ''9998'']" "Atoi (ascii ''9998'') = Some 9998"
  by code_simp+

lemma default_remote: "JoinHostPort (ascii ''127.0.0.1'') (ascii (Itoa 9998)) = ascii ''127.0.0.1:9998''"
proof -
  have "char_of (57 :: nat) = CHR ''9''" "char_of (56 :: nat) = CHR ''8''" by code_simp+
  then have "Itoa 9998 = ''9998''"
    by (simp add: Itoa_def showNat.simps digit_def)
  moreover have "JoinHostPort (ascii ''127.0.0.1'') (ascii ''9998'') = ascii ''127.0.0.1:9998''" by code_simp
  ultimately show ?thesis by simp
qed

text \<open>
  C30: With configuration files that list a node for every number up to the number of nodes, whose
  addresses have a port, and persisters that start, the service starts: one server for every node,
  with its number and the address of its file entry, and a proxy in front of the cluster manager.
\<close>

theorem service_starts:
  assumes "0 \<le> sf_NodeNum sc" and "sf_NodeNum sc \<le> int (length (sf_Servers sc))"
    and "\<And>k. k < nat (sf_NodeNum sc) \<Longrightarrow> portOf (no_SerAddr (sf_Servers sc ! k)) \<noteq> None \<and> portOf (no_SyncAddr (sf_Servers sc ! k)) \<noteq> None"
    and "\<And>k. k < nat (sf_NodeNum sc) \<Longrightarrow> \<exists>ps. MakePersister c lru (int k) (disks k) = Some ps"
  shows "\<exists>obj sv. conf_init True (Parsed (Some px)) (Parsed (Some sc)) (Parsed (Some cl)) = Some obj \<and>
     StartServer g c lru disks now obj = Some (Some sv) \<and> int (length (sv_servers sv)) = sf_NodeNum sc \<and>
     (\<forall>k < nat (sf_NodeNum sc). kv_me (sv_servers sv ! k) = of_nat k \<and> \<not> kv_initialized (sv_servers sv ! k) \<and>
        Some (kv_ip (sv_servers sv ! k), kv_sendPort (sv_servers sv ! k)) = portOf (no_SerAddr (sf_Servers sc ! k))) \<and>
     map rm_addr (tp_remotes (sv_proxy sv)) = [sv_servAddr sv] \<and> sv_servAddr sv = ascii ''127.0.0.1:9998'' \<and>
     sv_syncAddr sv = ascii ''127.0.0.1:9999''"
proof -
  let ?n = "nat (sf_NodeNum sc)"
  let ?addrs = "map (serverMap sc) (take ?n (sf_Servers sc))"
  have n: "length ?addrs = ?n" using assms(1,2) by simp
  obtain obj where obj: "conf_init True (Parsed (Some px)) (Parsed (Some sc)) (Parsed (Some cl)) = Some obj"
    "go_ServerAddrs obj = ?addrs" "go_ClusterConf obj = defaultConf"
    using assms(1,2) by (simp add: conf_init_def Reload_addresses defaultObject_def)
  have addr: "addr_of ''server'' (?addrs ! k) = no_SerAddr (sf_Servers sc ! k)" "addr_of ''sync'' (?addrs ! k) = no_SyncAddr (sf_Servers sc ! k)"
    if "k < ?n" for k using that assms(2) by (simp_all add: addr_of_def serverMap_def)
  have "\<exists>kvs. startServers g c lru disks now (map int [0..<length ?addrs]) 0 ?addrs = Some kvs \<and> length kvs = length ?addrs \<and>
     (\<forall>k < length ?addrs. kv_me (kvs ! k) = of_nat (0 + k) \<and> \<not> kv_initialized (kvs ! k) \<and>
        Some (kv_ip (kvs ! k), kv_sendPort (kvs ! k)) = portOf (addr_of ''server'' (?addrs ! k)))"
    by (rule startServers_returns) (use assms(3,4) addr n in auto)
  then obtain kvs where kvs: "startServers g c lru disks now (map int [0..<length ?addrs]) 0 ?addrs = Some kvs" "length kvs = ?n"
    "\<And>k. k < ?n \<Longrightarrow> kv_me (kvs ! k) = of_nat k \<and> \<not> kv_initialized (kvs ! k) \<and>
       Some (kv_ip (kvs ! k), kv_sendPort (kvs ! k)) = portOf (no_SerAddr (sf_Servers sc ! k))"
    using addr unfolding n by auto
  obtain sv where "StartServer g c lru disks now obj = Some (Some sv)" "sv_servers sv = kvs" "sv_servAddr sv = sf_ServAddr defaultConf"
    "sv_syncAddr sv = sf_SyncAddr defaultConf" "map rm_addr (tp_remotes (sv_proxy sv)) = [ascii ''127.0.0.1:9998'']"
    using kvs(1) by (simp add: StartServer_def obj(2,3) default_address at_def Run_def default_remote Let_def)
  moreover have "sf_ServAddr defaultConf = ascii ''127.0.0.1:9998''" "sf_SyncAddr defaultConf = ascii ''127.0.0.1:9999''"
    by (simp_all add: defaultConf_def)
  ultimately show ?thesis using obj(1) kvs(2,3) assms(1) by auto
qed

definition start_ps :: "nat option Persister" where
  "start_ps = stopped_ps\<lparr>ps_id := 0, ps_statDir := map_option (map (\<lambda>(_, b). (statName 0, b))) (ps_statDir stopped_ps)\<rparr>"

lemma start_ps_ok: "\<exists>ps. MakePersister sample_codec one_lru 0 (disk_of start_ps) = Some ps"
proof -
  have "wal_of one_lru start_ps 1 [[1], [2], [3]]" "file_ok sample_codec start_ps"
    using stopped_ps_ok by (auto simp: wal_of_def file_ok_def start_ps_def stopped_ps_def sample_ps_def)
  from one.MakePersister_returns [OF this] show ?thesis by (auto simp: start_ps_def)
qed

definition one_server :: serversConfig where
  "one_server = \<lparr>sf_NodeNum = 1, sf_SyncAddr = [], sf_ServAddr = [],
     sf_Servers = [\<lparr>no_Name = [], no_SerAddr = [49, 58, 56], no_NodeAddr = [], no_SyncAddr = [49, 58, 57]\<rparr>]\<rparr>"

theorem service_starts_witness:
  "\<exists>obj sv. conf_init True (Parsed (Some \<lparr>pc_GetAddr = [], pc_PutAddr = [], pc_ResAddr = [], pc_SyncAddr = []\<rparr>))
       (Parsed (Some one_server)) (Parsed (Some \<lparr>cc_ClientNum = 1\<rparr>)) = Some obj \<and>
     StartServer sample_gob sample_codec one_lru (\<lambda>_. disk_of start_ps) 0 obj = Some (Some sv) \<and>
     length (sv_servers sv) = 1 \<and> kv_sendPort (sv_servers sv ! 0) = 8"
proof -
  have port: "portOf [49, 58, 56] = Some ([49], 8)" "portOf [49, 58, 57] = Some ([49], 9)" by code_simp+
  have sc: "0 \<le> sf_NodeNum one_server" "sf_NodeNum one_server \<le> int (length (sf_Servers one_server))"
    "\<And>k. k < nat (sf_NodeNum one_server) \<Longrightarrow> portOf (no_SerAddr (sf_Servers one_server ! k)) \<noteq> None \<and>
       portOf (no_SyncAddr (sf_Servers one_server ! k)) \<noteq> None"
    "\<And>k. k < nat (sf_NodeNum one_server) \<Longrightarrow> \<exists>ps. MakePersister sample_codec one_lru (int k) (disk_of start_ps) = Some ps"
    using start_ps_ok by (simp_all add: one_server_def port)
  from service_starts [OF sc, of "\<lparr>pc_GetAddr = [], pc_PutAddr = [], pc_ResAddr = [], pc_SyncAddr = []\<rparr>"
      "\<lparr>cc_ClientNum = 1\<rparr>" sample_gob 0] show ?thesis
    by (auto simp: one_server_def port)
qed

text \<open>
  The servers report to the address of the file while the cluster manager listens at the default one: if
  the two differ they never meet.
\<close>

lemma cluster_address_ignored:
  assumes "conf_init True pf (Parsed (Some sc)) cf = Some obj" and "pf \<noteq> Missing"
    and "StartServer g c lru disks now obj = Some (Some sv)" and "sf_SyncAddr sc \<noteq> ascii ''127.0.0.1:9999''"
    and "m \<in> set (go_ServerAddrs obj)"
  shows "addr_of ''cluster_sync'' m \<noteq> sv_syncAddr sv"
proof -
  have "go_ServerAddrs obj = map (serverMap sc) (take (nat (sf_NodeNum sc)) (sf_Servers sc))"
    using assms(1,2) by (auto simp: conf_init_def Reload_def serverAddrs_eq bind_eq_Some_conv deref_def split: json.splits if_splits)
  with assms(5) have "addr_of ''cluster_sync'' m = sf_SyncAddr sc" by (auto simp: addr_of_def serverMap_def)
  moreover have "sv_syncAddr sv = sf_SyncAddr (go_ClusterConf obj)"
    using assms(3) by (auto simp: StartServer_def Let_def bind_eq_Some_conv split: option.splits)
  ultimately show ?thesis
    using assms(4) Reload_keeps_ClusterConf [OF assms(1)] by (simp add: defaultConf_def)
qed

section \<open>The client program\<close>

text \<open>
  The loop of \<^verbatim>\<open>StartClient\<close>. Each round has the number entered and the outcome that a call of the clerk would have;
  the variables for the value and the error keep their contents from round to round.
\<close>

datatype 'e said = SaidError 'e | SaidGot bytes | SaidOK

definition clientCall :: "int \<Rightarrow> bytes \<times> 'e option \<Rightarrow> bytes \<times> 'e option \<Rightarrow> bytes \<times> 'e option" where
  "clientCall op outcome vars =
     (if op = 1 then outcome else if op = 2 \<or> op = 3 then (fst vars, snd outcome) else vars)"

fun StartClient :: "bytes \<times> 'e option \<Rightarrow> (int \<times> bytes \<times> 'e option) list \<Rightarrow> 'e said list" where
  "StartClient vars [] = []"
| "StartClient vars ((op, outcome) # rounds) =
     (if op = -1 then []
      else (let vars1 = clientCall op outcome vars in
            (case snd vars1 of
               Some e \<Rightarrow> SaidError e
             | None \<Rightarrow> if op = 1 then SaidGot (fst vars1) else SaidOK) # StartClient vars1 rounds))"

text \<open>A number that is no operation is reported as done, or with the error of the last call.\<close>

lemma unknown_operation_reported:
  assumes "op \<notin> {-1, 1, 2, 3}"
  shows "StartClient (got, err) ((op, outcome) # rounds) =
     (case err of Some e \<Rightarrow> SaidError e | None \<Rightarrow> SaidOK) # StartClient (got, err) rounds"
  using assms by (auto simp: clientCall_def Let_def split: option.splits)

end
