(* ===== verification/Pool.thy ===== *)
theory Pool
  imports Prelude
begin

text \<open>
  The pool of channels of \<^verbatim>\<open>src/pool/channel_pool.go\<close>: a buffered channel of channels, the methods of which hold
  a mutex for as long as they run. A call that waits for the buffered channel waits with the
  mutex held, so the state has a flag for it. \<open>pool_conserves\<close> says that channels are neither lost nor
  doubled, \<open>waiting_Get_blocks_Put\<close> that a call of \<^verbatim>\<open>Get\<close> on the empty pool waits forever.
\<close>

record ChannelPool =
  cp_pool :: "nat list"
  cp_size :: nat
  cp_locked :: bool
  cp_closed :: bool
  cp_channelsClosed :: "nat set"

definition NewChannelPool :: "nat \<Rightarrow> ChannelPool" where
  "NewChannelPool n = \<lparr>cp_pool = [0..<n], cp_size = n, cp_locked = False, cp_closed = False, cp_channelsClosed = {}\<rparr>"

text \<open>The end of a call: it returns a value, or waits and never returns by itself.\<close>

datatype 'a outcome = Returns 'a | Waits

text \<open>A receive from a closed and empty channel gives nil; a send to a closed one panics, and so does closing it again.\<close>

definition Get :: "ChannelPool \<Rightarrow> nat option outcome \<times> ChannelPool" where
  "Get cp =
     (if cp_locked cp then (Waits, cp)
      else (case cp_pool cp of
          ch # q \<Rightarrow> (Returns (Some ch), cp\<lparr>cp_pool := q\<rparr>)
        | [] \<Rightarrow> if cp_closed cp then (Returns None, cp) else (Waits, cp\<lparr>cp_locked := True\<rparr>)))"

definition Put :: "nat \<Rightarrow> ChannelPool \<Rightarrow> (unit outcome \<times> ChannelPool) option" where
  "Put ch cp =
     (if cp_locked cp then Some (Waits, cp)
      else if cp_closed cp then None
      else if length (cp_pool cp) < cp_size cp then Some (Returns (), cp\<lparr>cp_pool := cp_pool cp @ [ch]\<rparr>)
      else Some (Waits, cp\<lparr>cp_locked := True\<rparr>))"

definition Close :: "ChannelPool \<Rightarrow> (unit outcome \<times> ChannelPool) option" where
  "Close cp =
     (if cp_locked cp then Some (Waits, cp)
      else if cp_closed cp then None
      else Some (Returns (), cp\<lparr>cp_closed := True, cp_pool := [], cp_channelsClosed := cp_channelsClosed cp \<union> set (cp_pool cp)\<rparr>))"

section \<open>Users of the pool\<close>

text \<open>A run of a user that puts back only what it has got; \<open>out\<close> are the channels it holds.\<close>

datatype pool_op = DoGet | DoPut nat

fun use :: "pool_op list \<Rightarrow> nat list \<times> ChannelPool \<Rightarrow> (nat list \<times> ChannelPool) option" where
  "use [] s = Some s"
| "use (DoGet # ops) (out, cp) = (case Get cp of
       (Returns (Some ch), cp1) \<Rightarrow> use ops (ch # out, cp1)
     | _ \<Rightarrow> None)"
| "use (DoPut ch # ops) (out, cp) =
     (if ch \<notin> set out then None
      else (case Put ch cp of
          Some (Returns _, cp1) \<Rightarrow> use ops (remove1 ch out, cp1)
        | _ \<Rightarrow> None))"

definition pool_ok :: "nat list \<times> ChannelPool \<Rightarrow> bool" where
  "pool_ok s \<longleftrightarrow> (case s of (out, cp) \<Rightarrow> distinct (out @ cp_pool cp) \<and> set (out @ cp_pool cp) = {..<cp_size cp} \<and>
     \<not> cp_locked cp \<and> \<not> cp_closed cp)"

lemma pool_ok_length: "pool_ok (out, cp) \<Longrightarrow> length out + length (cp_pool cp) = cp_size cp"
  unfolding pool_ok_def using distinct_card [of "out @ cp_pool cp"] by simp

lemma Put_returns:
  assumes "pool_ok (out, cp)" and "ch \<in> set out"
  shows "Put ch cp = Some (Returns (), cp\<lparr>cp_pool := cp_pool cp @ [ch]\<rparr>)"
proof -
  have "0 < length out" using assms(2) by (cases out) auto
  then have "length (cp_pool cp) < cp_size cp" using pool_ok_length [OF assms(1)] by linarith
  with assms(1) show ?thesis by (simp add: Put_def pool_ok_def)
qed

text \<open>Channels are neither lost nor doubled, and a user that returns only what it holds never waits to do so.\<close>

lemma pool_conserves:
  assumes "pool_ok s" and "use ops s = Some s'"
  shows "pool_ok s'"
  using assms
proof (induction ops s rule: use.induct)
  case (2 ops out cp)
  then obtain ch q where "cp_pool cp = ch # q" "use ops (ch # out, cp\<lparr>cp_pool := q\<rparr>) = Some s'"
    by (auto simp: Get_def pool_ok_def split: list.splits if_splits)
  moreover from this 2(2) have "pool_ok (ch # out, cp\<lparr>cp_pool := q\<rparr>)" by (auto simp: pool_ok_def)
  moreover have "Get cp = (Returns (Some ch), cp\<lparr>cp_pool := q\<rparr>)" using calculation(1) 2(2) by (simp add: Get_def pool_ok_def)
  ultimately show ?case using 2(1) by simp
next
  case (3 ch ops out cp)
  then have ch: "ch \<in> set out" by (simp split: if_splits)
  note put = Put_returns [OF 3(2) ch]
  have "pool_ok (remove1 ch out, cp\<lparr>cp_pool := cp_pool cp @ [ch]\<rparr>)"
    using 3(2) ch by (auto simp: pool_ok_def)
  with 3 ch put show ?case by simp
qed simp

lemma NewChannelPool_ok: "pool_ok ([], NewChannelPool n)"
  by (auto simp: pool_ok_def NewChannelPool_def)

text \<open>A call of \<^verbatim>\<open>Get\<close> on the empty pool waits with the mutex, so no \<^verbatim>\<open>Put\<close> can ever end the wait.\<close>

lemma waiting_Get_blocks_Put:
  assumes "pool_ok (out, cp)" and "cp_pool cp = []"
  shows "\<exists>cp1. Get cp = (Waits, cp1) \<and> (\<forall>ch. Put ch cp1 = Some (Waits, cp1)) \<and> Close cp1 = Some (Waits, cp1)"
  using assms by (simp add: Get_def Put_def Close_def pool_ok_def)

end
