(* ===== verification/WalJson.thy ===== *)
theory WalJson
  imports Persister
begin

text \<open>
  The JSON format of \<^verbatim>\<open>src/wal/wal.go\<close>, the alternative to the binary format that the other theories of the log
  use: \<^verbatim>\<open>appendJSONEntry\<close>, \<^verbatim>\<open>loadNextJSONEntry\<close> and \<^verbatim>\<open>readJSON\<close>. The parts of the Go library they use, the URL
  alphabet of base64, the test for UTF-8 and the marshalling of a string, are defined here. \<^verbatim>\<open>gjson.Get\<close> is a library: it
  is the argument \<open>get\<close> of the definitions, and the locale \<open>json_get\<close> states what it does on the lines of the log.

  The last section shows that the entries of a file are found and read back, and that a torn last line is reported.
\<close>

section \<open>base64\<close>

definition b64char :: "nat \<Rightarrow> byte" where
  "b64char n = of_nat (if n < 26 then 65 + n else if n < 52 then 71 + n else if n < 62 then n - 4 else if n = 62 then 45 else 95)"

definition b64val :: "byte \<Rightarrow> nat option" where
  "b64val b = (let n = unat b in
     if 65 \<le> n \<and> n \<le> 90 then Some (n - 65) else if 97 \<le> n \<and> n \<le> 122 then Some (n - 71)
     else if 48 \<le> n \<and> n \<le> 57 then Some (n + 4) else if n = 45 then Some 62 else if n = 95 then Some 63 else None)"

fun EncodeToString :: "bytes \<Rightarrow> bytes" where
  "EncodeToString [] = []"
| "EncodeToString [a] = [b64char (unat a div 4), b64char (unat a mod 4 * 16), 61, 61]"
| "EncodeToString [a, b] =
     [b64char (unat a div 4), b64char (unat a mod 4 * 16 + unat b div 16), b64char (unat b mod 16 * 4), 61]"
| "EncodeToString (a # b # c # bs) =
     b64char (unat a div 4) # b64char (unat a mod 4 * 16 + unat b div 16) #
     b64char (unat b mod 16 * 4 + unat c div 64) # b64char (unat c mod 64) # EncodeToString bs"

text \<open>Groups of four; line ends are skipped, and padding stands only in the last group.\<close>

fun decodeQuanta :: "bytes \<Rightarrow> bytes option" where
  "decodeQuanta [] = Some []"
| "decodeQuanta (a # b # c # d # bs) = do {
     x \<leftarrow> b64val a;
     y \<leftarrow> b64val b;
     if c = 61 then (if d = 61 \<and> bs = [] then Some [of_nat (x * 4 + y div 16)] else None)
     else do {
       z \<leftarrow> b64val c;
       if d = 61 then (if bs = [] then Some [of_nat (x * 4 + y div 16), of_nat (y mod 16 * 16 + z div 4)] else None)
       else do {
         w \<leftarrow> b64val d;
         rest \<leftarrow> decodeQuanta bs;
         Some (of_nat (x * 4 + y div 16) # of_nat (y mod 16 * 16 + z div 4) # of_nat (z mod 4 * 64 + w) # rest)
       }
     }
   }"
| "decodeQuanta _ = None"

definition DecodeString :: "bytes \<Rightarrow> bytes option" where
  "DecodeString bs = decodeQuanta (filter (\<lambda>b. b \<noteq> 10 \<and> b \<noteq> 13) bs)"

section \<open>Strings\<close>

definition cont :: "byte \<Rightarrow> bool" where
  "cont b \<longleftrightarrow> 128 \<le> b \<and> b \<le> 191"

fun utf8_Valid :: "bytes \<Rightarrow> bool" where
  "utf8_Valid [] = True"
| "utf8_Valid (a # bs) =
     (if a < 128 then utf8_Valid bs
      else if 194 \<le> a \<and> a \<le> 223 then
        (case bs of b # r \<Rightarrow> cont b \<and> utf8_Valid r | _ \<Rightarrow> False)
      else if 224 \<le> a \<and> a \<le> 239 then
        (case bs of b # c # r \<Rightarrow>
             cont b \<and> (a = 224 \<longrightarrow> 160 \<le> b) \<and> (a = 237 \<longrightarrow> b \<le> 159) \<and> cont c \<and> utf8_Valid r
         | _ \<Rightarrow> False)
      else if 240 \<le> a \<and> a \<le> 244 then
        (case bs of b # c # d # r \<Rightarrow>
             cont b \<and> (a = 240 \<longrightarrow> 144 \<le> b) \<and> (a = 244 \<longrightarrow> b \<le> 143) \<and> cont c \<and> cont d \<and> utf8_Valid r
         | _ \<Rightarrow> False)
      else False)"

definition hexDigit :: "nat \<Rightarrow> byte" where
  "hexDigit n = of_nat (if n < 10 then 48 + n else 87 + n)"

text \<open>
  How \<^verbatim>\<open>json.Marshal\<close> writes one ASCII character. \<^verbatim>\<open>&\<close>, \<^verbatim>\<open><\<close> and \<^verbatim>\<open>>\<close> are escaped, since the marshaller
  escapes what has a meaning in HTML.
\<close>

definition escapeByte :: "byte \<Rightarrow> bytes" where
  "escapeByte b =
     (if b = 34 \<or> b = 92 then [92, b]
      else if b = 8 then [92, 98] else if b = 12 then [92, 102] else if b = 10 then [92, 110]
      else if b = 13 then [92, 114] else if b = 9 then [92, 116]
      else if b < 32 \<or> b = 60 \<or> b = 62 \<or> b = 38 then
        [92, 117, 48, 48, hexDigit (unat b div 16), hexDigit (unat b mod 16)]
      else [b])"

text \<open>
  The string itself: the two line separators \<^verbatim>\<open>U+2028\<close> and \<^verbatim>\<open>U+2029\<close> are escaped too, every other character that
  is not ASCII is copied. The string is valid UTF-8 wherever it is marshalled.
\<close>

fun escape :: "bytes \<Rightarrow> bytes" where
  "escape [] = []"
| "escape (a # bs) =
     (if a = 226 \<and> take 2 bs = [128, 168] then [92, 117, 50, 48, 50, 56] @ escape (drop 2 bs)
      else if a = 226 \<and> take 2 bs = [128, 169] then [92, 117, 50, 48, 50, 57] @ escape (drop 2 bs)
      else escapeByte a @ escape bs)"

definition Marshal :: "bytes \<Rightarrow> bytes" where
  "Marshal s = 34 # escape s @ [34]"

section \<open>Entries\<close>

definition appendJSONData :: "bytes \<Rightarrow> bytes \<Rightarrow> bytes" where
  "appendJSONData dst s =
     (if utf8_Valid s then dst @ [34, 43] @ drop 1 (Marshal s)
      else dst @ [34, 36] @ EncodeToString s @ [34])"

definition index_head :: bytes where
  "index_head = ascii ''{'' @ [34] @ ascii ''index'' @ [34] @ ascii '':'' @ [34]"

definition data_head :: bytes where
  "data_head = [34] @ ascii '','' @ [34] @ ascii ''data'' @ [34] @ ascii '':''"

definition appendJSONEntry :: "bytes \<Rightarrow> nat \<Rightarrow> bytes \<Rightarrow> bytes \<times> (nat \<times> nat)" where
  "appendJSONEntry dst index data =
     (let dst' = appendJSONData (dst @ index_head @ ascii (showNat index) @ data_head) data @ [125, 10]
      in (dst', (length dst, length dst')))"

datatype LogFormat = Binary | JSON

definition appendEntry :: "LogFormat \<Rightarrow> bytes \<Rightarrow> nat \<Rightarrow> bytes \<Rightarrow> bytes \<times> (nat \<times> nat)" where
  "appendEntry fmt dst index data = (if fmt = JSON then appendJSONEntry dst index data else appendBinaryEntry dst data)"

text \<open>What \<^verbatim>\<open>gjson.Get\<close> gives: whether the value is a string, and the value as a string.\<close>

type_synonym gjson = "bytes \<Rightarrow> bool \<times> bytes"

fun IndexByte :: "bytes \<Rightarrow> byte \<Rightarrow> nat option" where
  "IndexByte [] c = None"
| "IndexByte (b # bs) c = (if b = c then Some 0 else map_option Suc (IndexByte bs c))"

definition loadNextJSONEntry :: "gjson \<Rightarrow> bytes \<Rightarrow> wal_err + nat" where
  "loadNextJSONEntry get data = (case IndexByte data 10 of
       None \<Rightarrow> Inl ErrCorrupt
     | Some idx \<Rightarrow> if \<not> fst (get (take idx data)) then Inl ErrCorrupt else Inr (idx + 1))"

text \<open>The loop of \<^verbatim>\<open>loadSegmentEntries\<close> with this format.\<close>

function loadJSONEntries :: "gjson \<Rightarrow> bytes \<Rightarrow> nat \<Rightarrow> wal_err + (nat \<times> nat) list" where
  "loadJSONEntries get data pos =
     (if data = [] then Inr []
      else (case loadNextJSONEntry get data of
          Inl e \<Rightarrow> Inl e
        | Inr n \<Rightarrow> (case loadJSONEntries get (drop n data) (pos + n) of
              Inl e \<Rightarrow> Inl e | Inr epos \<Rightarrow> Inr ((pos, pos + n) # epos))))"
  by pat_completeness auto
termination
  by (relation "measure (\<lambda>(get, data, pos). length data)")
     (auto simp: loadNextJSONEntry_def split: if_splits option.splits)

declare loadJSONEntries.simps [simp del]

definition readJSON :: "gjson \<Rightarrow> bytes \<Rightarrow> wal_err + bytes" where
  "readJSON get edata = (case snd (get edata) of
       [] \<Rightarrow> Inl ErrCorrupt
     | c # s \<Rightarrow>
         if c = 36 then (case DecodeString s of None \<Rightarrow> Inl ErrCorrupt | Some data \<Rightarrow> Inr data)
         else if c = 43 then Inr s
         else Inl ErrCorrupt)"

section \<open>JSON strings\<close>

text \<open>
  Reading a JSON string after its opening quote, as RFC 8259 has it: the value, and what follows the closing quote.
  Escapes of surrogates are not needed here and give no value.
\<close>

definition hexVal :: "byte \<Rightarrow> nat option" where
  "hexVal b = (let n = unat b in
     if 48 \<le> n \<and> n \<le> 57 then Some (n - 48) else if 97 \<le> n \<and> n \<le> 102 then Some (n - 87)
     else if 65 \<le> n \<and> n \<le> 70 then Some (n - 55) else None)"

definition utf8_encode :: "nat \<Rightarrow> bytes" where
  "utf8_encode n =
     (if n < 128 then [of_nat n]
      else if n < 2048 then [of_nat (192 + n div 64), of_nat (128 + n mod 64)]
      else [of_nat (224 + n div 4096), of_nat (128 + n div 64 mod 64), of_nat (128 + n mod 64)])"

definition short_escape :: "byte \<Rightarrow> byte option" where
  "short_escape e =
     (if e = 34 \<or> e = 92 \<or> e = 47 then Some e else if e = 98 then Some 8 else if e = 102 then Some 12
      else if e = 110 then Some 10 else if e = 114 then Some 13 else if e = 116 then Some 9 else None)"

fun read_string :: "bytes \<Rightarrow> (bytes \<times> bytes) option" where
  "read_string [] = None"
| "read_string (a # bs) =
     (if a = 34 then Some ([], bs)
      else if a < 32 then None
      else if a = 92 then
        (case bs of
           [] \<Rightarrow> None
         | e # r \<Rightarrow>
             (case short_escape e of
                Some v \<Rightarrow> map_option (\<lambda>(s, t). (v # s, t)) (read_string r)
              | None \<Rightarrow>
                  (case r of
                     h1 # h2 # h3 # h4 # r' \<Rightarrow>
                       if e \<noteq> 117 then None
                       else do {
                         x1 \<leftarrow> hexVal h1; x2 \<leftarrow> hexVal h2; x3 \<leftarrow> hexVal h3; x4 \<leftarrow> hexVal h4;
                         let n = x1 * 4096 + x2 * 256 + x3 * 16 + x4;
                         if 55296 \<le> n \<and> n < 57344 then None
                         else map_option (\<lambda>(s, t). (utf8_encode n @ s, t)) (read_string r')
                       }
                   | _ \<Rightarrow> None)))
      else map_option (\<lambda>(s, t). (a # s, t)) (read_string bs))"

section \<open>Round trips of the encodings\<close>

lemma b64_chars: "list_all (\<lambda>n. b64val (b64char n) = Some n \<and> 32 \<le> b64char n \<and> b64char n \<notin> {34, 61, 92}) [0..<64]"
  by code_simp

lemma b64_char:
  assumes "n < 64"
  shows "b64val (b64char n) = Some n" "32 \<le> b64char n" "b64char n \<noteq> 34" "b64char n \<noteq> 61" "b64char n \<noteq> 92"
  using b64_chars assms by (auto simp: list_all_iff)

lemma byte_less: "unat b < 256" for b :: byte
  using unsigned_less [of b] by simp

lemma byte_parts: "unat b div 4 < 64" "unat b div 16 < 16" "unat b div 64 < 4" for b :: byte
  using byte_less [of b] by (simp_all add: less_mult_imp_div_less)

lemma b64_bounds:
  "unat a mod 4 * 16 < 64" "unat a mod 4 * 16 + unat b div 16 < 64" "unat b mod 16 * 4 < 64"
  "unat b mod 16 * 4 + unat c div 64 < 64" for a b c :: byte
proof -
  have "unat a mod 4 < 4" "unat b mod 16 < 16" by simp_all
  then show "unat a mod 4 * 16 < 64" "unat a mod 4 * 16 + unat b div 16 < 64" "unat b mod 16 * 4 < 64"
    "unat b mod 16 * 4 + unat c div 64 < 64" using byte_parts(2) [of b] byte_parts(3) [of c] by linarith+
qed

lemma decode_encode: "decodeQuanta (EncodeToString bs) = Some bs"
  by (induction bs rule: EncodeToString.induct)
     (simp_all add: b64_char b64_bounds byte_parts del: of_nat_add of_nat_mult)

text \<open>Nothing in the encoding ends a line or a JSON string.\<close>

lemma encode_plain: "b \<in> set (EncodeToString bs) \<Longrightarrow> 32 \<le> b \<and> b \<noteq> 34 \<and> b \<noteq> 92"
  by (induction bs rule: EncodeToString.induct) (auto simp: b64_char b64_bounds byte_parts)

lemma DecodeString_EncodeToString: "DecodeString (EncodeToString bs) = Some bs"
proof -
  have "filter (\<lambda>b. b \<noteq> 10 \<and> b \<noteq> 13) (EncodeToString bs) = EncodeToString bs"
    using encode_plain by (fastforce intro: filter_True)
  then show ?thesis by (simp add: DecodeString_def decode_encode)
qed

lemma hex_digits: "list_all (\<lambda>n. hexVal (hexDigit n) = Some n \<and> hexDigit n \<noteq> 10) [0..<16]"
  by code_simp

lemma hex_digit: "n < 16 \<Longrightarrow> hexVal (hexDigit n) = Some n" "n < 16 \<Longrightarrow> hexDigit n \<noteq> 10"
  using hex_digits by (auto simp: list_all_iff)

lemma hex_zero: "hexVal 48 = Some 0" "hexVal 50 = Some 2" "hexVal 56 = Some 8" "hexVal 57 = Some 9"
  by code_simp+

lemma short_escape_u: "short_escape 117 = None"
  by code_simp

lemma read_unicode:
  "read_string (92 # 117 # h1 # h2 # h3 # h4 # t) = do {
     x1 \<leftarrow> hexVal h1; x2 \<leftarrow> hexVal h2; x3 \<leftarrow> hexVal h3; x4 \<leftarrow> hexVal h4;
     let n = x1 * 4096 + x2 * 256 + x3 * 16 + x4;
     if 55296 \<le> n \<and> n < 57344 then None else map_option (\<lambda>(s, r). (utf8_encode n @ s, r)) (read_string t) }"
  by (simp add: short_escape_u)

lemma read_short: "short_escape e = Some v \<Longrightarrow> read_string (92 # e # t) = map_option (\<lambda>(s, r). (v # s, r)) (read_string t)"
  by simp

lemma read_escapeByte: "read_string (escapeByte a @ t) = map_option (\<lambda>(s, r). (a # s, r)) (read_string t)"
proof -
  consider "a \<in> {34, 92, 8, 12, 10, 13, 9}" | "a \<notin> {34, 92, 8, 12, 10, 13, 9}" "a < 32 \<or> a = 60 \<or> a = 62 \<or> a = 38"
    | "a \<notin> {34, 92, 8, 12, 10, 13, 9}" "\<not> (a < 32 \<or> a = 60 \<or> a = 62 \<or> a = 38)" by blast
  then show ?thesis
  proof cases
    case 1
    then show ?thesis by (auto simp: escapeByte_def read_short short_escape_def simp del: read_string.simps)
  next
    case 2
    then have small: "unat a < 128" by (auto simp: word_less_nat_alt)
    then have "utf8_encode (unat a div 16 * 16 + unat a mod 16) = [a]" by (simp add: utf8_encode_def)
    moreover have "unat a div 16 < 16" using small by (simp add: less_mult_imp_div_less)
    ultimately show ?thesis using 2 small
      by (simp add: escapeByte_def read_unicode hex_digit hex_zero Let_def del: read_string.simps)
  next
    case 3
    then have "escapeByte a = [a]" by (simp add: escapeByte_def)
    with 3 show ?thesis by simp
  qed
qed

lemma read_separator:
  "read_string (92 # 117 # 50 # 48 # 50 # 56 # t) = map_option (\<lambda>(s, r). (226 # 128 # 168 # s, r)) (read_string t)"
  "read_string (92 # 117 # 50 # 48 # 50 # 57 # t) = map_option (\<lambda>(s, r). (226 # 128 # 169 # s, r)) (read_string t)"
proof -
  have "utf8_encode 8232 = [226, 128, 168]" "utf8_encode 8233 = [226, 128, 169]" by (simp_all add: utf8_encode_def)
  then show "read_string (92 # 117 # 50 # 48 # 50 # 56 # t) = map_option (\<lambda>(s, r). (226 # 128 # 168 # s, r)) (read_string t)"
    "read_string (92 # 117 # 50 # 48 # 50 # 57 # t) = map_option (\<lambda>(s, r). (226 # 128 # 169 # s, r)) (read_string t)"
    by (simp_all only: read_unicode hex_zero Let_def Option.bind.simps) simp_all
qed

lemma read_escape: "read_string (escape s @ 34 # rest) = Some (s, rest)"
proof (induction s rule: escape.induct)
  case (2 a bs)
  have sep: "bs = 128 # c # drop 2 bs" if "take 2 bs = [128, c]" for c
    using that append_take_drop_id [of 2 bs] by simp
  consider (ls) "a = 226 \<and> take 2 bs = [128, 168]" | (ps) "\<not> (a = 226 \<and> take 2 bs = [128, 168])" "a = 226 \<and> take 2 bs = [128, 169]"
    | (no) "\<not> (a = 226 \<and> take 2 bs = [128, 168])" "\<not> (a = 226 \<and> take 2 bs = [128, 169])" by blast
  then show ?case
  proof cases
    case ls
    then have "escape (a # bs) @ 34 # rest = 92 # 117 # 50 # 48 # 50 # 56 # escape (drop 2 bs) @ 34 # rest" by simp
    with 2(1) [OF ls] sep [of 168] ls show ?thesis by (metis (mono_tags, lifting) case_prod_conv option.map(2) read_separator(1))
  next
    case ps
    then have "escape (a # bs) @ 34 # rest = 92 # 117 # 50 # 48 # 50 # 57 # escape (drop 2 bs) @ 34 # rest" by simp
    with 2(2) [OF ps] sep [of 169] ps show ?thesis by (metis (mono_tags, lifting) case_prod_conv option.map(2) read_separator(2))
  next
    case no
    then have "escape (a # bs) @ 34 # rest = escapeByte a @ escape bs @ 34 # rest" by auto
    then show ?thesis using 2(3) [OF no] by (simp only: read_escapeByte option.map case_prod_conv)
  qed
qed simp

lemma escapeByte_line: "10 \<notin> set (escapeByte a)"
proof -
  have "unat a div 16 < 16" using byte_less [of a] by (simp add: less_mult_imp_div_less)
  then show ?thesis by (auto simp: escapeByte_def hex_digit)
qed

lemma escape_line: "10 \<notin> set (escape s)"
  by (induction s rule: escape.induct) (simp_all add: escapeByte_line)

lemma read_plain: "(\<And>b. b \<in> set xs \<Longrightarrow> 32 \<le> b \<and> b \<noteq> 34 \<and> b \<noteq> 92) \<Longrightarrow> read_string (xs @ 34 # rest) = Some (xs, rest)"
  by (induction xs) (simp_all add: not_less)

section \<open>The file\<close>

text \<open>A line without the line end: what follows the opening quote of the data, and the whole.\<close>

definition json_body :: "bytes \<Rightarrow> bytes" where
  "json_body d = (if utf8_Valid d then 43 # escape d @ [34] else 36 # EncodeToString d @ [34])"

definition json_line :: "nat \<Rightarrow> bytes \<Rightarrow> bytes" where
  "json_line i d = index_head @ ascii (showNat i) @ data_head @ 34 # json_body d @ [125]"

definition json_value :: "bytes \<Rightarrow> bytes" where
  "json_value d = (if utf8_Valid d then 43 # d else 36 # EncodeToString d)"

lemma read_json_body: "read_string (json_body d @ t) = Some (json_value d, t)"
proof (cases "utf8_Valid d")
  case True
  then show ?thesis using read_escape [of d t] by (simp add: json_body_def json_value_def)
next
  case False
  then show ?thesis using read_plain [of "EncodeToString d" t] encode_plain by (simp add: json_body_def json_value_def)
qed

lemma showNat_digits: "b \<in> set (ascii (showNat n)) \<Longrightarrow> 48 \<le> b"
proof (induction n rule: showNat.induct)
  case (1 n)
  have d: "48 \<le> (of_char (digit k) :: byte)" if "k < 10" for k
  proof -
    have "list_all (\<lambda>k. 48 \<le> (of_char (digit k) :: byte)) [0..<10]" by code_simp
    with that show ?thesis by (simp add: list_all_iff)
  qed
  show ?case
  proof (cases "n < 10")
    case True
    with 1(2) d show ?thesis by (simp add: ascii_def showNat.simps [of n])
  next
    case False
    with 1 d [of "n mod 10"] show ?thesis by (auto simp: ascii_def showNat.simps [of n])
  qed
qed

lemma json_heads: "index_head = [123, 34, 105, 110, 100, 101, 120, 34, 58, 34]" "data_head = [34, 44, 34, 100, 97, 116, 97, 34, 58]"
  by code_simp+

lemma json_line_end: "10 \<notin> set (json_line i d)"
  using showNat_digits [of 10 i] encode_plain [of 10 d] escape_line [of d]
  by (auto simp: json_line_def json_body_def json_heads)

lemma appendJSONEntry_eq: "appendJSONEntry dst i d = (dst @ json_line i d @ [10], (length dst, length dst + length (json_line i d) + 1))"
  by (simp add: appendJSONEntry_def appendJSONData_def Marshal_def json_line_def json_body_def Let_def)

lemma IndexByte_None: "c \<notin> set bs \<Longrightarrow> IndexByte bs c = None"
  by (induction bs) auto

lemma IndexByte_first: "c \<notin> set bs \<Longrightarrow> IndexByte (bs @ c # rest) c = Some (length bs)"
  by (induction bs) auto

text \<open>The entries one write after the other, as \<^verbatim>\<open>writeBatch\<close> appends them, with their positions.\<close>

fun append_all :: "nat \<Rightarrow> bytes list \<Rightarrow> bytes \<Rightarrow> bytes \<times> (nat \<times> nat) list" where
  "append_all i [] dst = (dst, [])"
| "append_all i (d # ds) dst =
     (let (dst1, p) = appendEntry JSON dst i d; (out, ps) = append_all (Suc i) ds dst1 in (out, p # ps))"

fun json_file :: "nat \<Rightarrow> bytes list \<Rightarrow> bytes" where
  "json_file i [] = []"
| "json_file i (d # ds) = json_line i d @ 10 # json_file (Suc i) ds"

fun json_layout :: "nat \<Rightarrow> nat \<Rightarrow> bytes list \<Rightarrow> (nat \<times> nat) list" where
  "json_layout pos i [] = []"
| "json_layout pos i (d # ds) =
     (pos, pos + (length (json_line i d) + 1)) # json_layout (pos + (length (json_line i d) + 1)) (Suc i) ds"

lemma append_all_eq: "append_all i ds dst = (dst @ json_file i ds, json_layout (length dst) i ds)"
  by (induction ds arbitrary: i dst) (simp_all add: appendEntry_def appendJSONEntry_eq add.assoc)

lemma json_layout_slice:
  "k < length ds \<Longrightarrow> json_layout (length dst) i ds ! k = (p, q) \<Longrightarrow>
   drop p (take q (dst @ json_file i ds)) = json_line (i + k) (ds ! k) @ [10]"
proof (induction ds arbitrary: i k dst)
  case (Cons d ds)
  show ?case
  proof (cases k)
    case 0
    with Cons show ?thesis by auto
  next
    case (Suc k')
    with Cons.IH [of k' "dst @ json_line i d @ [10]" "Suc i"] Cons.prems show ?thesis by (simp add: add.assoc)
  qed
qed simp

locale json_get =
  fixes get :: gjson
  assumes get_data: "read_string body = Some (v, 125 # ws) \<Longrightarrow> ws = [] \<or> ws = [10] \<Longrightarrow>
    get (index_head @ ascii (showNat n) @ data_head @ 34 # body) = (True, v)"
begin

lemma get_line: "ws = [] \<or> ws = [10] \<Longrightarrow> get (json_line i d @ ws) = (True, json_value d)"
  using get_data [of "json_body d @ 125 # ws" "json_value d" ws i] read_json_body [of d "125 # ws"] by (simp add: json_line_def)

lemma readJSON_line: "readJSON get (json_line i d @ [10]) = Inr d"
  using get_line [of "[10]" i d] by (simp add: readJSON_def json_value_def DecodeString_EncodeToString)

lemma loadNext_line: "loadNextJSONEntry get (json_line i d @ 10 # rest) = Inr (length (json_line i d) + 1)"
  using get_line [of "[]" i d] IndexByte_first [OF json_line_end] by (simp add: loadNextJSONEntry_def)

lemma load_file:
  "loadJSONEntries get (json_file i ds @ rest) pos = (case loadJSONEntries get rest (pos + length (json_file i ds)) of
     Inl e \<Rightarrow> Inl e | Inr epos \<Rightarrow> Inr (json_layout pos i ds @ epos))"
proof (induction ds arbitrary: i pos)
  case (Cons d ds)
  have "loadJSONEntries get (json_file i (d # ds) @ rest) pos =
      (case loadJSONEntries get (json_file (Suc i) ds @ rest) (pos + (length (json_line i d) + 1)) of
         Inl e \<Rightarrow> Inl e | Inr epos \<Rightarrow> Inr ((pos, pos + (length (json_line i d) + 1)) # epos))"
    using loadNext_line [of i d "json_file (Suc i) ds @ rest"] by (subst loadJSONEntries.simps) (simp cong: sum.case_cong)
  then show ?case by (simp add: Cons.IH add.assoc add.commute add.left_commute split: sum.splits)
qed (simp split: sum.splits)

end

text \<open>Part of a line, cut before its end, is reported whatever the library makes of it.\<close>

lemma torn_line: "0 < n \<Longrightarrow> n \<le> length (json_line i d) \<Longrightarrow> loadJSONEntries get (take n (json_line i d)) pos = Inl ErrCorrupt"
proof -
  assume n: "0 < n" "n \<le> length (json_line i d)"
  have "10 \<notin> set (take n (json_line i d))" using json_line_end in_set_takeD by metis
  then have "loadNextJSONEntry get (take n (json_line i d)) = Inl ErrCorrupt" by (simp add: loadNextJSONEntry_def IndexByte_None)
  moreover have "take n (json_line i d) \<noteq> []" using n by auto
  ultimately show ?thesis by (subst loadJSONEntries.simps) simp
qed

text \<open>A reader of such lines, and that it does what is asked of the library.\<close>

definition line_get :: gjson where
  "line_get line = (case drop (length data_head) (dropWhile (\<lambda>b. b \<noteq> 34) (drop (length index_head) line)) of
       [] \<Rightarrow> (False, [])
     | _ # body \<Rightarrow> (case read_string body of None \<Rightarrow> (False, []) | Some (v, _) \<Rightarrow> (True, v)))"

interpretation line: json_get line_get
proof
  fix body v ws n
  assume body: "read_string body = Some (v, 125 # ws)"
  have "dropWhile (\<lambda>b. b \<noteq> 34) (ascii (showNat n) @ data_head @ 34 # body) = data_head @ 34 # body"
    using showNat_digits [of 34 n] by (subst dropWhile_append2) (auto simp: json_heads)
  with body show "line_get (index_head @ ascii (showNat n) @ data_head @ 34 # body) = (True, v)"
    by (simp add: line_get_def)
qed

text \<open>
  C15: with the JSON format, the entries appended to a segment are found at the positions that were recorded for them
  and each is read back as it was written, text or not; if the file ends inside a further line, it is reported as corrupt.
\<close>

theorem json_entries_read_back:
  assumes "json_get get" and "append_all i es [] = (out, epos)"
    and "appendEntry JSON [] j d = (line, p)" and "0 < n" and "n < length line"
  shows "loadJSONEntries get out 0 = Inr epos \<and> length epos = length es \<and>
    (\<forall>k < length es. readJSON get (drop (fst (epos ! k)) (take (snd (epos ! k)) out)) = Inr (es ! k)) \<and>
    loadJSONEntries get (out @ take n line) 0 = Inl ErrCorrupt"
proof -
  have out: "out = json_file i es" "epos = json_layout 0 i es" using assms(2) append_all_eq [of i es "[]"] by auto
  have line: "line = json_line j d @ [10]" using assms(3) by (simp add: appendEntry_def appendJSONEntry_eq)
  then have torn: "loadJSONEntries get (take n line) pos = Inl ErrCorrupt" for pos
    using torn_line [of n j d get pos] assms(4,5) by simp
  have "loadJSONEntries get [] pos = Inr []" for pos by (simp add: loadJSONEntries.simps)
  then have "loadJSONEntries get out 0 = Inr epos" "loadJSONEntries get (out @ take n line) 0 = Inl ErrCorrupt"
    using json_get.load_file [OF assms(1), of i es "[]" 0] json_get.load_file [OF assms(1), of i es "take n line" 0] torn
    by (simp_all add: out)
  moreover have "length (json_layout pos i es) = length es" for pos by (induction es arbitrary: i pos) simp_all
  moreover have "readJSON get (drop (fst (epos ! k)) (take (snd (epos ! k)) out)) = Inr (es ! k)" if "k < length es" for k
    using json_layout_slice [of k es "[]" i "fst (epos ! k)" "snd (epos ! k)"] that json_get.readJSON_line [OF assms(1)] by (simp add: out)
  ultimately show ?thesis by (simp add: out)
qed

theorem json_entries_read_back_witness:
  "\<exists>out epos. append_all 7 [[104, 10, 34, 60], [255, 0], []] [] = (out, epos) \<and> loadJSONEntries line_get out 0 = Inr epos \<and>
     readJSON line_get (drop (fst (epos ! 1)) (take (snd (epos ! 1)) out)) = Inr [255, 0] \<and>
     loadJSONEntries line_get (out @ take 5 (fst (appendEntry JSON [] 10 [1]))) 0 = Inl ErrCorrupt"
proof -
  let ?es = "[[104, 10, 34, 60], [255, 0], []] :: bytes list"
  obtain out epos where a: "append_all 7 ?es [] = (out, epos)" by fastforce
  have len: "5 < length (fst (appendEntry JSON [] 10 [1]))"
    by (simp add: appendEntry_def appendJSONEntry_eq json_line_def json_heads)
  have r: "loadJSONEntries line_get out 0 = Inr epos \<and> length epos = length ?es \<and>
      (\<forall>k < length ?es. readJSON line_get (drop (fst (epos ! k)) (take (snd (epos ! k)) out)) = Inr (?es ! k)) \<and>
      loadJSONEntries line_get (out @ take 5 (fst (appendEntry JSON [] 10 [1]))) 0 = Inl ErrCorrupt"
    by (rule json_entries_read_back [OF line.json_get_axioms a prod.collapse [symmetric] _ len]) simp
  then have "readJSON line_get (drop (fst (epos ! 1)) (take (snd (epos ! 1)) out)) = Inr (?es ! 1)" by simp
  with r a show ?thesis by auto
qed

end
