(* ===== verification/FileUtil.thy ===== *)
theory FileUtil
  imports Snapshotter "HOL-Library.Multiset"
begin

text \<open>
  The rest of \<^verbatim>\<open>src/persister/util.go\<close>: listing, creating and testing a directory, locking a file, and preallocating
  space for it. What the operating system answers is an argument or part of the state of the directory.

  \<open>ReadDir_lists\<close> and \<open>CreateDirAll_iff\<close> say what the directory functions do; \<open>preallocExtendTrunc_cuts\<close> that the
  fallback for file systems without \<^verbatim>\<open>fallocate\<close> cuts a file that is already larger.
\<close>

section \<open>Directories\<close>

record directory =
  dd_exists :: bool
  dd_perm :: nat
  dd_readable :: bool
  dd_writable :: bool
  dd_names :: "string list"

datatype dir_err = OsError | EmptyDir | WrongPermission nat | NotEmpty "string list"

definition Assert :: "bool \<Rightarrow> unit option" where
  "Assert condition = (if condition then Some () else None)"

definition MustMarshal :: "('m \<Rightarrow> bytes option) \<Rightarrow> 'm \<Rightarrow> bytes option" where
  "MustMarshal marshal m = (case marshal m of None \<Rightarrow> None | Some b \<Rightarrow> Some b)"

definition PrivateDirMode :: nat where "PrivateDirMode = 7 * 64"

definition Exist :: "directory \<Rightarrow> bool" where
  "Exist d = dd_exists d"

text \<open>\<^verbatim>\<open>filepath.Ext\<close>: from the last dot of the last part of the name on.\<close>

definition Ext :: "string \<Rightarrow> string" where
  "Ext v = (let t = takeWhile (\<lambda>c. c \<noteq> CHR ''.'' \<and> c \<noteq> CHR ''/'') (rev v) in
     case drop (length t) (rev v) of
       c # _ \<Rightarrow> if c = CHR ''.'' then c # rev t else []
     | [] \<Rightarrow> [])"

record ReadDirOp =
  ro_ext :: string

type_synonym ReadDirOption = "ReadDirOp \<Rightarrow> ReadDirOp"

definition WithExt :: "string \<Rightarrow> ReadDirOption" where
  "WithExt ext op = op\<lparr>ro_ext := ext\<rparr>"

definition applyOpts :: "ReadDirOption list \<Rightarrow> ReadDirOp \<Rightarrow> ReadDirOp" where
  "applyOpts opts op = fold (\<lambda>opt. opt) opts op"

definition ReadDirNames :: "ReadDirOption list \<Rightarrow> directory \<Rightarrow> dir_err + string list" where
  "ReadDirNames opts d =
     (let op = applyOpts opts \<lparr>ro_ext = ''''\<rparr> in
      if \<not> dd_exists d \<or> \<not> dd_readable d then Inl OsError
      else (let names = sort (dd_names d) in
        Inr (if ro_ext op \<noteq> '''' then filter (\<lambda>v. Ext v = ro_ext op) names else names)))"

definition ExistWal :: "directory \<Rightarrow> bool" where
  "ExistWal d = (case ReadDirNames [WithExt ''.wal''] d of Inl _ \<Rightarrow> False | Inr names \<Rightarrow> length names \<noteq> 0)"

definition CheckDirPermission :: "nat \<Rightarrow> directory \<Rightarrow> dir_err option" where
  "CheckDirPermission perm d =
     (if \<not> Exist d then Some EmptyDir
      else if dd_perm d \<noteq> perm then Some (WrongPermission (dd_perm d))
      else None)"

text \<open>A file is written over whatever has its name, and removed.\<close>

definition IsDirWriteable :: "directory \<Rightarrow> dir_err option \<times> directory" where
  "IsDirWriteable d =
     (if \<not> dd_exists d \<or> \<not> dd_writable d then (Some OsError, d)
      else (let d1 = d\<lparr>dd_names := List.insert ''.touch'' (dd_names d)\<rparr>
            in (None, d1\<lparr>dd_names := removeAll ''.touch'' (dd_names d1)\<rparr>)))"

text \<open>
  The argument \<open>lg\<close> says whether there is a logger, \<open>mk\<close> whether the directory can be made. A wrong permission is only
  logged.
\<close>

definition TouchDirAll :: "bool \<Rightarrow> bool \<Rightarrow> directory \<Rightarrow> (dir_err option \<times> directory) option" where
  "TouchDirAll lg mk d = do {
     Assert lg;
     if Exist d then (let _ = CheckDirPermission PrivateDirMode d in Some (IsDirWriteable d))
     else if \<not> mk then Some (Some OsError, d)
     else Some (IsDirWriteable (d\<lparr>dd_exists := True, dd_perm := PrivateDirMode, dd_readable := True, dd_writable := True,
                                 dd_names := []\<rparr>))
   }"

definition CreateDirAll :: "bool \<Rightarrow> bool \<Rightarrow> directory \<Rightarrow> (dir_err option \<times> directory) option" where
  "CreateDirAll lg mk d = do {
     (err, d1) \<leftarrow> TouchDirAll lg mk d;
     Some (case err of
         Some e \<Rightarrow> (Some e, d1)
       | None \<Rightarrow> (case ReadDirNames [] d1 of
             Inl e \<Rightarrow> (Some e, d1)
           | Inr ns \<Rightarrow> (if length ns \<noteq> 0 then (Some (NotEmpty ns), d1) else (None, d1))))
   }"

section \<open>Files\<close>

record osfile =
  of_data :: bytes
  of_off :: int

datatype errno = ENOTSUP | EINTR | OtherErrno

datatype file_err = Sys errno | SeekErr | TruncErr | OpenErr | FlockErr

text \<open>The system calls: extending a file with zero bytes, and setting its length.\<close>

definition extended :: "int \<Rightarrow> osfile \<Rightarrow> osfile" where
  "extended n f = f\<lparr>of_data := of_data f @ replicate (nat n - length (of_data f)) 0\<rparr>"

definition truncated :: "int \<Rightarrow> osfile \<Rightarrow> osfile" where
  "truncated n f = f\<lparr>of_data := take (nat n) (of_data f) @ replicate (nat n - length (of_data f)) 0\<rparr>"

definition Truncate :: "int \<Rightarrow> osfile \<Rightarrow> file_err option \<times> osfile" where
  "Truncate n f = (if n < 0 then (Some TruncErr, f) else (None, truncated n f))"

text \<open>With the flag to keep the size, \<^verbatim>\<open>fallocate\<close> reserves space and changes nothing that a reader sees.\<close>

definition preallocFixed :: "errno option \<Rightarrow> osfile \<Rightarrow> file_err option \<times> osfile" where
  "preallocFixed falloc f = (case falloc of
       None \<Rightarrow> (None, f)
     | Some e \<Rightarrow> if e = ENOTSUP then (None, f) else (Some (Sys e), f))"

definition preallocExtendTrunc :: "bool \<Rightarrow> int \<Rightarrow> osfile \<Rightarrow> file_err option \<times> osfile" where
  "preallocExtendTrunc seekable sizeInBytes f =
     (if \<not> seekable then (Some SeekErr, f)
      else (let curOff = of_off f; sz = int (length (of_data f)) + sizeInBytes in
        if sz < 0 then (Some SeekErr, f)
        else (let f1 = f\<lparr>of_off := sz\<rparr>; f2 = f1\<lparr>of_off := curOff\<rparr> in
          if sizeInBytes > sz then (None, f2) else Truncate sizeInBytes f2)))"

definition preallocExtend :: "errno option \<Rightarrow> bool \<Rightarrow> int \<Rightarrow> osfile \<Rightarrow> file_err option \<times> osfile" where
  "preallocExtend falloc seekable sizeInBytes f = (case falloc of
       None \<Rightarrow> (None, extended sizeInBytes f)
     | Some e \<Rightarrow> if e = ENOTSUP \<or> e = EINTR then preallocExtendTrunc seekable sizeInBytes f else (Some (Sys e), f))"

definition Preallocate :: "errno option \<Rightarrow> bool \<Rightarrow> int \<Rightarrow> bool \<Rightarrow> osfile \<Rightarrow> file_err option \<times> osfile" where
  "Preallocate falloc seekable sizeInBytes extendFile f =
     (if sizeInBytes = 0 then (None, f)
      else if extendFile then preallocExtend falloc seekable sizeInBytes f
      else preallocFixed falloc f)"

text \<open>
  \<^verbatim>\<open>LockFile\<close>: the locks held and the files open, the file opened with the result of the call, and the lock taken. The
  lock waits while another holds it, which is \<^const>\<open>None\<close>.
\<close>

record locks =
  lk_held :: "string set"
  lk_open :: "string list"

definition flockLockFile :: "bool \<Rightarrow> bool \<Rightarrow> string \<Rightarrow> locks \<Rightarrow> (file_err option \<times> locks) option" where
  "flockLockFile canOpen canLock path s =
     (if \<not> canOpen then Some (Some OpenErr, s)
      else (let s1 = s\<lparr>lk_open := path # lk_open s\<rparr> in
        if \<not> canLock then Some (Some FlockErr, s1\<lparr>lk_open := remove1 path (lk_open s1)\<rparr>)
        else if path \<in> lk_held s1 then None
        else Some (None, s1\<lparr>lk_held := insert path (lk_held s1)\<rparr>)))"

section \<open>What they do\<close>

lemma Ext_suffix: "CHR ''.'' \<notin> set e \<Longrightarrow> CHR ''/'' \<notin> set e \<Longrightarrow> Ext (base @ CHR ''.'' # e) = CHR ''.'' # e"
proof -
  assume "CHR ''.'' \<notin> set e" "CHR ''/'' \<notin> set e"
  then have "takeWhile (\<lambda>c. c \<noteq> CHR ''.'' \<and> c \<noteq> CHR ''/'') (rev e @ CHR ''.'' # rev base) = rev e"
    by (subst takeWhile_append2) auto
  then show ?thesis by (simp add: Ext_def Let_def)
qed

text \<open>A listing is sorted and has exactly the names with the extension asked for; the last option wins.\<close>

lemma ReadDir_lists:
  assumes "ReadDirNames (opts @ [WithExt ext]) d = Inr ns"
  shows "sorted ns" and "mset ns = mset (filter (\<lambda>v. ext = '''' \<or> Ext v = ext) (dd_names d))"
proof -
  have "ns = filter (\<lambda>v. ext = '''' \<or> Ext v = ext) (sort (dd_names d))"
    using assms by (auto simp: ReadDirNames_def applyOpts_def WithExt_def Let_def split: if_splits)
  then show "sorted ns" "mset ns = mset (filter (\<lambda>v. ext = '''' \<or> Ext v = ext) (dd_names d))"
    by (simp_all add: sorted_filter [of "\<lambda>x. x", simplified])
qed

lemma ExistWal_iff: "ExistWal d \<longleftrightarrow> dd_exists d \<and> dd_readable d \<and> (\<exists>v \<in> set (dd_names d). Ext v = ''.wal'')"
  by (auto simp: ExistWal_def ReadDirNames_def applyOpts_def WithExt_def Let_def filter_empty_conv)

text \<open>
  \<^verbatim>\<open>CreateDirAll\<close> succeeds exactly if the directory can be made, or if it is there, can be written and listed, and holds
  nothing but the file that the test for writing removes; afterwards it exists and is empty.
\<close>

lemma CreateDirAll_iff:
  "(\<exists>d'. CreateDirAll True mk d = Some (None, d')) \<longleftrightarrow>
     (if dd_exists d then dd_writable d \<and> dd_readable d \<and> set (dd_names d) \<subseteq> {''.touch''} else mk)"
proof (cases "dd_exists d")
  case True
  then show ?thesis
    by (auto simp: CreateDirAll_def TouchDirAll_def Assert_def Exist_def IsDirWriteable_def ReadDirNames_def applyOpts_def
        Let_def removeAll_filter_not_eq filter_empty_conv split: if_splits)
next
  case False
  then show ?thesis
    by (auto simp: CreateDirAll_def TouchDirAll_def Assert_def Exist_def IsDirWriteable_def ReadDirNames_def applyOpts_def
        Let_def split: if_splits)
qed

lemma CreateDirAll_empty: "CreateDirAll lg mk d = Some (None, d') \<Longrightarrow> dd_exists d' \<and> dd_names d' = []"
  by (auto simp: CreateDirAll_def TouchDirAll_def Assert_def Exist_def IsDirWriteable_def ReadDirNames_def applyOpts_def
      Let_def split: if_splits option.splits bind_splits)

text \<open>
  With \<^verbatim>\<open>fallocate\<close>, \<^verbatim>\<open>Preallocate\<close> keeps the data of the file. The fallback sets the length to the size in every case,
  since the end it compares with has the size added: a file that is larger loses its end.
\<close>

lemma preallocate_keeps:
  assumes "Preallocate None seekable n ext f = (None, f')"
  shows "take (length (of_data f)) (of_data f') = of_data f"
  using assms by (auto simp: Preallocate_def preallocExtend_def preallocFixed_def extended_def split: if_splits)

lemma preallocExtendTrunc_cuts:
  assumes "0 < n"
  shows "Preallocate (Some ENOTSUP) True n True f = (None, truncated n f)"
    and "int (length (of_data (truncated n f))) = n"
    and "int (length (of_data f)) > n \<Longrightarrow> of_data (truncated n f) \<noteq> of_data f"
  using assms by (auto simp: Preallocate_def preallocExtend_def preallocExtendTrunc_def Truncate_def truncated_def Let_def)

text \<open>A lock that is given was free, and a second one waits.\<close>

lemma flock_excludes:
  assumes "flockLockFile a b path s = Some (None, s')"
  shows "path \<notin> lk_held s" and "flockLockFile True True path s' = None"
  using assms by (auto simp: flockLockFile_def Let_def split: if_splits)

end
