(* ===== verification/Listeners.thy ===== *)
theory Listeners
  imports Prelude
begin

text \<open>
  The loops that accept connections, \<^verbatim>\<open>Moniter\<close> and \<^verbatim>\<open>Serve\<close> of \<^verbatim>\<open>src/server/clustermg.go\<close> and \<^verbatim>\<open>serve\<close> of
  \<^verbatim>\<open>src/server/server.go\<close>, and \<^verbatim>\<open>isPrepare\<close>, with which a server tells that its peer has caught up. What the listener
  answers is an argument; the handlers of the connections are in the theories \<open>ClusterMg\<close> and \<open>KvServer\<close>.

  \<open>acceptRounds_handles\<close> and \<open>kv_serve_handles\<close> say which connections get a handler, \<open>no_listener_panics\<close> that a
  cluster manager whose address is taken ends the process, and \<open>wait_until_prepared\<close> that the start of the service waits for
  the server.
\<close>

section \<open>Accepting connections\<close>

datatype 'c accepted = Accepted 'c | AcceptErr

datatype lis_end = Running | Stopped | Failed

text \<open>The loop with, for every round, whether the manager has been killed and what \<^verbatim>\<open>Accept\<close> gives.\<close>

fun acceptRounds :: "(bool \<times> 'c accepted) list \<Rightarrow> 'c list \<Rightarrow> lis_end \<times> 'c list" where
  "acceptRounds [] handled = (Running, handled)"
| "acceptRounds ((killed, a) # rs) handled =
     (if killed then (Stopped, handled)
      else (case a of
          AcceptErr \<Rightarrow> (Failed, handled)
        | Accepted c \<Rightarrow> acceptRounds rs (handled @ [c])))"

text \<open>
  The goroutines besides the handlers. The deferred function closes the listener in every case, and there is none if
  listening failed.
\<close>

datatype worker = adjustWeight_worker | procSendQue_worker | procRespQue_worker | procFailedReq_worker

definition Moniter :: "bool \<Rightarrow> (bool \<times> 'c accepted) list \<Rightarrow> (worker list \<times> lis_end \<times> 'c list) option" where
  "Moniter listenOk rs = (if \<not> listenOk then None else Some ([adjustWeight_worker], acceptRounds rs []))"

definition Serve :: "bool \<Rightarrow> (bool \<times> 'c accepted) list \<Rightarrow> (worker list \<times> lis_end \<times> 'c list) option" where
  "Serve listenOk rs =
     (if \<not> listenOk then None
      else Some ([procSendQue_worker, procRespQue_worker, procFailedReq_worker], acceptRounds rs []))"

text \<open>\<^verbatim>\<open>Start\<close> runs both; a panic of either ends the process.\<close>

definition Cluster_Start :: "bool \<Rightarrow> bool \<Rightarrow> (bool \<times> 'c accepted) list \<Rightarrow> (bool \<times> 'c accepted) list \<Rightarrow>
    ((worker list \<times> lis_end \<times> 'c list) \<times> (worker list \<times> lis_end \<times> 'c list)) option" where
  "Cluster_Start syncOk servOk syncRounds servRounds = do {
     mo \<leftarrow> Moniter syncOk syncRounds;
     se \<leftarrow> Serve servOk servRounds;
     Some (mo, se)
   }"

text \<open>The server returns if it cannot listen, and goes on after an error.\<close>

fun kv_acceptRounds :: "'c accepted list \<Rightarrow> 'c list \<Rightarrow> 'c list" where
  "kv_acceptRounds [] handled = handled"
| "kv_acceptRounds (AcceptErr # rs) handled = kv_acceptRounds rs handled"
| "kv_acceptRounds (Accepted c # rs) handled = kv_acceptRounds rs (handled @ [c])"

definition kv_serve :: "bool \<Rightarrow> 'c accepted list \<Rightarrow> 'c list" where
  "kv_serve listenOk rs = (if \<not> listenOk then [] else kv_acceptRounds rs [])"

definition conns :: "'c accepted list \<Rightarrow> 'c list" where
  "conns rs = concat (map (\<lambda>a. case a of Accepted c \<Rightarrow> [c] | AcceptErr \<Rightarrow> []) rs)"

lemma conns_simps [simp]: "conns [] = []" "conns (Accepted c # rs) = c # conns rs" "conns (AcceptErr # rs) = conns rs"
  by (simp_all add: conns_def)

lemma acceptRounds_handles:
  "acceptRounds rs handled = (e, handled') \<Longrightarrow>
     handled' = handled @ conns (map snd (takeWhile (\<lambda>(killed, a). \<not> killed \<and> a \<noteq> AcceptErr) rs)) \<and>
     (e = Running \<longleftrightarrow> (\<forall>(killed, a) \<in> set rs. \<not> killed \<and> a \<noteq> AcceptErr))"
  by (induction rs handled rule: acceptRounds.induct) (auto split: if_splits accepted.splits)

lemma kv_acceptRounds_eq: "kv_acceptRounds rs handled = handled @ conns rs"
  by (induction rs handled rule: kv_acceptRounds.induct) simp_all

lemma kv_serve_handles: "kv_serve True rs = conns rs"
  by (simp add: kv_serve_def kv_acceptRounds_eq)

lemma no_listener_panics: "Cluster_Start syncOk servOk rs qs = None \<longleftrightarrow> \<not> syncOk \<or> \<not> servOk"
  by (simp add: Cluster_Start_def Moniter_def Serve_def)

section \<open>Waiting for a server\<close>

text \<open>The two channels, each with room for one value: the values in them, and whether they are closed.\<close>

record prepare =
  pr_raft :: nat
  pr_raftClosed :: bool
  pr_server :: nat
  pr_serverClosed :: bool

definition prepare0 :: prepare where
  "prepare0 = \<lparr>pr_raft = 0, pr_raftClosed = False, pr_server = 0, pr_serverClosed = False\<rparr>"

text \<open>The send at the end of \<^verbatim>\<open>QuickApply\<close>; a send on a closed channel panics.\<close>

definition sendPrepared :: "prepare \<Rightarrow> prepare option" where
  "sendPrepared p = (if pr_raftClosed p \<or> 1 \<le> pr_raft p then None else Some (p\<lparr>pr_raft := pr_raft p + 1\<rparr>))"

text \<open>\<^verbatim>\<open>isPrepare\<close>; \<^const>\<open>None\<close> while it waits.\<close>

definition isPrepare :: "prepare \<Rightarrow> prepare option" where
  "isPrepare p =
     (if pr_raft p = 0 then None
      else Some (p\<lparr>pr_raft := pr_raft p - 1, pr_server := pr_server p + 1, pr_raftClosed := True, pr_serverClosed := True\<rparr>))"

text \<open>The receive in \<^verbatim>\<open>StartServer\<close>; it returns at once from a closed channel.\<close>

definition waitPrepared :: "prepare \<Rightarrow> prepare option" where
  "waitPrepared p =
     (if 0 < pr_server p then Some (p\<lparr>pr_server := pr_server p - 1\<rparr>)
      else if pr_serverClosed p then Some p
      else None)"

lemma wait_until_prepared:
  "waitPrepared prepare0 = None" "isPrepare prepare0 = None"
  "\<exists>p1 p2 p3. sendPrepared prepare0 = Some p1 \<and> waitPrepared p1 = None \<and> isPrepare p1 = Some p2 \<and> waitPrepared p2 = Some p3 \<and>
     waitPrepared p3 = Some p3 \<and> sendPrepared p3 = None"
  by (simp_all add: prepare0_def sendPrepared_def isPrepare_def waitPrepared_def)

end
