(* ===== verification/Spec2Isabelle.thy ===== *)
theory Spec2Isabelle
  imports Common RaftCluster RaftConnect PersisterFaults KvService TcpProxy LabGob StartUp Pool WalJson FileUtil Listeners
begin

text \<open>
  A verification of the Raft key-value service in \<^verbatim>\<open>src/\<close>.

  \<^bold>\<open>The program.\<close> Clients (\<^verbatim>\<open>src/server/client.go\<close>) send \<^verbatim>\<open>Get\<close>, \<^verbatim>\<open>Put\<close> and \<^verbatim>\<open>Append\<close> as bytes to a TCP proxy
  (\<^verbatim>\<open>src/proxy/tcpproxy.go\<close>), which passes the connection to the cluster manager (\<^verbatim>\<open>src/server/clustermg.go\<close>). The cluster
  manager picks a node for every request and passes the responses back; it learns about the nodes from status messages.
  A node is a key-value server (\<^verbatim>\<open>src/server/server.go\<close>) on top of a Raft peer (\<^verbatim>\<open>src/raft/raft.go\<close>). Writes go through the
  log of Raft, reads are answered once the server has applied what the leader had committed. A peer keeps vote, term, log
  and snapshots with a persister (\<^verbatim>\<open>src/persister\<close>), which writes entries to a write-ahead log (\<^verbatim>\<open>src/wal\<close>), snapshots to
  files of their own and the rest to a state file. \<^verbatim>\<open>src/main/main.go\<close> starts all of it from the configuration of
  \<^verbatim>\<open>src/conf\<close>.

  \<^bold>\<open>How code becomes definitions.\<close> \<open>Prelude\<close> fixes the conventions. A function that can panic, end the process or wait for
  ever has an option as its result, and \<^const>\<open>None\<close> is that outcome; an error that Go returns as a value is part of the
  result. A struct is a record whose field names have a prefix (\<open>rf_\<close>, \<open>ps_\<close>, \<open>kv_\<close>, \<open>cu_\<close>, \<open>ck_\<close>, \<open>lg_\<close>), a message is a record of
  words of the width it has on the wire, a pointer that may be nil is an option. One definition is one critical section of a
  mutex or one round of the loop of a goroutine, so that operations interleave between them: the runs
  of a peer (\<open>node_run\<close>), of a cluster (\<open>cluster_run\<close>) and of a server (\<open>server_run\<close>) are sequences of such steps in any
  order. Clocks, random numbers, answers of other nodes and outcomes of system calls are arguments.

  \<^bold>\<open>The theories.\<close>
  \<^item> \<open>Common\<close>, \<open>Codec\<close>, \<open>Wire\<close>: error codes (\<^verbatim>\<open>src/common\<close>), little-endian numbers, and the messages of \<^verbatim>\<open>src/proxy\<close> with the
    conversions of \<^verbatim>\<open>src/server/message_proc.go\<close>; packing and unpacking are inverse to each other.
  \<^item> \<open>RaftTypes\<close>, \<open>Raft\<close>: the state and all operations of \<^verbatim>\<open>src/raft/raft.go\<close>. \<open>RaftVote\<close>: terms and votes of one peer over
    any store that keeps what it was given. \<open>RaftLog\<close>: \<^verbatim>\<open>AppendEntries\<close> against the reference \<open>mergeLog\<close>, and that it does
    not panic. \<open>RaftCommit\<close>: commitment, delivery to the service, snapshots. \<open>RaftElection\<close>, \<open>RaftCluster\<close>: majorities and
    elections of a cluster. \<open>RaftConnect\<close>: the connections to the peers.
  \<^item> \<open>Wal\<close>: \<^verbatim>\<open>src/wal/wal.go\<close> over a directory of files. \<open>WalFormat\<close>, \<open>WalLog\<close>, \<open>WalWrite\<close>: the binary format, and reading and
    writing as operations on a sequence of entries (\<open>log_rel\<close>). \<open>WalRecovery\<close>, \<open>WalCrash\<close>, \<open>WalTruncate\<close>, \<open>WalOpen\<close>: opening,
    truncation, and crashes at every system call of them. \<open>WalJson\<close>: the JSON format.
  \<^item> \<open>Snapshotter\<close>, \<open>Persister\<close>: \<^verbatim>\<open>src/persister\<close>. \<open>PersisterState\<close>: vote and term reach the disk, which is the
    promise that elections rest on. \<open>PersisterLog\<close>, \<open>PersisterSave\<close>, \<open>PersisterSnap\<close>: entries and snapshots reach the disk
    and come back after a restart. \<open>PersisterFaults\<close>: where they do not. \<open>FileUtil\<close>: the rest of \<^verbatim>\<open>util.go\<close>.
  \<^item> \<open>KvServer\<close>: the state and the loops of \<^verbatim>\<open>src/server/server.go\<close>. \<open>KvApply\<close>: the server refines a map of keys to values.
    \<open>KvSnapshot\<close>: snapshots carry the state to another server and over a restart. \<open>KvRun\<close>: the invariant of a server.
    \<open>KvRead\<close>: what a read returns.
  \<^item> \<open>Clerk\<close>, \<open>ClerkStream\<close>: the client and its byte streams. \<open>ClusterMg\<close>, \<open>ClusterPick\<close>: the cluster manager and its choice
    of a node. \<open>KvService\<close>: requests, responses and status messages through client, cluster manager and server.
  \<^item> \<open>TcpProxy\<close>, \<open>LabGob\<close>, \<open>Pool\<close>, \<open>Conf\<close>, \<open>Listeners\<close>, \<open>StartUp\<close>: the proxy, the checks before encoding, the channel pool,
    the configuration, the accept loops, and the start of the service.
  \<^item> This theory joins the elections to the store on disk.

  \<^bold>\<open>Interfaces.\<close> The locales state what one part relies on of another, and are interpreted on the definitions of the model
  where the provider is part of the program. \<open>codec\<close>, \<open>exact_codec\<close>: fixed-width numbers, for every width in use.
  \<open>stable_store\<close>: what elections need of \<^verbatim>\<open>Save\<close>; \<open>Save_stable\<close> below discharges it for the persister. \<open>index_log\<close>: what the
  persister needs of the log, which the log provides for every cache of segments as in \<open>segment_cache\<close>. Three stand for libraries: \<open>proto_codec\<close> (protobuf: decoding inverts encoding),
  \<open>gob_codec\<close> (the same for \<^verbatim>\<open>encoding/gob\<close>, whose bytes the program never looks at) and \<open>json_get\<close> (\<^verbatim>\<open>gjson\<close> reads a JSON string).
  Each has an interpretation on an executable instance, which the witnesses use.

  \<^bold>\<open>Bounds.\<close> Integers are words where they travel on the wire, where the weights are computed and where the code converts
  between widths; terms and indices, which start at 0 and grow by one, are \<^typ>\<open>int\<close>. The checksum of entries is computed bit by bit.
  Loops are recursive functions that are shown to terminate; none has fuel. The loops of goroutines, which do not end, are
  given one round at a time. The retry loops take a list with the outcome of every attempt, and the theorems say how long a
  list is enough.

  \<^bold>\<open>Not modelled.\<close> The transport: gRPC, TCP and the copying of bytes in the proxy, of which only success or failure and the
  bytes are seen. The generated protobuf code. Logging (\<^verbatim>\<open>src/mylog\<close>), except for arguments of log messages that can panic.
  \<^verbatim>\<open>src/server/nginx_starter.go\<close>, which starts an external program. The interfaces under \<^verbatim>\<open>src/proxy/siface\<close> of a server framework
  and \<^verbatim>\<open>src/proxy/request.go\<close>, which nothing implements or uses. The command line of \<^verbatim>\<open>main\<close>. Data races: a critical
  section is atomic, also where the code reads a field without the lock.
\<close>

section \<open>Elections over the store on disk\<close>

lemma Save_stable: "proto_codec c \<Longrightarrow> stable_store (Save c) (stored c)"
  using proto_codec.Save_synced on_disk_stored by unfold_locales blast


text \<open>Three peers with an empty log, and the election of the first of them.\<close>

definition sample_node :: "int \<Rightarrow> nat option Persister Raftserver" where
  "sample_node i = (Make [0, 1, 2] i (sample_ps\<lparr>ps_id := i\<rparr>) 0)\<lparr>rf_log := [Some \<lparr>e_Term = 0, e_Command = None\<rparr>]\<rparr>"

definition sample_cluster :: "nat option Persister cluster" where
  "sample_cluster = \<lparr>cl_node = sample_node, cl_reqs = {}, cl_reps = {}, cl_open = {}\<rparr>"

definition sample_vote :: RequestVoteArgs where
  "sample_vote = \<lparr>rva_Term = 1, rva_CandidateId = 0, rva_LastLogIndex = 0, rva_LastLogTerm = 0\<rparr>"

lemma sample_election:
  "\<exists>rf. StartElection (Save sample_codec) 900 3 (sample_node 0) = Some (sample_vote, rf) \<and>
     rf_nextIndex rf = [] \<and> rf_voteCount rf = 1 \<and> rf_role rf = Candidate \<and> go_len (rf_peers rf) = 2 \<and>
     rf_currentTerm rf = 1 \<and> entry_at (rf_log rf) (lastLocal rf) \<noteq> None \<and>
     901 - rf_electionTimeStamp rf \<le> rf_electionTimeout rf"
proof -
  have "case StartElection (Save sample_codec) 900 3 (sample_node 0) of None \<Rightarrow> False | Some (args, rf) \<Rightarrow>
     args = sample_vote \<and>
     rf_nextIndex rf = [] \<and> rf_voteCount rf = 1 \<and> rf_role rf = Candidate \<and> go_len (rf_peers rf) = 2 \<and>
     rf_currentTerm rf = 1 \<and> entry_at (rf_log rf) (lastLocal rf) \<noteq> None \<and>
     901 - rf_electionTimeStamp rf \<le> rf_electionTimeout rf" by code_simp
  then show ?thesis by (rule returns_pair) blast
qed

lemma sample_granted:
  "\<exists>rf. RequestVote (Save sample_codec) 901 (sample_node 1) sample_vote = Some (\<lparr>rvr_Term = 1, rvr_VoteGranted = True\<rparr>, rf) \<and>
     rf_role rf = Follower"
proof -
  have "case RequestVote (Save sample_codec) 901 (sample_node 1) sample_vote of None \<Rightarrow> False | Some (reply, rf) \<Rightarrow>
     reply = \<lparr>rvr_Term = 1, rvr_VoteGranted = True\<rparr> \<and> rf_role rf = Follower" by code_simp
  then show ?thesis by (rule returns_pair) blast
qed

lemma sample_run:
  "\<exists>V cl. cluster_run (Save sample_codec) (stored sample_codec) [0, 1, 2] sample_cluster V cl \<and>
     rf_role (cl_node cl 0) = Leader \<and> rf_currentTerm (cl_node cl 0) = 1"
proof -
  obtain rf0 where rf0: "StartElection (Save sample_codec) 900 3 (sample_node 0) = Some (sample_vote, rf0)"
    "rf_nextIndex rf0 = []" "rf_voteCount rf0 = 1" "rf_role rf0 = Candidate" "go_len (rf_peers rf0) = 2"
    "rf_currentTerm rf0 = 1" "entry_at (rf_log rf0) (lastLocal rf0) \<noteq> None"
    "901 - rf_electionTimeStamp rf0 \<le> rf_electionTimeout rf0" using sample_election by blast
  obtain rf1 where rf1: "RequestVote (Save sample_codec) 901 (sample_node 1) sample_vote =
      Some (\<lparr>rvr_Term = 1, rvr_VoteGranted = True\<rparr>, rf1)" using sample_granted by blast
  let ?reply = "\<lparr>rvr_Term = 1, rvr_VoteGranted = True\<rparr>"
  have "\<exists>rf2. collectVote (Save sample_codec) 901 rf0 sample_vote (Some ?reply) = Some (True, rf2) \<and>
      rf_role rf2 = Leader \<and> rf_currentTerm rf2 = 1"
    using rf0 by (auto simp: collectVote_def procVoteAnswer_def collectVote_count_def sample_vote_def Let_def
        resetLoop.simps gm_len_def ResetHeartTimer_def)
  then obtain rf2 where rf2: "collectVote (Save sample_codec) 901 rf0 sample_vote (Some ?reply) = Some (True, rf2)"
    "rf_role rf2 = Leader" "rf_currentTerm rf2 = 1" by blast
  have peers: "rf_peers (sample_node 0) = [1, 2]" by (simp add: sample_node_def Make_def)
  let ?step = "cluster_step (Save sample_codec) (stored sample_codec) [0, 1, 2]"
  define c1 where "c1 = set_node 0 rf0 sample_cluster\<lparr>cl_reqs := {} \<union> calls 0 [1, 2] sample_vote,
    cl_open := {} \<union> calls 0 [1, 2] sample_vote\<rparr>"
  have s1: "?step sample_cluster 0 (Granted (rva_Term sample_vote) (rva_CandidateId sample_vote)) c1"
    using cluster_step.elect [of 0 "[0, 1, 2]" "Save sample_codec" 900 3 sample_cluster sample_vote rf0] rf0(1) peers
    by (simp add: c1_def sample_cluster_def)
  define c2 where "c2 = set_node 1 rf1 c1\<lparr>cl_reqs := cl_reqs c1 - {(0, 1, sample_vote)},
    cl_reps := insert (0, 1, sample_vote, ?reply) (cl_reps c1)\<rparr>"
  have s2: "?step c1 1 (voteLabel sample_vote ?reply) c2"
    using cluster_step.vote [of 0 1 sample_vote c1 "Save sample_codec" 901 ?reply rf1] rf1
    by (simp add: c2_def c1_def calls_def sample_cluster_def)
  define c3 where "c3 = set_node 0 rf2 c2\<lparr>cl_open := cl_open c2 - {(0, 1, sample_vote)}\<rparr>"
  have s3: "?step c2 0 Silent c3"
    using cluster_step.collect [of 0 1 sample_vote ?reply c2 "Save sample_codec" 901 True rf2] rf2(1)
    by (simp add: c3_def c2_def c1_def calls_def sample_cluster_def)
  have "cluster_run (Save sample_codec) (stored sample_codec) [0, 1, 2] sample_cluster
      (record_vote 0 Silent (record_vote 1 (voteLabel sample_vote ?reply)
        (record_vote 0 (Granted (rva_Term sample_vote) (rva_CandidateId sample_vote)) (\<lambda>_. [])))) c3"
    by (rule cluster_run.step [OF cluster_run.step [OF cluster_run.step [OF cluster_run.init s1] s2] s3])
  moreover have "rf_role (cl_node c3 0) = Leader" "rf_currentTerm (cl_node c3 0) = 1" using rf2 by (simp_all add: c3_def)
  ultimately show ?thesis by blast
qed




end
